(* ===== verification/Prelude.thy ===== *)
theory Prelude
  imports Main "HOL-Library.Word"
begin

text \<open>
  Shared vocabulary of the AegisToken development: the machine integers and byte
  strings of the firmware, Rust's \<open>Result\<close>, slices of byte buffers, the
  \<open>to_le_bytes\<close>/\<open>from_be_bytes\<close> family of conversions, and the generic
  lemmas on them that every component theory uses.

  Conventions. A \<open>u8\<close>/\<open>u16\<close>/\<open>u32\<close>/\<open>u64\<close> of the source is a word of that
  width; \<open>+\<close> wraps, as it does in the release profile of the firmware (overflow
  checks are off there). A \<open>usize\<close> is a \<open>nat\<close>: the code uses it for lengths
  and offsets of buffers of a few kilobytes. A slice or a \<open>heapless::Vec\<close> is a
  list, its capacity check written out where the source has one. A panic of the
  source (index out of range) is never the value of a definition: every read below
  is guarded by the length test the source makes first.
\<close>

unbundle bit_operations_syntax

type_synonym u8 = "8 word"
type_synonym u16 = "16 word"
type_synonym u32 = "32 word"
type_synonym u64 = "64 word"
type_synonym bytes = "u8 list"

section \<open>Results\<close>

datatype ('a, 'e) result = Ok 'a | Err 'e

definition and_then :: "('a, 'e) result \<Rightarrow> ('a \<Rightarrow> ('b, 'e) result) \<Rightarrow> ('b, 'e) result" where
  "and_then r f = (case r of Ok x \<Rightarrow> f x | Err e \<Rightarrow> Err e)"

definition map_err :: "('e \<Rightarrow> 'f) \<Rightarrow> ('a, 'e) result \<Rightarrow> ('a, 'f) result" where
  "map_err f r = (case r of Ok x \<Rightarrow> Ok x | Err e \<Rightarrow> Err (f e))"

definition ok_or :: "'e \<Rightarrow> 'a option \<Rightarrow> ('a, 'e) result" where
  "ok_or e v = (case v of None \<Rightarrow> Err e | Some x \<Rightarrow> Ok x)"

fun is_ok :: "('a, 'e) result \<Rightarrow> bool" where
  "is_ok (Ok x) = True"
| "is_ok (Err e) = False"

text \<open>\<open>Result::ok\<close>.\<close>

fun ok_of :: "('a, 'e) result \<Rightarrow> 'a option" where
  "ok_of (Ok x) = Some x"
| "ok_of (Err e) = None"

lemma and_then_simps [simp]:
  "and_then (Ok x) f = f x"
  "and_then (Err e) f = Err e"
  by (simp_all add: and_then_def)

lemma and_then_Ok_iff: "and_then r f = Ok y \<longleftrightarrow> (\<exists>x. r = Ok x \<and> f x = Ok y)"
  by (cases r) simp_all

lemma map_err_simps [simp]:
  "map_err f (Ok x) = Ok x"
  "map_err f (Err e) = Err (f e)"
  by (simp_all add: map_err_def)

lemma ok_or_simps [simp]:
  "ok_or e None = Err e"
  "ok_or e (Some x) = Ok x"
  by (simp_all add: ok_or_def)

lemma ok_or_Ok_iff [simp]: "ok_or e v = Ok x \<longleftrightarrow> v = Some x"
  by (cases v) simp_all

lemma if_Ok_iff: "(if P then Ok x else y) = Ok r \<longleftrightarrow> (P \<and> r = x) \<or> (\<not> P \<and> y = Ok r)"
  by auto

lemma is_ok_iff: "is_ok r \<longleftrightarrow> (\<exists>x. r = Ok x)"
  by (cases r) simp_all

section \<open>Slices and buffers\<close>

text \<open>\<open>sub_slice a b xs\<close> is \<open>&xs[a..b]\<close>; \<open>copy_at a ys xs\<close> is
  \<open>xs[a..a + ys.len()].copy_from_slice(ys)\<close>.\<close>

definition sub_slice :: "nat \<Rightarrow> nat \<Rightarrow> 'a list \<Rightarrow> 'a list" where
  "sub_slice a b xs = take (b - a) (drop a xs)"

definition copy_at :: "nat \<Rightarrow> 'a list \<Rightarrow> 'a list \<Rightarrow> 'a list" where
  "copy_at a ys xs = take a xs @ ys @ drop (a + length ys) xs"

lemma length_sub_slice [simp]: "length (sub_slice a b xs) = min (b - a) (length xs - a)"
  by (simp add: sub_slice_def)

lemma sub_slice_0 [simp]: "sub_slice 0 b xs = take b xs"
  by (simp add: sub_slice_def)

lemma sub_slice_full [simp]: "b \<ge> length xs \<Longrightarrow> sub_slice a b xs = drop a xs"
  by (simp add: sub_slice_def)

lemma sub_slice_append_drop [simp]: "a \<le> b \<Longrightarrow> sub_slice a b xs @ drop b xs = drop a xs"
  unfolding sub_slice_def by (metis append_take_drop_id drop_drop le_add_diff_inverse2)

lemma sub_slice_take: "b \<le> n \<Longrightarrow> sub_slice a b (take n xs) = sub_slice a b xs"
  by (simp add: sub_slice_def drop_take min_def)

lemma sub_slice_min: "sub_slice a (min (a + k) (length xs)) xs = take k (drop a xs)"
  by (auto simp: sub_slice_def min_def)

lemma length_copy_at [simp]: "a + length ys \<le> length xs \<Longrightarrow> length (copy_at a ys xs) = length xs"
  by (simp add: copy_at_def)

lemma copy_at_append_left [simp]:
  "length xs = a \<Longrightarrow> copy_at a ys (xs @ zs) = xs @ ys @ drop (length ys) zs"
  by (simp add: copy_at_def)

lemma sub_slice_copy_at [simp]:
  "a + length ys \<le> length xs \<Longrightarrow> b = a + length ys \<Longrightarrow> sub_slice a b (copy_at a ys xs) = ys"
  by (simp add: sub_slice_def copy_at_def)

lemma copy_at_0 [simp]: "copy_at 0 ys xs = ys @ drop (length ys) xs"
  by (simp add: copy_at_def)

lemma take_copy_at [simp]: "n \<le> a \<Longrightarrow> a \<le> length xs \<Longrightarrow> take n (copy_at a ys xs) = take n xs"
  by (simp add: copy_at_def min_def)

text \<open>Writing two adjacent pieces is writing their concatenation.\<close>

lemma copy_at_adjacent:
  assumes "a + length ys = b" and "b + length zs \<le> length xs"
  shows "copy_at b zs (copy_at a ys xs) = copy_at a (ys @ zs) xs"
proof -
  have "min (length xs) a = a" using assms by simp
  with assms(1) show ?thesis by (auto simp: copy_at_def ac_simps)
qed

text \<open>Taking the last one or two elements off a list of known length.\<close>

lemma take_append_last1: "length xs = n + 1 \<Longrightarrow> take n xs @ [xs ! n] = xs"
  using take_Suc_conv_app_nth [of n xs] by simp

lemma take_append_last2: "length xs = n + 2 \<Longrightarrow> take n xs @ [xs ! n, xs ! (n + 1)] = xs"
  using take_Suc_conv_app_nth [of n xs] take_Suc_conv_app_nth [of "Suc n" xs] by simp

section \<open>Conversions between integers and bytes\<close>

definition le_bytes :: "nat \<Rightarrow> 'a::len word \<Rightarrow> bytes" where
  "le_bytes k w = map (\<lambda>i. ucast (drop_bit (8 * i) w)) [0..<k]"

primrec of_le_bytes :: "bytes \<Rightarrow> 'a::len word" where
  "of_le_bytes [] = 0"
| "of_le_bytes (b # bs) = push_bit 8 (of_le_bytes bs) OR ucast b"

definition be_bytes :: "nat \<Rightarrow> 'a::len word \<Rightarrow> bytes" where
  "be_bytes k w = rev (le_bytes k w)"

definition of_be_bytes :: "bytes \<Rightarrow> 'a::len word" where
  "of_be_bytes bs = of_le_bytes (rev bs)"

lemma length_le_bytes [simp]: "length (le_bytes k w) = k"
  by (simp add: le_bytes_def)

lemma length_be_bytes [simp]: "length (be_bytes k w) = k"
  by (simp add: be_bytes_def)

lemma bit_of_le_bytes:
  "bit (of_le_bytes bs :: 'a::len word) n \<longleftrightarrow>
     n < LENGTH('a) \<and> n div 8 < length bs \<and> bit (bs ! (n div 8)) (n mod 8)"
proof (induction bs arbitrary: n)
  case Nil
  then show ?case by simp
next
  case (Cons b bs)
  show ?case
  proof (cases "n < 8")
    case True
    then show ?thesis
      by (auto simp: bit_simps dest: bit_imp_le_length)
  next
    case False
    then have n: "n div 8 = Suc ((n - 8) div 8)" "n mod 8 = (n - 8) mod 8"
      by (simp_all add: div_if mod_if)
    have "\<not> bit b n"
      using False bit_imp_le_length [of b n] by auto
    with False n show ?thesis
      by (auto simp: bit_simps Cons.IH)
  qed
qed

lemma of_le_bytes_le_bytes [simp]:
  assumes "LENGTH('a) = 8 * k"
  shows "of_le_bytes (le_bytes k w) = (w :: 'a::len word)"
proof (rule bit_word_eqI)
  fix n
  assume n: "n < LENGTH('a)"
  then have "n div 8 < k" using assms by (simp add: less_mult_imp_div_less mult.commute)
  with n show "bit (of_le_bytes (le_bytes k w) :: 'a word) n = bit w n"
    by (simp add: bit_of_le_bytes le_bytes_def bit_simps)
qed

lemma le_bytes_of_le_bytes [simp]:
  assumes "LENGTH('a) = 8 * k" and "length bs = k"
  shows "le_bytes k (of_le_bytes bs :: 'a::len word) = bs"
proof (rule nth_equalityI)
  show "length (le_bytes k (of_le_bytes bs :: 'a word)) = length bs"
    using assms by simp
next
  fix i
  assume "i < length (le_bytes k (of_le_bytes bs :: 'a word))"
  then have i: "i < k" by simp
  show "le_bytes k (of_le_bytes bs :: 'a word) ! i = bs ! i"
  proof (rule bit_word_eqI)
    fix n
    assume n: "n < LENGTH(8)"
    then have n: "n < 8" by simp
    then have "8 * i + n < 8 * k" using i by simp
    with n i assms show "bit (le_bytes k (of_le_bytes bs :: 'a word) ! i) n = bit (bs ! i) n"
      by (simp add: le_bytes_def bit_simps bit_of_le_bytes)
  qed
qed

lemma of_be_bytes_be_bytes [simp]:
  "LENGTH('a) = 8 * k \<Longrightarrow> of_be_bytes (be_bytes k w) = (w :: 'a::len word)"
  by (simp add: of_be_bytes_def be_bytes_def)

lemma be_bytes_of_be_bytes [simp]:
  "LENGTH('a) = 8 * k \<Longrightarrow> length bs = k \<Longrightarrow> be_bytes k (of_be_bytes bs :: 'a::len word) = bs"
  by (simp add: of_be_bytes_def be_bytes_def)

lemma unat_u8_less [simp]: "unat (w :: u8) < 256"
  using unsigned_less [of w, where 'a = nat] by simp

lemma unat_u16_less [simp]: "unat (w :: u16) < 65536"
  using unsigned_less [of w, where 'a = nat] by simp

lemma unat_u32_less [simp]: "unat (w :: u32) < 4294967296"
  using unsigned_less [of w, where 'a = nat] by simp

lemma unat_of_nat_u8 [simp]: "n < 256 \<Longrightarrow> unat (of_nat n :: u8) = n"
  by (simp add: unat_of_nat)

lemma unat_of_nat_u16 [simp]: "n < 65536 \<Longrightarrow> unat (of_nat n :: u16) = n"
  by (simp add: unat_of_nat)

lemma unat_of_nat_u32 [simp]: "n < 4294967296 \<Longrightarrow> unat (of_nat n :: u32) = n"
  by (simp add: unat_of_nat)

lemma unat_of_nat_u64 [simp]: "n < 18446744073709551616 \<Longrightarrow> unat (of_nat n :: u64) = n"
  by (simp add: unat_of_nat)

lemma unat_byte_of_nat:
  assumes "n < 2 ^ LENGTH('a::len)"
  shows "unat (ucast (drop_bit (8 * i) (of_nat n :: 'a word)) :: u8) = n div 256 ^ i mod 256"
proof -
  have "unat (of_nat n :: 'a word) = n" using assms by (simp add: unsigned_of_nat take_bit_nat_eq_self)
  moreover have "unat (drop_bit (8 * i) (of_nat n :: 'a word)) = unat (of_nat n :: 'a word) div 2 ^ (8 * i)"
    using assms by (simp add: unsigned_drop_bit_eq unsigned_of_nat take_bit_nat_eq_self
        drop_bit_eq_div [where 'a = nat])
  ultimately show ?thesis
    by (simp add: unsigned_ucast_eq take_bit_eq_mod [where 'a = nat] power_mult)
qed

lemma unat_ucast_widen:
  assumes "LENGTH('a::len) \<le> LENGTH('b::len)"
  shows "unat (ucast (w :: 'a word) :: 'b word) = unat w"
proof -
  have "unat w < 2 ^ LENGTH('b)"
    using unsigned_less [of w] assms by (metis less_le_trans one_le_numeral power_increasing)
  then show ?thesis by (simp add: unsigned_ucast_eq take_bit_nat_eq_self)
qed

lemma ucast_up_eq_0_iff:
  "LENGTH('a) \<le> LENGTH('b) \<Longrightarrow> (ucast (w :: 'a::len word) :: 'b::len word) = 0 \<longleftrightarrow> w = 0"
  by (auto simp: bit_eq_iff bit_simps dest: bit_imp_le_length)

lemma ucast_ucast_up:
  "LENGTH('a) \<le> LENGTH('b) \<Longrightarrow> (ucast (ucast (w :: 'a::len word) :: 'b::len word) :: 'c::len word) = ucast w"
  by (auto simp: bit_eq_iff bit_simps dest: bit_imp_le_length)

section \<open>Arithmetic of the standard library\<close>

definition saturating_sub :: "'a::len word \<Rightarrow> 'a word \<Rightarrow> 'a word" where
  "saturating_sub a b = (if b \<le> a then a - b else 0)"

definition saturating_add :: "'a::len word \<Rightarrow> 'a word \<Rightarrow> 'a word" where
  "saturating_add a b = (if unat a + unat b < 2 ^ LENGTH('a) then a + b else - 1)"

definition saturating_mul :: "'a::len word \<Rightarrow> 'a word \<Rightarrow> 'a word" where
  "saturating_mul a b = (if unat a * unat b < 2 ^ LENGTH('a) then a * b else - 1)"

definition checked_add :: "'a::len word \<Rightarrow> 'a word \<Rightarrow> 'a word option" where
  "checked_add a b = (if unat a + unat b < 2 ^ LENGTH('a) then Some (a + b) else None)"

lemma unat_saturating_sub: "unat (saturating_sub a b) = unat a - unat b"
  by (auto simp: saturating_sub_def unat_sub word_le_nat_alt)

lemma checked_add_code [code]:
  "checked_add a b = (let c = a + b in if a \<le> c then Some c else None)"
  by (simp add: checked_add_def no_olen_add_nat Let_def)

lemma saturating_add_code [code]:
  "saturating_add a b = (let c = a + b in if a \<le> c then c else - 1)"
  by (simp add: saturating_add_def no_olen_add_nat Let_def)

lemma saturating_mul_code [code]:
  "saturating_mul a (b :: 'a::len word) =
     (let c = uint a * uint b in if c < 2 ^ LENGTH('a) then word_of_int c else - 1)"
proof -
  have "uint a * uint b = int (unat a * unat b)" by simp
  then have "uint a * uint b < int (2 ^ LENGTH('a)) \<longleftrightarrow> unat a * unat b < 2 ^ LENGTH('a)"
    by (simp only: of_nat_less_iff)
  then show ?thesis by (simp add: saturating_mul_def Let_def)
qed

lemma checked_add_SomeD: "checked_add a b = Some c \<Longrightarrow> unat c = unat a + unat b"
  for a :: "'a::len word"
  by (auto simp: checked_add_def unat_word_ariths split: if_splits)

text \<open>The constant-time comparison every module of the firmware writes by hand: the
  lengths are compared, then the XOR of the bytes is accumulated. It decides equality.\<close>

definition xor_fold :: "bytes \<Rightarrow> bytes \<Rightarrow> u8" where
  "xor_fold a b = fold (\<lambda>(x, y) acc. acc OR (x XOR y)) (zip a b) 0"

lemma fold_or_eq_0_iff:
  "fold (\<lambda>(x, y) acc. acc OR (x XOR y)) xys c = (0 :: u8) \<longleftrightarrow>
     c = 0 \<and> (\<forall>(x, y) \<in> set xys. x = y)"
proof (induction xys arbitrary: c)
  case Nil
  then show ?case by simp
next
  case (Cons xy xys)
  obtain x y where xy: "xy = (x, y)" by (cases xy)
  have "c OR (x XOR y) = 0 \<longleftrightarrow> c = 0 \<and> x = y"
    by (auto simp: bit_eq_iff bit_simps)
  then show ?case by (simp add: Cons.IH xy)
qed

lemma xor_fold_eq_0_iff: "length a = length b \<Longrightarrow> xor_fold a b = 0 \<longleftrightarrow> a = b"
  unfolding xor_fold_def fold_or_eq_0_iff by (auto simp: list_eq_iff_zip_eq)

section \<open>Vectors and searches\<close>

text \<open>A \<open>heapless::Vec\<close> of capacity \<open>N\<close>: \<open>push\<close> and \<open>extend_from_slice\<close> fail when it is full.\<close>

definition vec_push :: "nat \<Rightarrow> 'a list \<Rightarrow> 'a \<Rightarrow> 'a list option" where
  "vec_push N xs x = (if length xs < N then Some (xs @ [x]) else None)"

lemma vec_push_Some_iff: "vec_push N xs x = Some ys \<longleftrightarrow> length xs < N \<and> ys = xs @ [x]"
  by (auto simp: vec_push_def)

definition extend_vec :: "nat \<Rightarrow> 'e \<Rightarrow> 'a list \<Rightarrow> 'a list \<Rightarrow> ('a list, 'e) result" where
  "extend_vec N e xs ys = (if length xs + length ys \<le> N then Ok (xs @ ys) else Err e)"

text \<open>\<open>Iterator::position\<close>, and \<open>swap_remove\<close>, which moves the last element into the gap.\<close>

definition swap_remove :: "nat \<Rightarrow> 'a list \<Rightarrow> 'a list" where
  "swap_remove k xs = (if k = length xs - 1 then butlast xs else butlast (xs[k := last xs]))"

definition position :: "('a \<Rightarrow> bool) \<Rightarrow> 'a list \<Rightarrow> nat option" where
  "position P xs = find (\<lambda>k. P (xs ! k)) [0..<length xs]"

lemma find_append: "find P (xs @ ys) = (case find P xs of Some x \<Rightarrow> Some x | None \<Rightarrow> find P ys)"
  by (induction xs) auto

lemma set_swap_remove:
  assumes "distinct xs" and "k < length xs"
  shows "set (swap_remove k xs) = set xs - {xs ! k}" and "distinct (swap_remove k xs)"
proof -
  obtain ys y where xs: "xs = ys @ [y]" using assms(2) by (cases xs rule: rev_cases) auto
  then have y: "y \<notin> set ys" and ys: "distinct ys" using assms(1) by auto
  have "set (ys[k := y]) = insert y (set ys - {ys ! k})" "distinct (ys[k := y])" if "k < length ys"
    using that y ys set_update_distinct [OF ys that] by (auto intro: distinct_list_update)
  with xs y ys assms(2) show "set (swap_remove k xs) = set xs - {xs ! k}" "distinct (swap_remove k xs)"
    by (auto simp: swap_remove_def nth_append list_update_append butlast_append split: if_splits)
qed

lemma swap_remove_map:
  assumes "k < length xs"
  shows "map f (swap_remove k xs) = swap_remove k (map f xs)"
proof -
  have "last (map f xs) = f (last xs)" using assms by (intro last_map) auto
  then show ?thesis by (simp add: swap_remove_def map_butlast map_update)
qed

lemma position_eq_Some:
  "position P xs = Some k \<longleftrightarrow> k < length xs \<and> P (xs ! k) \<and> (\<forall>j < k. \<not> P (xs ! j))"
  by (auto simp: position_def find_Some_iff)

lemma position_Some: "position P xs = Some k \<Longrightarrow> k < length xs \<and> P (xs ! k)"
  by (simp add: position_eq_Some)

lemma position_None: "position P xs = None \<longleftrightarrow> (\<forall>x \<in> set xs. \<not> P x)"
  by (auto simp: position_def find_None_iff set_conv_nth)

lemma position_upsert:
  assumes "P x"
  shows "\<exists>i. position P (case position P xs of Some i \<Rightarrow> xs[i := x] | None \<Rightarrow> xs @ [x]) = Some i \<and>
    (case position P xs of Some i \<Rightarrow> xs[i := x] | None \<Rightarrow> xs @ [x]) ! i = x"
proof (cases "position P xs")
  case None
  then have "\<forall>j < length xs. \<not> P (xs ! j)" by (simp add: position_None)
  with assms show ?thesis
    unfolding None option.case by (intro exI [of _ "length xs"]) (simp add: position_eq_Some nth_append)
next
  case (Some i)
  from Some [unfolded position_eq_Some] assms show ?thesis
    unfolding Some option.case by (intro exI [of _ i]) (simp add: position_eq_Some)
qed

text \<open>A random generator: its state and a function that fills a buffer.\<close>

type_synonym 'g fill = "nat \<Rightarrow> 'g \<Rightarrow> bytes \<times> 'g"

end
