(* ===== verification/Core_Error.thy ===== *)
theory Core_Error
  imports Prelude
begin

text \<open>
  The error taxonomy of \<open>crates/aegis-core/src/error.rs\<close>: the categories every fallible
  operation of the core returns, and the stable status code the Management HID
  interface puts on the wire for each of them.
\<close>

datatype CoreError =
    InvalidCommand | UnsupportedCommand | InvalidCapability | InvalidConfiguration
  | InvalidState | Unauthorized | StorageError | CryptoError | FirmwareError | ProtocolError

type_synonym 'a CoreResult = "('a, CoreError) result"

fun core_error_code :: "CoreError \<Rightarrow> u8" where
  "core_error_code InvalidCommand = 0x01"
| "core_error_code UnsupportedCommand = 0x02"
| "core_error_code InvalidCapability = 0x03"
| "core_error_code InvalidConfiguration = 0x04"
| "core_error_code InvalidState = 0x05"
| "core_error_code Unauthorized = 0x06"
| "core_error_code StorageError = 0x07"
| "core_error_code CryptoError = 0x08"
| "core_error_code FirmwareError = 0x09"
| "core_error_code ProtocolError = 0x0A"

lemma core_error_code_inject: "core_error_code a = core_error_code b \<longleftrightarrow> a = b"
  by (cases a; cases b) simp_all

lemma core_error_code_nonzero: "core_error_code e \<noteq> 0"
  by (cases e) simp_all

end
