(* ===== verification/Exec_State.thy ===== *)
theory Exec_State
  imports Core_Error
begin

text \<open>
  The execution state machine of \<open>crates/aegis-core/src/state.rs\<close>: what the firmware is
  doing right now, the legal transitions, the contextual rules read off the state
  (BOOTSEL as user presence, FIDO service), and the boot plan that says which
  transports and sealed stores a boot may open. Constructors carry the prefix
  \<open>X_\<close>, because the lifecycle has states of the same names.
\<close>

datatype ExecutionState =
    X_Boot | X_Active | X_FidoWaitPresence | X_FidoOperation | X_Management
  | X_FirmwareUpdate | X_Recovery | X_Locked

definition exec_can_transition :: "ExecutionState \<Rightarrow> ExecutionState \<Rightarrow> bool" where
  "exec_can_transition self next \<longleftrightarrow>
     self = next \<or>
     (case self of
        X_Boot \<Rightarrow> next \<in> {X_Active, X_Recovery, X_Locked}
      | X_Active \<Rightarrow> next \<in> {X_FidoWaitPresence, X_FidoOperation, X_Management,
                            X_FirmwareUpdate, X_Recovery, X_Locked}
      | X_FidoWaitPresence \<Rightarrow> next \<in> {X_FidoOperation, X_Active, X_Locked}
      | X_FidoOperation \<Rightarrow> next \<in> {X_Active, X_Locked}
      | X_Management \<Rightarrow> next \<in> {X_Active, X_FirmwareUpdate, X_Locked}
      | X_FirmwareUpdate \<Rightarrow> next \<in> {X_Active, X_Recovery, X_Locked}
      | X_Recovery \<Rightarrow> next \<in> {X_Active, X_FirmwareUpdate, X_Locked}
      | X_Locked \<Rightarrow> next = X_Recovery)"

definition exec_transition :: "ExecutionState \<Rightarrow> ExecutionState \<Rightarrow> ExecutionState CoreResult" where
  "exec_transition self next =
     (if exec_can_transition self next then Ok next else Err InvalidState)"

definition boot_destination :: "bool \<Rightarrow> ExecutionState" where
  "boot_destination bootsel_held = (if bootsel_held then X_Recovery else X_Active)"

definition bootsel_allowed_as_presence :: "ExecutionState \<Rightarrow> bool" where
  "bootsel_allowed_as_presence state \<longleftrightarrow> state = X_FidoWaitPresence"

definition fido_allowed :: "ExecutionState \<Rightarrow> bool" where
  "fido_allowed state \<longleftrightarrow> state \<in> {X_Active, X_FidoWaitPresence, X_FidoOperation}"

definition is_boot_destination :: "ExecutionState \<Rightarrow> bool" where
  "is_boot_destination state \<longleftrightarrow> state \<in> {X_Active, X_Recovery, X_Locked}"

record BootPlan =
  bp_destination :: ExecutionState
  bp_fido :: bool
  bp_ccid :: bool
  bp_management :: bool
  bp_otp_lab :: bool
  bp_sealed_credential_store :: bool
  bp_sealed_applet_stores :: bool

definition for_destination :: "ExecutionState \<Rightarrow> BootPlan" where
  "for_destination destination =
     (let fido = is_boot_destination destination \<and> destination = X_Active
      in \<lparr>bp_destination = destination, bp_fido = fido, bp_ccid = fido,
          bp_management = True, bp_otp_lab = True,
          bp_sealed_credential_store = fido, bp_sealed_applet_stores = fido\<rparr>)"

lemmas exec_state_defs =
  exec_can_transition_def exec_transition_def boot_destination_def
  bootsel_allowed_as_presence_def fido_allowed_def is_boot_destination_def for_destination_def

subsection \<open>Runs of the machine\<close>

text \<open>A run applies the requested transitions one after the other; a rejected request
  leaves the state, as \<open>self.state = self.state.transition(next)?\<close> does.\<close>

inductive exec_step :: "ExecutionState \<Rightarrow> ExecutionState \<Rightarrow> bool" where
  "exec_transition s t = Ok t \<Longrightarrow> exec_step s t"

inductive exec_path :: "ExecutionState \<Rightarrow> ExecutionState list \<Rightarrow> ExecutionState \<Rightarrow> bool" where
  exec_path_nil: "exec_path s [] s"
| exec_path_cons: "exec_step s t \<Longrightarrow> exec_path t ts u \<Longrightarrow> exec_path s (t # ts) u"

inductive_simps exec_step_iff: "exec_step s t"

inductive_cases exec_path_NilE [elim!]: "exec_path s [] u"
inductive_cases exec_path_ConsE [elim!]: "exec_path s (t # ts) u"

lemma exec_transition_Ok_iff: "exec_transition s t = Ok u \<longleftrightarrow> u = t \<and> exec_can_transition s t"
  by (auto simp: exec_transition_def)

lemma exec_step_can: "exec_step s t \<longleftrightarrow> exec_can_transition s t"
  by (simp add: exec_step_iff exec_transition_Ok_iff)

text \<open>The states a run can enter only through \<open>X_Active\<close>, and the way out of
  \<open>X_Locked\<close>.\<close>

lemma exec_enter_fido:
  assumes "exec_step s t" and "t = X_FidoWaitPresence \<or> t = X_FidoOperation" and "s \<noteq> t"
  shows "s = X_Active \<or> (s = X_FidoWaitPresence \<and> t = X_FidoOperation)"
  using assms unfolding exec_step_can exec_can_transition_def
  by (auto split: ExecutionState.splits)

lemma exec_leave_locked: "exec_step X_Locked t \<Longrightarrow> t = X_Locked \<or> t = X_Recovery"
  by (auto simp: exec_step_can exec_can_transition_def)

lemma exec_path_from_locked:
  assumes "exec_path X_Locked ts u" and "X_Recovery \<notin> set ts"
  shows "u = X_Locked"
  using assms
proof (induction "X_Locked" ts u rule: exec_path.induct)
  case exec_path_nil
  show ?case ..
next
  case (exec_path_cons t ts u)
  then have "t = X_Locked" using exec_leave_locked by auto
  with exec_path_cons show ?case by simp
qed

lemma exec_path_to_presence:
  assumes "exec_path s ts X_FidoWaitPresence" and "s \<noteq> X_FidoWaitPresence"
  shows "X_Active \<in> set (s # ts)"
  using assms
proof (induction s ts "X_FidoWaitPresence" rule: exec_path.induct)
  case (exec_path_cons s t ts)
  show ?case
  proof (cases "t = X_FidoWaitPresence")
    case True
    then show ?thesis
      using exec_enter_fido [OF exec_path_cons.hyps(1)] exec_path_cons.prems by auto
  next
    case False
    then show ?thesis using exec_path_cons by auto
  qed
qed simp

lemma exec_path_split:
  assumes "exec_path s (as @ t # bs) u"
  shows "\<exists>m. exec_path s as m \<and> exec_step m t"
  using assms
proof (induction as arbitrary: s)
  case Nil
  then show ?case by (auto intro: exec_path_nil)
next
  case (Cons a as)
  then show ?case by (fastforce intro: exec_path_cons)
qed

text \<open>The first state of a run that serves FIDO, when the run starts outside, is
  \<open>X_Active\<close>.\<close>

lemma exec_path_to_fido:
  assumes "exec_path s ts u" and "\<not> fido_allowed s" and "fido_allowed u"
  shows "\<exists>as bs. ts = as @ X_Active # bs \<and> (\<forall>x \<in> set as. \<not> fido_allowed x)"
  using assms
proof (induction rule: exec_path.induct)
  case (exec_path_nil s)
  then show ?case by simp
next
  case (exec_path_cons s t ts u)
  show ?case
  proof (cases "fido_allowed t")
    case True
    with exec_path_cons.prems(1) exec_path_cons.hyps(1) have "t = X_Active"
      unfolding exec_step_can exec_can_transition_def fido_allowed_def
      by (auto split: ExecutionState.splits)
    then show ?thesis by (intro exI [of _ "[]"] exI [of _ ts]) simp
  next
    case False
    with exec_path_cons.IH exec_path_cons.prems obtain as bs
      where "ts = as @ X_Active # bs" "\<forall>x \<in> set as. \<not> fido_allowed x" by blast
    with False show ?thesis by (intro exI [of _ "t # as"] exI [of _ bs]) simp
  qed
qed

section \<open>Properties\<close>

text \<open>C34: a locked device serves FIDO again only by way of recovery: every run from
  \<open>X_Locked\<close> to a state that serves FIDO goes through \<open>X_Recovery\<close> first and enters
  \<open>X_Active\<close> after it, and serves no FIDO before that. In particular BOOTSEL cannot count
  as user presence before.\<close>

theorem locked_needs_recovery:
  assumes run: "exec_path X_Locked ts u" and fido: "fido_allowed u"
  shows "\<exists>as bs. ts = as @ X_Active # bs \<and> X_Recovery \<in> set as \<and>
     (\<forall>x \<in> set as. \<not> fido_allowed x \<and> \<not> bootsel_allowed_as_presence x)"
proof -
  have "\<not> fido_allowed X_Locked" by (simp add: fido_allowed_def)
  with exec_path_to_fido [OF run _ fido] obtain as bs
    where ts: "ts = as @ X_Active # bs" "\<forall>x \<in> set as. \<not> fido_allowed x" by blast
  with run obtain m where m: "exec_path X_Locked as m" "exec_step m X_Active"
    using exec_path_split by blast
  have "X_Recovery \<in> set as"
  proof (rule ccontr)
    assume "X_Recovery \<notin> set as"
    with exec_path_from_locked [OF m(1)] m(2) show False
      by (auto simp: exec_step_can exec_can_transition_def)
  qed
  moreover have "\<not> bootsel_allowed_as_presence x" if "\<not> fido_allowed x" for x
    using that by (auto simp: fido_allowed_def bootsel_allowed_as_presence_def)
  ultimately show ?thesis using ts by blast
qed

theorem locked_needs_recovery_witness:
  "\<exists>as bs. [X_Recovery, X_Active, X_FidoWaitPresence] = as @ X_Active # bs \<and> X_Recovery \<in> set as"
proof -
  have run: "exec_path X_Locked [X_Recovery, X_Active, X_FidoWaitPresence] X_FidoWaitPresence"
    by (intro exec_path.intros) (simp_all add: exec_step_can exec_can_transition_def)
  have "fido_allowed X_FidoWaitPresence" by (simp add: fido_allowed_def)
  with run obtain as bs where "[X_Recovery, X_Active, X_FidoWaitPresence] = as @ X_Active # bs"
    "X_Recovery \<in> set as" by (elim locked_needs_recovery [elim_format] exE conjE)
  then show ?thesis by (intro exI conjI)
qed

text \<open>The boot plan is fail-closed and consistent with the machine. Power-on lands on a
  legal successor of \<open>X_Boot\<close>; FIDO, CCID and both sealed stores are enabled together, only
  for \<open>X_Active\<close>, hence only where the machine serves FIDO; with BOOTSEL held all four stay
  closed, while management stays open everywhere.\<close>

theorem boot_plan_fail_closed:
  "exec_transition X_Boot (boot_destination held) = Ok (boot_destination held) \<and>
   is_boot_destination (boot_destination held) \<and>
   bp_fido (for_destination (boot_destination held)) = (\<not> held) \<and>
   bp_fido (for_destination d) = (d = X_Active) \<and>
   bp_ccid (for_destination d) = bp_fido (for_destination d) \<and>
   bp_sealed_credential_store (for_destination d) = bp_fido (for_destination d) \<and>
   bp_sealed_applet_stores (for_destination d) = bp_fido (for_destination d) \<and>
   (bp_fido (for_destination d) \<longrightarrow> fido_allowed (bp_destination (for_destination d))) \<and>
   bp_management (for_destination d)"
  by (cases held) (auto simp: exec_state_defs Let_def)

theorem boot_plan_fail_closed_witness:
  "bp_fido (for_destination X_Active) \<and> fido_allowed (bp_destination (for_destination X_Active))"
proof -
  have "bp_fido (for_destination X_Active)" by (simp add: for_destination_def is_boot_destination_def)
  with boot_plan_fail_closed [of False X_Active] show ?thesis by simp
qed

end
