(* ===== verification/Lifecycle.thy ===== *)
theory Lifecycle
  imports Core_Error
begin

text \<open>
  The device lifecycle of \<open>crates/aegis-core/src/lifecycle.rs\<close>: the provisioning states,
  the legal transitions, the policy read off the state, and the
  \<open>LifecycleManager\<close> whose named operations are the only way callers move it.
  Constructors carry the prefix \<open>L_\<close>.
\<close>

datatype LifecycleState =
    L_Factory | L_Commissioning | L_Commissioned | L_Provisioning | L_Provisioned
  | L_Active | L_Suspended | L_Decommissioned

definition life_can_transition :: "LifecycleState \<Rightarrow> LifecycleState \<Rightarrow> bool" where
  "life_can_transition self next \<longleftrightarrow>
     self = next \<or>
     (case self of
        L_Factory \<Rightarrow> next = L_Commissioning
      | L_Commissioning \<Rightarrow> next \<in> {L_Commissioned, L_Factory}
      | L_Commissioned \<Rightarrow> next = L_Provisioning
      | L_Provisioning \<Rightarrow> next \<in> {L_Provisioned, L_Commissioned}
      | L_Provisioned \<Rightarrow> next = L_Active
      | L_Active \<Rightarrow> next \<in> {L_Suspended, L_Decommissioned}
      | L_Suspended \<Rightarrow> next \<in> {L_Active, L_Decommissioned}
      | L_Decommissioned \<Rightarrow> next = L_Factory)"

definition life_transition :: "LifecycleState \<Rightarrow> LifecycleState \<Rightarrow> LifecycleState CoreResult" where
  "life_transition self next =
     (if life_can_transition self next then Ok next else Err InvalidState)"

definition allows_config_change :: "LifecycleState \<Rightarrow> bool" where
  "allows_config_change s \<longleftrightarrow> s \<in> {L_Factory, L_Commissioning, L_Commissioned}"

definition allows_identity_provisioning :: "LifecycleState \<Rightarrow> bool" where
  "allows_identity_provisioning s \<longleftrightarrow> s = L_Factory"

definition is_decommissioned :: "LifecycleState \<Rightarrow> bool" where
  "is_decommissioned s \<longleftrightarrow> s = L_Decommissioned"

definition is_operational :: "LifecycleState \<Rightarrow> bool" where
  "is_operational s \<longleftrightarrow> s \<in> {L_Provisioned, L_Active}"

subsection \<open>The manager\<close>

text \<open>The manager's state is its \<open>state\<close> field. An operation returns the result and
  the new state; on an error the state is the old one.\<close>

datatype LifecycleOp =
    Commission | FinishCommissioning | BeginProvisioning | FinishProvisioning
  | Activate | Suspend | Resume | Decommission | FactoryReset

definition life_advance ::
  "LifecycleState \<Rightarrow> LifecycleState \<Rightarrow> unit CoreResult \<times> LifecycleState" where
  "life_advance self next =
     (case life_transition self next of Ok s \<Rightarrow> (Ok (), s) | Err e \<Rightarrow> (Err e, self))"

fun lifecycle_op :: "LifecycleOp \<Rightarrow> LifecycleState \<Rightarrow> unit CoreResult \<times> LifecycleState" where
  "lifecycle_op Commission s =
     (case s of L_Factory \<Rightarrow> life_advance s L_Commissioning
              | L_Commissioning \<Rightarrow> (Ok (), s)
              | _ \<Rightarrow> (Err InvalidState, s))"
| "lifecycle_op FinishCommissioning s = life_advance s L_Commissioned"
| "lifecycle_op BeginProvisioning s = life_advance s L_Provisioning"
| "lifecycle_op FinishProvisioning s = life_advance s L_Provisioned"
| "lifecycle_op Activate s = life_advance s L_Active"
| "lifecycle_op Suspend s = life_advance s L_Suspended"
| "lifecycle_op Resume s = life_advance s L_Active"
| "lifecycle_op Decommission s = life_advance s L_Decommissioned"
| "lifecycle_op FactoryReset s =
     (case s of L_Decommissioned \<Rightarrow> life_advance s L_Factory
              | L_Factory \<Rightarrow> (Ok (), s)
              | _ \<Rightarrow> (Err InvalidState, s))"

fun lifecycle_run :: "LifecycleOp list \<Rightarrow> LifecycleState \<Rightarrow> LifecycleState" where
  "lifecycle_run [] s = s"
| "lifecycle_run (op # ops) s = lifecycle_run ops (snd (lifecycle_op op s))"

lemmas lifecycle_defs =
  life_advance_def life_transition_def life_can_transition_def

text \<open>Every operation either moves along a legal edge and succeeds, or fails with
  \<open>InvalidState\<close> and leaves the state.\<close>

lemma lifecycle_op_cases:
  "(\<exists>t. lifecycle_op op s = (Ok (), t) \<and> life_can_transition s t) \<or>
   lifecycle_op op s = (Err InvalidState, s)"
  by (cases op; cases s) (simp_all add: lifecycle_defs)

text \<open>The sealed part of the lifecycle: once a device is provisioned, only a factory
  reset of a decommissioned device opens configuration again.\<close>

definition life_sealed :: "LifecycleState \<Rightarrow> bool" where
  "life_sealed s \<longleftrightarrow> s \<in> {L_Provisioned, L_Active, L_Suspended, L_Decommissioned}"

lemma life_sealed_not_config: "life_sealed s \<Longrightarrow> \<not> allows_config_change s"
  by (auto simp: life_sealed_def allows_config_change_def)

lemma lifecycle_op_sealed:
  assumes "life_sealed s" and "op \<noteq> FactoryReset"
  shows "life_sealed (snd (lifecycle_op op s))"
  using assms by (cases op; cases s) (simp_all add: life_sealed_def lifecycle_defs)

lemma lifecycle_run_sealed:
  assumes "life_sealed s" and "FactoryReset \<notin> set ops"
  shows "life_sealed (lifecycle_run ops s)"
  using assms
proof (induction ops arbitrary: s)
  case Nil
  then show ?case by simp
next
  case (Cons op ops)
  then have "life_sealed (snd (lifecycle_op op s))" by (intro lifecycle_op_sealed) auto
  with Cons show ?case by simp
qed

text \<open>A factory reset is refused outside \<open>L_Decommissioned\<close> and \<open>L_Factory\<close>, so it
  opens nothing on a live device either.\<close>

lemma factory_reset_needs_decommissioned:
  assumes "life_sealed s" and "s \<noteq> L_Decommissioned"
  shows "lifecycle_op FactoryReset s = (Err InvalidState, s)"
  using assms by (cases s) (simp_all add: life_sealed_def)

section \<open>Properties\<close>

text \<open>C35: a provisioned device stays sealed. Whatever operations are called on it, in any
  order and with any of them failing, configuration changes or identity provisioning
  become possible again only if a factory reset was called at a moment when the device
  was decommissioned.\<close>

theorem sealed_until_reset:
  assumes "life_sealed s"
    and "allows_config_change (lifecycle_run ops s) \<or>
         allows_identity_provisioning (lifecycle_run ops s)"
  shows "\<exists>pre post. ops = pre @ FactoryReset # post \<and> lifecycle_run pre s = L_Decommissioned"
  using assms
proof (induction ops arbitrary: s)
  case Nil
  then show ?case
    by (auto simp: life_sealed_def allows_config_change_def allows_identity_provisioning_def)
next
  case (Cons op ops)
  show ?case
  proof (cases "life_sealed (snd (lifecycle_op op s))")
    case True
    from Cons.IH [OF True] Cons.prems(2) obtain pre post where
      "ops = pre @ FactoryReset # post"
      "lifecycle_run pre (snd (lifecycle_op op s)) = L_Decommissioned"
      unfolding lifecycle_run.simps by blast
    then show ?thesis by (intro exI [of _ "op # pre"] exI [of _ post]) simp
  next
    case False
    with Cons.prems(1) lifecycle_op_sealed have op: "op = FactoryReset" by blast
    with False Cons.prems(1) factory_reset_needs_decommissioned have "s = L_Decommissioned"
      by fastforce
    with op show ?thesis by (intro exI [of _ "[]"] exI [of _ ops]) simp
  qed
qed

theorem sealed_until_reset_witness:
  "\<exists>pre post. [Suspend, Decommission, FactoryReset, Commission] = pre @ FactoryReset # post \<and>
     lifecycle_run pre L_Active = L_Decommissioned"
proof -
  have "life_sealed L_Active" by (simp add: life_sealed_def)
  moreover have "allows_config_change
      (lifecycle_run [Suspend, Decommission, FactoryReset, Commission] L_Active)"
    by (simp add: lifecycle_defs allows_config_change_def)
  ultimately show ?thesis using sealed_until_reset by blast
qed

end
