(* ===== verification/Recovery.thy ===== *)
theory Recovery
  imports Exec_State
begin

text \<open>
  The recovery session of \<open>crates/aegis-core/src/recovery.rs\<close>: diagnostics, firmware
  update and device recovery are open, FIDO, user presence, credentials and secret
  export are denied in every state the session can reach.
\<close>

datatype RecoveryOperation = Diagnostics | FirmwareUpdateOp | DeviceRecovery

definition operation_allowed :: "RecoveryOperation \<Rightarrow> bool" where
  "operation_allowed op \<longleftrightarrow> op \<in> {Diagnostics, FirmwareUpdateOp, DeviceRecovery}"

record RecoverySession =
  rs_state :: ExecutionState

definition recovery_enter :: RecoverySession where
  "recovery_enter = \<lparr>rs_state = X_Recovery\<rparr>"

definition recovery_authorize :: "RecoverySession \<Rightarrow> RecoveryOperation \<Rightarrow> unit CoreResult" where
  "recovery_authorize self op = (if operation_allowed op then Ok () else Err Unauthorized)"

definition recovery_move ::
  "RecoverySession \<Rightarrow> ExecutionState \<Rightarrow> unit CoreResult \<times> RecoverySession" where
  "recovery_move self next =
     (case exec_transition (rs_state self) next of
        Ok s \<Rightarrow> (Ok (), self\<lparr>rs_state := s\<rparr>) | Err e \<Rightarrow> (Err e, self))"

definition begin_firmware_update :: "RecoverySession \<Rightarrow> unit CoreResult \<times> RecoverySession" where
  "begin_firmware_update self = recovery_move self X_FirmwareUpdate"

definition finish_firmware_update :: "RecoverySession \<Rightarrow> unit CoreResult \<times> RecoverySession" where
  "finish_firmware_update self = recovery_move self X_Recovery"

definition recovery_fido_operation :: "RecoverySession \<Rightarrow> unit CoreResult" where
  "recovery_fido_operation self =
     (if fido_allowed (rs_state self) then Ok () else Err Unauthorized)"

definition recovery_user_presence :: "RecoverySession \<Rightarrow> unit CoreResult" where
  "recovery_user_presence self = Err Unauthorized"

definition recovery_credential_access :: "RecoverySession \<Rightarrow> unit CoreResult" where
  "recovery_credential_access self = Err Unauthorized"

definition recovery_export_secret :: "RecoverySession \<Rightarrow> unit CoreResult" where
  "recovery_export_secret self = Err Unauthorized"

text \<open>The states a session reaches: entering, then any sequence of the two
  state-changing operations.\<close>

inductive recovery_reachable :: "RecoverySession \<Rightarrow> bool" where
  rr_enter: "recovery_reachable recovery_enter"
| rr_begin: "recovery_reachable s \<Longrightarrow> recovery_reachable (snd (begin_firmware_update s))"
| rr_finish: "recovery_reachable s \<Longrightarrow> recovery_reachable (snd (finish_firmware_update s))"

lemmas recovery_defs =
  recovery_enter_def recovery_move_def begin_firmware_update_def finish_firmware_update_def
  recovery_fido_operation_def recovery_user_presence_def recovery_credential_access_def
  recovery_export_secret_def

lemma recovery_reachable_state:
  "recovery_reachable s \<Longrightarrow> rs_state s \<in> {X_Recovery, X_FirmwareUpdate}"
  by (induction rule: recovery_reachable.induct)
     (auto simp: recovery_defs exec_transition_def split: result.splits if_splits)

section \<open>Properties\<close>

text \<open>Recovery isolation. In every state a recovery session reaches, by entering and any
  calls of the two firmware-update operations, FIDO, user presence, credential access and
  secret export are all answered \<open>Unauthorized\<close>, and BOOTSEL is not user presence, while
  diagnostics, update and recovery are authorised and the update can always be begun.\<close>

theorem recovery_isolated:
  assumes "recovery_reachable s"
  shows "recovery_fido_operation s = Err Unauthorized \<and>
    recovery_user_presence s = Err Unauthorized \<and>
    recovery_credential_access s = Err Unauthorized \<and>
    recovery_export_secret s = Err Unauthorized \<and>
    \<not> bootsel_allowed_as_presence (rs_state s) \<and>
    recovery_authorize s op = Ok () \<and>
    begin_firmware_update s = (Ok (), \<lparr>rs_state = X_FirmwareUpdate\<rparr>) \<and>
    finish_firmware_update s = (Ok (), \<lparr>rs_state = X_Recovery\<rparr>)"
proof -
  from recovery_reachable_state [OF assms] have "rs_state s = X_Recovery \<or> rs_state s = X_FirmwareUpdate"
    by simp
  then show ?thesis
    by (cases s; cases op)
       (auto simp: recovery_defs recovery_authorize_def operation_allowed_def exec_state_defs)
qed

theorem recovery_isolated_witness:
  "recovery_fido_operation (snd (begin_firmware_update recovery_enter)) = Err Unauthorized"
  using recovery_isolated [OF rr_begin [OF rr_enter]] by simp

end
