(* ===== verification/Apdu.thy ===== *)
theory Apdu
  imports Prelude
begin

text \<open>
  ISO 7816-4 command and response APDUs, \<open>crates/aegis-applets/src/apdu.rs\<close>: the status
  words, the command parser for the short and extended cases 1 to 4, the response
  encoder and the \<open>Chainer\<close> that splits a long response into \<open>61xx\<close> exchanges.

  Specifications. \<open>iso_frame\<close> states the ISO 7816-4 encodings as a relation between a
  frame and the command it carries; the parser is shown to decide exactly that
  relation and the one encoding that it accepts beyond it, \<open>empty_lc_frame\<close>. \<open>chain_fetch\<close> is a host that keeps asking for the rest of a response;
  whatever lengths it asks for, it gets the response once, in order and complete.
\<close>

section \<open>Status words\<close>

datatype Sw = Sw u16

abbreviation "SW_OK \<equiv> Sw 0x9000"
abbreviation "SW_WRONG_LENGTH \<equiv> Sw 0x6700"
abbreviation "SW_WRONG_DATA \<equiv> Sw 0x6A80"
abbreviation "SW_FUNCTION_NOT_SUPPORTED \<equiv> Sw 0x6A81"
abbreviation "SW_FILE_NOT_FOUND \<equiv> Sw 0x6A82"
abbreviation "SW_NOT_ENOUGH_MEMORY \<equiv> Sw 0x6A84"
abbreviation "SW_INCORRECT_PARAMETERS \<equiv> Sw 0x6A86"
abbreviation "SW_REFERENCED_DATA_NOT_FOUND \<equiv> Sw 0x6A88"
abbreviation "SW_OATH_OBJECT_NOT_FOUND \<equiv> Sw 0x6984"
abbreviation "SW_SECURITY_STATUS_NOT_SATISFIED \<equiv> Sw 0x6982"
abbreviation "SW_AUTHENTICATION_BLOCKED \<equiv> Sw 0x6983"
abbreviation "SW_CONDITIONS_NOT_SATISFIED \<equiv> Sw 0x6985"
abbreviation "SW_COMMAND_NOT_ALLOWED \<equiv> Sw 0x6986"
abbreviation "SW_INS_NOT_SUPPORTED \<equiv> Sw 0x6D00"
abbreviation "SW_CLA_NOT_SUPPORTED \<equiv> Sw 0x6E00"
abbreviation "SW_NO_PRECISE_DIAGNOSIS \<equiv> Sw 0x6F00"
abbreviation "SW_PRESENCE_REQUIRED \<equiv> Sw 0x6FF0"

primrec sw_code :: "Sw \<Rightarrow> u16" where
  "sw_code (Sw w) = w"

primrec sw_bytes :: "Sw \<Rightarrow> bytes" where
  "sw_bytes (Sw w) = [ucast (drop_bit 8 w), ucast w]"

definition sw_is_success :: "Sw \<Rightarrow> bool" where
  "sw_is_success sw \<longleftrightarrow> sw_code sw = sw_code SW_OK"

definition retries_left :: "u8 \<Rightarrow> Sw" where
  "retries_left remaining = Sw (0x63C0 OR (ucast remaining AND 0x0F))"

definition bytes_remaining :: "u8 \<Rightarrow> Sw" where
  "bytes_remaining remaining = Sw (0x6100 OR ucast remaining)"

definition is_retry_indicator :: "Sw \<Rightarrow> bool" where
  "is_retry_indicator sw \<longleftrightarrow> sw_code sw AND 0xFFF0 = 0x63C0"

definition is_bytes_remaining :: "Sw \<Rightarrow> bool" where
  "is_bytes_remaining sw \<longleftrightarrow> sw_code sw AND 0xFF00 = 0x6100"

section \<open>Command APDUs\<close>

record Apdu =
  apdu_cla :: u8
  apdu_ins :: u8
  apdu_p1 :: u8
  apdu_p2 :: u8
  apdu_data :: bytes
  apdu_le :: "u32 option"
  apdu_extended :: bool

definition normalise :: "u16 \<Rightarrow> u32 \<Rightarrow> u32" where
  "normalise v zero_means = (if v = 0 then zero_means else ucast v)"

definition apdu_new :: "bytes \<Rightarrow> bytes \<Rightarrow> u32 option \<Rightarrow> bool \<Rightarrow> Apdu" where
  "apdu_new header data l ext =
     \<lparr>apdu_cla = header ! 0, apdu_ins = header ! 1, apdu_p1 = header ! 2, apdu_p2 = header ! 3,
      apdu_data = data, apdu_le = l, apdu_extended = ext\<rparr>"

definition apdu_parse :: "bytes \<Rightarrow> (Apdu, Sw) result" where
  "apdu_parse frame =
    (if length frame < 4 then Err SW_WRONG_LENGTH
     else let header = take 4 frame; body = drop 4 frame in
       if body = [] then Ok (apdu_new header [] None False)
       else if body ! 0 = 0 \<and> length body > 1 then
         (if length body < 3 then Err SW_WRONG_LENGTH
          else let first = of_be_bytes [body ! 1, body ! 2] :: u16; rest = drop 3 body in
            if rest = [] then Ok (apdu_new header [] (Some (normalise first 65536)) True)
            else let data_len = unat first in
              if length rest = data_len then Ok (apdu_new header rest None True)
              else if length rest = data_len + 2 then
                Ok (apdu_new header (take data_len rest)
                     (Some (normalise (of_be_bytes [rest ! data_len, rest ! (data_len + 1)]) 65536))
                     True)
              else Err SW_WRONG_LENGTH)
       else let lc = unat (body ! 0); rest = drop 1 body in
         if rest = [] then Ok (apdu_new header [] (Some (normalise (ucast (body ! 0)) 256)) False)
         else if length rest = lc then Ok (apdu_new header rest None False)
         else if length rest = lc + 1 then
           Ok (apdu_new header (take lc rest) (Some (normalise (ucast (rest ! lc)) 256)) False)
         else Err SW_WRONG_LENGTH)"

definition expected_len :: "Apdu \<Rightarrow> nat" where
  "expected_len a = (case apdu_le a of Some l \<Rightarrow> unat l | None \<Rightarrow> 0)"

definition has_data :: "Apdu \<Rightarrow> bool" where
  "has_data a \<longleftrightarrow> apdu_data a \<noteq> []"

subsection \<open>The encodings of ISO 7816-4\<close>

text \<open>Short \<open>Le\<close> counts 1 to 256, extended \<open>Le\<close> 1 to 65536; zero on the wire is the
  maximum. \<open>Case4E\<close> with an empty data field is a second spelling of \<open>Case2E\<close>,
  which the parser accepts.\<close>

definition short_le :: "u8 \<Rightarrow> u32" where
  "short_le b = (if b = 0 then 256 else ucast b)"

definition ext_le :: "u8 \<Rightarrow> u8 \<Rightarrow> u32" where
  "ext_le hi lo = (if hi = 0 \<and> lo = 0 then 65536 else ucast (of_be_bytes [hi, lo] :: u16))"

inductive iso_frame :: "bytes \<Rightarrow> Apdu \<Rightarrow> bool" where
  Case1: "length h = 4 \<Longrightarrow> iso_frame h (apdu_new h [] None False)"
| Case2S: "length h = 4 \<Longrightarrow> iso_frame (h @ [l]) (apdu_new h [] (Some (short_le l)) False)"
| Case3S: "length h = 4 \<Longrightarrow> 0 < length d \<Longrightarrow> length d < 256 \<Longrightarrow>
     iso_frame (h @ [of_nat (length d)] @ d) (apdu_new h d None False)"
| Case4S: "length h = 4 \<Longrightarrow> 0 < length d \<Longrightarrow> length d < 256 \<Longrightarrow>
     iso_frame (h @ [of_nat (length d)] @ d @ [l]) (apdu_new h d (Some (short_le l)) False)"
| Case2E: "length h = 4 \<Longrightarrow> iso_frame (h @ [0, hi, lo]) (apdu_new h [] (Some (ext_le hi lo)) True)"
| Case3E: "length h = 4 \<Longrightarrow> 0 < length d \<Longrightarrow> length d < 65536 \<Longrightarrow>
     iso_frame (h @ [0] @ be_bytes 2 (of_nat (length d) :: u16) @ d) (apdu_new h d None True)"
| Case4E: "length h = 4 \<Longrightarrow> 0 < length d \<Longrightarrow> length d < 65536 \<Longrightarrow>
     iso_frame (h @ [0] @ be_bytes 2 (of_nat (length d) :: u16) @ d @ [hi, lo])
       (apdu_new h d (Some (ext_le hi lo)) True)"

text \<open>One encoding more than the standard has: an extended \<open>Lc\<close> of zero before an \<open>Le\<close>. ISO 7816-4
  reserves \<open>Lc\<close> for a data field that is there.\<close>

definition empty_lc_frame :: "bytes \<Rightarrow> Apdu \<Rightarrow> bool" where
  "empty_lc_frame f a \<longleftrightarrow>
     (\<exists>h hi lo. length h = 4 \<and> f = h @ [0, 0, 0, hi, lo] \<and> a = apdu_new h [] (Some (ext_le hi lo)) True)"

section \<open>Responses\<close>

record Response =
  resp_data :: bytes
  resp_sw :: Sw

definition response_new :: "bytes \<Rightarrow> Sw \<Rightarrow> Response" where
  "response_new data sw = \<lparr>resp_data = data, resp_sw = sw\<rparr>"

definition response_ok :: "bytes \<Rightarrow> Response" where
  "response_ok data = response_new data SW_OK"

definition response_status :: "Sw \<Rightarrow> Response" where
  "response_status sw = response_new [] sw"

definition presence_required :: Response where
  "presence_required = response_new [] SW_PRESENCE_REQUIRED"

text \<open>\<open>encode_into\<close> writes into the caller's buffer; the model returns the number of
  bytes and the buffer after the write.\<close>

definition response_encode_into :: "Response \<Rightarrow> bytes \<Rightarrow> (nat \<times> bytes) option" where
  "response_encode_into self out =
     (let n = length (resp_data self) + 2 in
      if length out < n then None
      else Some (n, copy_at (length (resp_data self)) (sw_bytes (resp_sw self))
                      (copy_at 0 (resp_data self) out)))"

section \<open>Response chaining\<close>

record Chainer =
  ch_pending :: bytes
  ch_delivered :: nat

definition chainer_new :: Chainer where
  "chainer_new = \<lparr>ch_pending = [], ch_delivered = 0\<rparr>"

definition chainer_clear :: "Chainer \<Rightarrow> Chainer" where
  "chainer_clear self = self\<lparr>ch_pending := [], ch_delivered := 0\<rparr>"

definition is_pending :: "Chainer \<Rightarrow> bool" where
  "is_pending self \<longleftrightarrow> ch_delivered self < length (ch_pending self)"

definition chain_remaining :: "Chainer \<Rightarrow> nat" where
  "chain_remaining self = length (ch_pending self) - ch_delivered self"

definition deliver :: "Chainer \<Rightarrow> nat \<Rightarrow> Response \<times> Chainer" where
  "deliver self len =
     (let remaining = chain_remaining self in
      if remaining = 0 then (response_ok [], self)
      else let len = (if len = 0 then 256 else len); start = ch_delivered self in
        if remaining \<le> len then
          let self' = self\<lparr>ch_delivered := length (ch_pending self)\<rparr>
          in (response_ok (sub_slice start (ch_delivered self') (ch_pending self')), self')
        else
          let self' = self\<lparr>ch_delivered := start + len\<rparr>
          in (response_new (sub_slice start (start + len) (ch_pending self'))
                (bytes_remaining (of_nat (min (chain_remaining self') 255))), self'))"

definition chain_begin :: "nat \<Rightarrow> Chainer \<Rightarrow> bytes \<Rightarrow> nat \<Rightarrow> Response \<times> Chainer" where
  "chain_begin N self data len =
     (let self = chainer_clear self in
      if length data > N then (response_status SW_NO_PRECISE_DIAGNOSIS, chainer_clear self)
      else deliver (self\<lparr>ch_pending := data\<rparr>) len)"

definition get_response :: "Chainer \<Rightarrow> nat \<Rightarrow> Response \<times> Chainer" where
  "get_response self len =
     (if \<not> is_pending self then (response_status SW_CONDITIONS_NOT_SATISFIED, self)
      else deliver self len)"

lemmas response_defs = response_new_def response_ok_def response_status_def presence_required_def
lemmas chainer_defs = chainer_new_def chainer_clear_def is_pending_def chain_remaining_def


lemma ucast_low_high_disjoint: "(ucast (r :: u8) :: u16) AND push_bit 8 w = 0"
  by (rule bit_word_eqI) (auto simp: bit_simps dest: bit_imp_le_length)

lemma is_bytes_remaining_bytes_remaining [simp]: "is_bytes_remaining (bytes_remaining r)"
proof -
  have "(0xFF00 :: u16) = push_bit 8 0xFF" by simp
  then have "ucast r AND (0xFF00 :: u16) = 0" by (simp only: ucast_low_high_disjoint)
  then show ?thesis
    by (simp add: is_bytes_remaining_def bytes_remaining_def bit.conj_disj_distrib2)
qed

lemma bytes_remaining_not_ok [simp]: "bytes_remaining r \<noteq> SW_OK"
  using is_bytes_remaining_bytes_remaining [of r] by (auto simp: is_bytes_remaining_def)

lemma of_be_bytes_2: "(of_be_bytes [hi, lo] :: u16) = push_bit 8 (ucast hi) OR ucast lo"
  by (simp add: of_be_bytes_def)

lemma of_be_bytes_2_eq_0 [simp]: "(of_be_bytes [hi, lo] :: u16) = 0 \<longleftrightarrow> hi = 0 \<and> lo = 0"
proof
  assume z: "(of_be_bytes [hi, lo] :: u16) = 0"
  have "be_bytes 2 (of_be_bytes [hi, lo] :: u16) = [hi, lo]" by simp
  moreover have "be_bytes 2 (0 :: u16) = [0, 0]" by (simp add: be_bytes_def le_bytes_def upt_rec)
  ultimately show "hi = 0 \<and> lo = 0" unfolding z by simp
qed (simp add: of_be_bytes_2)

lemma normalise_short: "normalise (ucast l) 256 = short_le l"
  by (simp add: normalise_def short_le_def ucast_up_eq_0_iff ucast_ucast_up)

lemma normalise_ext: "normalise (of_be_bytes [hi, lo]) 65536 = ext_le hi lo"
  by (simp add: normalise_def ext_le_def)


lemma apdu_new_take [simp]: "length h = 4 \<Longrightarrow> apdu_new (take 4 (h @ xs)) = apdu_new h"
  by simp

lemma of_nat_u8_nonzero: "0 < n \<Longrightarrow> n < 256 \<Longrightarrow> (of_nat n :: u8) \<noteq> 0"
  by (metis unat_of_nat_u8 unat_0 less_irrefl)

lemma be_bytes_2: "be_bytes 2 (w :: u16) = [ucast (drop_bit 8 w), ucast w]"
  by (simp add: be_bytes_def le_bytes_def upt_rec)

lemma be_bytes_2_cases:
  fixes w :: u16
  obtains hi lo where "be_bytes 2 w = [hi, lo]" and "of_be_bytes [hi, lo] = w"
proof (rule that [OF be_bytes_2])
  have "of_be_bytes (be_bytes 2 w) = w" by (rule of_be_bytes_be_bytes) simp
  then show "of_be_bytes [ucast (drop_bit 8 w), ucast w] = w" by (simp only: be_bytes_2)
qed

text \<open>An extended \<open>Lc\<close> with its data and an \<open>Le\<close>; the data may be empty.\<close>

lemma apdu_parse_lc_le:
  assumes "length h = 4" and "length d < 65536"
  shows "apdu_parse (h @ [0] @ be_bytes 2 (of_nat (length d) :: u16) @ d @ [hi, lo]) = Ok (apdu_new h d (Some (ext_le hi lo)) True)"
proof -
  obtain x y where xy: "be_bytes 2 (of_nat (length d) :: u16) = [x, y]"
    and "of_be_bytes [x, y] = (of_nat (length d) :: u16)"
    by (rule be_bytes_2_cases)
  with assms show ?thesis
    by (auto simp: apdu_parse_def Let_def unat_of_nat_u16 normalise_ext nth_append)
qed

lemma apdu_parse_complete: "iso_frame f a \<Longrightarrow> apdu_parse f = Ok a"
proof (induction rule: iso_frame.induct)
  case (Case1 h)
  then show ?case by (simp add: apdu_parse_def)
next
  case (Case2S h l)
  then show ?case by (simp add: apdu_parse_def normalise_short)
next
  case (Case3S h d)
  then show ?case
    by (auto simp: apdu_parse_def Let_def unat_of_nat_u8 of_nat_u8_nonzero)
next
  case (Case4S h d l)
  then show ?case
    by (auto simp: apdu_parse_def Let_def unat_of_nat_u8 of_nat_u8_nonzero normalise_short)
next
  case (Case2E h hi lo)
  then show ?case by (simp add: apdu_parse_def normalise_ext)
next
  case (Case3E h d)
  obtain x y where xy: "be_bytes 2 (of_nat (length d) :: u16) = [x, y]"
    and "of_be_bytes [x, y] = (of_nat (length d) :: u16)"
    by (rule be_bytes_2_cases)
  with Case3E show ?case by (auto simp: apdu_parse_def Let_def unat_of_nat_u16)
next
  case (Case4E h d hi lo)
  then show ?case by (intro apdu_parse_lc_le)
qed


text \<open>Conversely, an accepted frame is one of the encodings. The short and the extended
  body are taken apart separately.\<close>

lemma short_body_sound:
  assumes h: "length h = 4" and r: "rest \<noteq> []" and l: "l \<noteq> 0"
    and p: "apdu_parse (h @ l # rest) = Ok a"
  shows "iso_frame (h @ l # rest) a"
proof -
  have lc: "0 < unat l" "unat l < 256" "of_nat (unat l) = l"
    using l by (simp_all add: unat_gt_0)
  consider "length rest = unat l" "a = apdu_new h rest None False"
    | "length rest = unat l + 1" "a = apdu_new h (take (unat l) rest) (Some (short_le (rest ! unat l))) False"
    using p h r l by (auto simp: apdu_parse_def Let_def normalise_short split: if_splits)
  then show ?thesis
  proof cases
    case 1
    with lc Case3S [OF h, of rest] show ?thesis by simp
  next
    case 2
    then have "rest = take (unat l) rest @ [rest ! unat l]"
      by (simp add: take_append_last1)
    with 2 lc Case4S [OF h, of "take (unat l) rest" "rest ! unat l"] show ?thesis by simp
  qed
qed

lemma ext_body_sound:
  assumes h: "length h = 4" and r: "rest \<noteq> []"
    and p: "apdu_parse (h @ 0 # x # y # rest) = Ok a"
  shows "iso_frame (h @ 0 # x # y # rest) a \<or> empty_lc_frame (h @ 0 # x # y # rest) a"
proof -
  define n where "n = unat (of_be_bytes [x, y] :: u16)"
  have n: "n < 65536" "be_bytes 2 (of_nat n :: u16) = [x, y]"
    by (simp_all add: n_def)
  consider "length rest = n" "a = apdu_new h rest None True"
    | "length rest = n + 2"
      "a = apdu_new h (take n rest) (Some (ext_le (rest ! n) (rest ! (n + 1)))) True"
    using p h r by (auto simp: apdu_parse_def Let_def normalise_ext n_def split: if_splits)
  then show ?thesis
  proof cases
    case 1
    with r have "0 < n" by auto
    with 1 n Case3E [OF h, of rest] show ?thesis by simp
  next
    case 2
    then have rest: "rest = take n rest @ [rest ! n, rest ! (n + 1)]"
      by (simp only: take_append_last2)
    show ?thesis
    proof (cases "n = 0")
      case True
      with n(2) have "x = 0" "y = 0" by (simp_all add: be_bytes_2)
      with True 2(2) rest h show ?thesis by (auto simp: empty_lc_frame_def)
    next
      case False
      with 2 rest n Case4E [OF h, of "take n rest" "rest ! n" "rest ! (n + 1)"] show ?thesis by simp
    qed
  qed
qed

lemma apdu_parse_sound:
  assumes p: "apdu_parse f = Ok a"
  shows "iso_frame f a \<or> empty_lc_frame f a"
proof -
  have "4 \<le> length f" using p by (auto simp: apdu_parse_def split: if_splits)
  then obtain h body where f: "f = h @ body" and h: "length h = 4"
    by (metis append_take_drop_id length_take min.absorb2)
  consider "body = []" | l where "body = [l]" | l r rs where "body = l # r # rs" "l \<noteq> 0"
    | r where "body = [0, r]" | x y where "body = [0, x, y]"
    | x y r rs where "body = 0 # x # y # r # rs"
    by (metis list.exhaust)
  then show ?thesis
  proof cases
    case 1
    with p f h Case1 [OF h] show ?thesis by (simp add: apdu_parse_def)
  next
    case (2 l)
    with p f h Case2S [OF h, of l] show ?thesis by (simp add: apdu_parse_def normalise_short)
  next
    case (3 l r rs)
    with p f h short_body_sound [OF h, of "r # rs" l a] show ?thesis by simp
  next
    case (4 r)
    with p f h show ?thesis by (simp add: apdu_parse_def)
  next
    case (5 x y)
    with p f h Case2E [OF h, of x y] show ?thesis by (simp add: apdu_parse_def normalise_ext)
  next
    case (6 x y r rs)
    with p f h ext_body_sound [OF h, of "r # rs" x y a] show ?thesis by simp
  qed
qed

lemma apdu_parse_empty_lc: "empty_lc_frame f a \<Longrightarrow> apdu_parse f = Ok a"
  using apdu_parse_lc_le [where d = "[]"] by (auto simp: empty_lc_frame_def be_bytes_2)

lemma empty_lc_not_iso: "empty_lc_frame f a \<Longrightarrow> \<not> iso_frame f b"
proof
  assume "empty_lc_frame f a" and "iso_frame f b"
  then obtain h hi lo where f: "length h = 4" "f = h @ [0, 0, 0, hi, lo]" by (auto simp: empty_lc_frame_def)
  from \<open>iso_frame f b\<close> f show False
    by cases (auto simp: be_bytes_2 append_eq_append_conv of_nat_u8_nonzero Cons_eq_append_conv)
qed


section \<open>Chained delivery\<close>

definition chainer_inv :: "nat \<Rightarrow> Chainer \<Rightarrow> bool" where
  "chainer_inv N c \<longleftrightarrow> ch_delivered c \<le> length (ch_pending c) \<and> length (ch_pending c) \<le> N"

definition chain_rest :: "Chainer \<Rightarrow> bytes" where
  "chain_rest c = drop (ch_delivered c) (ch_pending c)"

lemma chainer_inv_new [simp]: "chainer_inv N chainer_new"
  by (simp add: chainer_inv_def chainer_new_def)

lemma chainer_inv_clear [simp]: "chainer_inv N (chainer_clear c)"
  by (simp add: chainer_inv_def chainer_clear_def)

lemma chain_rest_clear [simp]: "chain_rest (chainer_clear c) = []"
  by (simp add: chain_rest_def chainer_clear_def)

lemma is_pending_iff_rest: "is_pending c \<longleftrightarrow> chain_rest c \<noteq> []"
  by (simp add: is_pending_def chain_rest_def not_le)

lemma length_chain_rest: "length (chain_rest c) = chain_remaining c"
  by (simp add: chain_rest_def chain_remaining_def)

text \<open>One delivery hands out a prefix of what is left, never more than the host asked for,
  and says truthfully whether anything remains.\<close>

lemma deliver_spec:
  assumes inv: "chainer_inv N c" and d: "deliver c len = (r, c')"
  shows "chainer_inv N c'"
    and "resp_data r @ chain_rest c' = chain_rest c"
    and "length (resp_data r) \<le> (if len = 0 then 256 else len)"
    and "resp_sw r = SW_OK \<and> chain_rest c' = [] \<or>
         is_bytes_remaining (resp_sw r) \<and> chain_rest c' \<noteq> [] \<and> resp_data r \<noteq> []"
proof -
  define m where "m = (if len = 0 then 256 else len)"
  have m: "0 < m" by (simp add: m_def)
  consider "chain_remaining c = 0" | "chain_remaining c \<noteq> 0" "chain_remaining c \<le> m"
    | "m < chain_remaining c"
    by linarith
  then have "chainer_inv N c' \<and> resp_data r @ chain_rest c' = chain_rest c \<and>
    length (resp_data r) \<le> m \<and>
    (resp_sw r = SW_OK \<and> chain_rest c' = [] \<or>
     is_bytes_remaining (resp_sw r) \<and> chain_rest c' \<noteq> [] \<and> resp_data r \<noteq> [])"
  proof cases
    case 1
    with inv d show ?thesis
      by (auto simp: deliver_def response_defs chainer_inv_def chain_rest_def chain_remaining_def)
  next
    case 2
    with d have "r = response_ok (drop (ch_delivered c) (ch_pending c))"
      and "c' = c\<lparr>ch_delivered := length (ch_pending c)\<rparr>"
      by (auto simp: deliver_def m_def Let_def split: if_splits)
    with inv 2 show ?thesis
      by (auto simp: response_defs chainer_inv_def chain_rest_def chain_remaining_def)
  next
    case 3
    let ?k = "ch_delivered c"
    from 3 m d have r: "r = response_new (take m (drop ?k (ch_pending c)))
        (bytes_remaining (of_nat (min (chain_remaining c') 255)))"
      and c': "c' = c\<lparr>ch_delivered := ?k + m\<rparr>"
      by (auto simp: deliver_def m_def Let_def sub_slice_def split: if_splits)
    have "take m (drop ?k (ch_pending c)) @ drop (?k + m) (ch_pending c) = drop ?k (ch_pending c)"
      by (metis append_take_drop_id drop_drop add.commute)
    with inv 3 m r c' show ?thesis
      by (auto simp: response_defs chainer_inv_def chain_rest_def chain_remaining_def)
  qed
  then show "chainer_inv N c'" "resp_data r @ chain_rest c' = chain_rest c"
    "length (resp_data r) \<le> (if len = 0 then 256 else len)"
    "resp_sw r = SW_OK \<and> chain_rest c' = [] \<or>
     is_bytes_remaining (resp_sw r) \<and> chain_rest c' \<noteq> [] \<and> resp_data r \<noteq> []"
    by (auto simp: m_def)
qed

lemma chain_begin_fits:
  "length data \<le> N \<Longrightarrow> chain_begin N c data len = deliver \<lparr>ch_pending = data, ch_delivered = 0\<rparr> len"
  by (cases c) (simp add: chain_begin_def chainer_clear_def)

lemma chain_begin_too_long:
  "N < length data \<Longrightarrow>
     chain_begin N c data len = (response_status SW_NO_PRECISE_DIAGNOSIS, chainer_clear c)"
  by (simp add: chain_begin_def chainer_clear_def)

lemma chain_begin_inv: "chainer_inv N (snd (chain_begin N c data len))"
proof (cases "length data \<le> N")
  case True
  then have "chainer_inv N \<lparr>ch_pending = data, ch_delivered = 0\<rparr>" by (simp add: chainer_inv_def)
  from deliver_spec(1) [OF this surjective_pairing] True show ?thesis
    by (simp add: chain_begin_fits)
next
  case False
  then show ?thesis by (simp add: chain_begin_too_long)
qed

lemma get_response_inv: "chainer_inv N c \<Longrightarrow> chainer_inv N (snd (get_response c len))"
  using deliver_spec(1) [OF _ surjective_pairing] by (simp add: get_response_def)

text \<open>A host that answers every \<open>61xx\<close> with another request; \<open>les i\<close> is the length it
  asks for in its \<open>i\<close>-th request.\<close>

fun chain_fetch :: "nat \<Rightarrow> (nat \<Rightarrow> nat) \<Rightarrow> Response \<times> Chainer \<Rightarrow> bytes \<times> Sw" where
  "chain_fetch 0 les (r, c) = (resp_data r, resp_sw r)"
| "chain_fetch (Suc fuel) les (r, c) =
     (if is_bytes_remaining (resp_sw r)
      then let (d, sw) = chain_fetch fuel (\<lambda>i. les (Suc i)) (get_response c (les 0))
           in (resp_data r @ d, sw)
      else (resp_data r, resp_sw r))"

lemma is_bytes_remaining_ok [simp]: "\<not> is_bytes_remaining SW_OK"
  by (simp add: is_bytes_remaining_def)

lemma chain_fetch_deliver:
  assumes "chainer_inv N c" and "length (chain_rest c) \<le> fuel"
  shows "chain_fetch fuel les (deliver c len) = (chain_rest c, SW_OK)"
  using assms
proof (induction fuel arbitrary: c len les)
  case 0
  obtain r c' where d: "deliver c len = (r, c')" by fastforce
  from deliver_spec [OF 0(1) d] 0(2) d show ?case by auto
next
  case (Suc fuel)
  obtain r c' where d: "deliver c len = (r, c')" by fastforce
  note sp = deliver_spec [OF Suc.prems(1) d]
  show ?case
  proof (cases "chain_rest c' = []")
    case True
    with sp d show ?thesis by auto
  next
    case False
    then have "get_response c' (les 0) = deliver c' (les 0)"
      by (simp add: get_response_def is_pending_iff_rest)
    moreover have "length (chain_rest c) = length (resp_data r) + length (chain_rest c')"
      using sp(2) by (metis length_append)
    moreover have "0 < length (resp_data r)" using sp(4) False by auto
    ultimately have "length (chain_rest c') \<le> fuel" using Suc.prems(2) by linarith
    with \<open>get_response c' (les 0) = _\<close> have "chain_fetch fuel (\<lambda>i. les (Suc i)) (get_response c' (les 0)) = (chain_rest c', SW_OK)"
      using Suc sp(1) by simp
    with sp d False show ?thesis by (auto simp: Let_def)
  qed
qed


section \<open>Properties\<close>

text \<open>C32: the command parser accepts the short and extended encodings of ISO 7816-4 (cases 1
  to 4), with the header, data field and \<open>Le\<close> they denote. Beyond them it accepts one form
  that is not of the standard, an extended \<open>Lc\<close> of zero followed by \<open>Le\<close>, as a command without
  data. It answers every other frame with \<open>6700\<close>.\<close>

theorem apdu_parse_exact:
  "(apdu_parse f = Ok a \<longleftrightarrow> iso_frame f a \<or> empty_lc_frame f a) \<and>
   \<not> (iso_frame f b \<and> empty_lc_frame f c) \<and>
   ((\<exists>a. iso_frame f a \<or> empty_lc_frame f a) \<or> apdu_parse f = Err SW_WRONG_LENGTH)"
proof (intro conjI)
  show eq: "apdu_parse f = Ok a \<longleftrightarrow> iso_frame f a \<or> empty_lc_frame f a" for a
    using apdu_parse_sound apdu_parse_complete apdu_parse_empty_lc by blast
  show "\<not> (iso_frame f b \<and> empty_lc_frame f c)" using empty_lc_not_iso by blast
  have "(\<exists>a. apdu_parse f = Ok a) \<or> apdu_parse f = Err SW_WRONG_LENGTH"
    by (simp add: apdu_parse_def Let_def)
  then show "(\<exists>a. iso_frame f a \<or> empty_lc_frame f a) \<or> apdu_parse f = Err SW_WRONG_LENGTH"
    by (simp add: eq)
qed

text \<open>C33: a response that fits the card's buffer reaches the host complete, once and in
  order, and ends in \<open>9000\<close>, whatever lengths the host puts in the command and in its
  \<open>GET RESPONSE\<close> requests; as many requests as there are bytes are enough.\<close>

theorem chain_delivers_all:
  assumes "length data \<le> N" and "length data \<le> fuel"
  shows "chain_fetch fuel les (chain_begin N c data len) = (data, SW_OK)"
proof -
  let ?c = "\<lparr>ch_pending = data, ch_delivered = 0\<rparr>"
  have "chainer_inv N ?c" and "chain_rest ?c = data"
    using assms by (simp_all add: chainer_inv_def chain_rest_def)
  with chain_fetch_deliver [of N ?c fuel les len] assms show ?thesis
    by (simp add: chain_begin_fits)
qed

theorem chain_delivers_all_witness:
  "chain_fetch 5 (\<lambda>i. 1) (chain_begin 2048 chainer_new [1, 2, 3, 4, 5] 2) = ([1, 2, 3, 4, 5], SW_OK)"
  by (rule chain_delivers_all) simp_all

end
