(* ===== verification/Retry_Guard.thy ===== *)
theory Retry_Guard
  imports Main
begin

text \<open>
  The contract of a retry counter that guards a secret: both the PIN slots of the smart
  card applets and the FIDO \<open>clientPIN\<close> handler keep one. An attempt reaches the
  comparison with the secret or is turned down before it; a tested wrong guess costs
  exactly one try, an untested one costs nothing, and with no try left nothing is
  granted or tested. From this contract alone the guessing budget follows.
\<close>

text \<open>A guesser's run against such a guard: the state it leaves, the guesses that were
  compared with the secret, and whether any of them was granted.\<close>

primrec guess_run :: "('s \<Rightarrow> 'g \<Rightarrow> bool \<times> 's) \<Rightarrow> 'g list \<Rightarrow> 's \<Rightarrow> 's" where
  "guess_run att [] s = s"
| "guess_run att (g # gs) s = guess_run att gs (snd (att s g))"

primrec tests_made ::
  "('s \<Rightarrow> 'g \<Rightarrow> bool \<times> 's) \<Rightarrow> ('s \<Rightarrow> 'g \<Rightarrow> bool) \<Rightarrow> 'g list \<Rightarrow> 's \<Rightarrow> nat" where
  "tests_made att tst [] s = 0"
| "tests_made att tst (g # gs) s =
     (if tst s g then 1 else 0) + tests_made att tst gs (snd (att s g))"

primrec any_granted :: "('s \<Rightarrow> 'g \<Rightarrow> bool \<times> 's) \<Rightarrow> 'g list \<Rightarrow> 's \<Rightarrow> bool" where
  "any_granted att [] s = False"
| "any_granted att (g # gs) s = (fst (att s g) \<or> any_granted att gs (snd (att s g)))"

primrec never_right :: "('s \<Rightarrow> 'g \<Rightarrow> bool \<times> 's) \<Rightarrow> ('s \<Rightarrow> 'g \<Rightarrow> bool) \<Rightarrow> 'g list \<Rightarrow> 's \<Rightarrow> bool" where
  "never_right att right [] s = True"
| "never_right att right (g # gs) s = (\<not> right s g \<and> never_right att right gs (snd (att s g)))"

locale retry_guard =
  fixes attempt :: "'s \<Rightarrow> 'g \<Rightarrow> bool \<times> 's"
    and remaining :: "'s \<Rightarrow> nat"
    and tested :: "'s \<Rightarrow> 'g \<Rightarrow> bool"
    and right :: "'s \<Rightarrow> 'g \<Rightarrow> bool"
    and invar :: "'s \<Rightarrow> bool"
  assumes blocked: "invar s \<Longrightarrow> remaining s = 0 \<Longrightarrow>
      \<not> fst (attempt s g) \<and> \<not> tested s g \<and> invar (snd (attempt s g)) \<and> remaining (snd (attempt s g)) = 0"
    and wrong_refused: "invar s \<Longrightarrow> \<not> right s g \<Longrightarrow> \<not> fst (attempt s g)"
    and wrong_keeps: "invar s \<Longrightarrow> \<not> right s g \<Longrightarrow> invar (snd (attempt s g))"
    and wrong_costs: "invar s \<Longrightarrow> \<not> right s g \<Longrightarrow>
      remaining s = remaining (snd (attempt s g)) + (if tested s g then 1 else 0)"
begin

lemma guess_run_wrong:
  assumes "invar s" and "never_right attempt right gs s"
  shows "invar (guess_run attempt gs s) \<and>
         remaining s = remaining (guess_run attempt gs s) + tests_made attempt tested gs s \<and> \<not> any_granted attempt gs s"
  using assms
proof (induction gs arbitrary: s)
  case Nil
  then show ?case by simp
next
  case (Cons g gs)
  let ?s = "snd (attempt s g)"
  from Cons.prems have g: "\<not> right s g" and gs: "never_right attempt right gs ?s" by simp_all
  note step = wrong_keeps [OF Cons.prems(1) g] wrong_costs [OF Cons.prems(1) g]
    wrong_refused [OF Cons.prems(1) g]
  from Cons.IH [OF step(1) gs] step show ?case by simp
qed

lemma blocked_keeps:
  assumes "invar s" and "remaining s = 0"
  shows "invar (guess_run attempt gs s) \<and> remaining (guess_run attempt gs s) = 0"
  using assms
proof (induction gs arbitrary: s)
  case (Cons g gs)
  from blocked [OF Cons.prems] Cons.IH show ?case by simp
qed simp

lemma blocked_stays:
  assumes "invar s" and "remaining s = 0"
  shows "remaining (guess_run attempt gs s) = 0 \<and> tests_made attempt tested gs s = 0 \<and> \<not> any_granted attempt gs s"
  using assms
proof (induction gs arbitrary: s)
  case (Cons g gs)
  from blocked [OF Cons.prems] Cons.IH show ?case by simp
qed simp

end

text \<open>A guard whose secret no guess changes.\<close>

locale stable_guard = retry_guard +
  assumes right_kept: "invar s \<Longrightarrow> \<not> right s g \<Longrightarrow> right (snd (attempt s g)) = right s"
begin

lemma never_right_stable:
  assumes "invar s" and "\<forall>g \<in> set gs. \<not> right s g"
  shows "never_right attempt right gs s"
  using assms by (induction gs arbitrary: s) (simp_all add: wrong_keeps right_kept)

end

end
