(* ===== verification/Pin_Slot.thy ===== *)
theory Pin_Slot
  imports Apdu Retry_Guard
begin

text \<open>
  The PIN slots of the applets, \<open>crates/aegis-applets/src/pin.rs\<close>: a PIN kept only as a
  hash, a fail-closed retry counter, the split of a \<open>current || new\<close> change body, and the
  fixed-size encoding that is sealed to flash. The digest of the \<open>sha2\<close> crate is the
  parameter \<open>sha\<close>.
\<close>

datatype PinHashFormat = Sha256

fun pin_format_code :: "PinHashFormat \<Rightarrow> u8" where
  "pin_format_code Sha256 = 1"

definition pin_format_from_code :: "u8 \<Rightarrow> PinHashFormat option" where
  "pin_format_from_code code = (if code = 1 then Some Sha256 else None)"

record PinPolicy =
  min_len :: nat
  max_len :: nat
  max_attempts :: u8
  pin_format :: PinHashFormat

definition constant_time_eq :: "bytes \<Rightarrow> bytes \<Rightarrow> bool" where
  "constant_time_eq a b \<longleftrightarrow> (if length a \<noteq> length b then False else xor_fold a b = 0)"

definition pin_hash_of :: "(bytes \<Rightarrow> bytes) \<Rightarrow> bytes \<Rightarrow> PinHashFormat \<Rightarrow> bytes" where
  "pin_hash_of sha pin fmt = (case fmt of Sha256 \<Rightarrow> sha pin)"

definition pin_hash_verify :: "(bytes \<Rightarrow> bytes) \<Rightarrow> bytes \<Rightarrow> bytes \<Rightarrow> PinHashFormat \<Rightarrow> bool" where
  "pin_hash_verify sha h pin fmt = constant_time_eq h (pin_hash_of sha pin fmt)"

record PinSlot =
  slot_policy :: PinPolicy
  slot_hash :: "bytes option"
  slot_retries :: u8

definition pin_slot_new :: "PinPolicy \<Rightarrow> PinSlot" where
  "pin_slot_new policy =
     \<lparr>slot_policy = policy, slot_hash = None, slot_retries = max_attempts policy\<rparr>"

definition pin_is_set :: "PinSlot \<Rightarrow> bool" where
  "pin_is_set self \<longleftrightarrow> slot_hash self \<noteq> None"

definition pin_is_blocked :: "PinSlot \<Rightarrow> bool" where
  "pin_is_blocked self \<longleftrightarrow> pin_is_set self \<and> slot_retries self = 0"

definition pin_check_length :: "PinSlot \<Rightarrow> bytes \<Rightarrow> (unit, Sw) result" where
  "pin_check_length self pin =
     (if length pin < min_len (slot_policy self) \<or> length pin > max_len (slot_policy self)
      then Err SW_WRONG_LENGTH else Ok ())"

definition pin_set :: "(bytes \<Rightarrow> bytes) \<Rightarrow> PinSlot \<Rightarrow> bytes \<Rightarrow> (unit, Sw) result \<times> PinSlot" where
  "pin_set sha self pin =
     (case pin_check_length self pin of
        Err e \<Rightarrow> (Err e, self)
      | Ok _ \<Rightarrow>
          (Ok (), self\<lparr>slot_hash := Some (pin_hash_of sha pin (pin_format (slot_policy self))),
                       slot_retries := max_attempts (slot_policy self)\<rparr>))"

definition pin_verify :: "(bytes \<Rightarrow> bytes) \<Rightarrow> PinSlot \<Rightarrow> bytes \<Rightarrow> (unit, Sw) result \<times> PinSlot" where
  "pin_verify sha self pin =
     (case slot_hash self of
        None \<Rightarrow> (Err SW_CONDITIONS_NOT_SATISFIED, self)
      | Some h \<Rightarrow>
          if slot_retries self = 0 then (Err SW_AUTHENTICATION_BLOCKED, self)
          else if pin_hash_verify sha h pin (pin_format (slot_policy self)) then (Ok (), self)
          else let r = slot_retries self - 1
               in (Err (retries_left r), self\<lparr>slot_retries := r\<rparr>))"

definition pin_change ::
  "(bytes \<Rightarrow> bytes) \<Rightarrow> PinSlot \<Rightarrow> bytes \<Rightarrow> bytes \<Rightarrow> (unit, Sw) result \<times> PinSlot" where
  "pin_change sha self current new =
     (case pin_verify sha self current of
        (Err e, self') \<Rightarrow> (Err e, self')
      | (Ok _, self') \<Rightarrow> pin_set sha self' new)"

definition pin_unblock :: "(bytes \<Rightarrow> bytes) \<Rightarrow> PinSlot \<Rightarrow> bytes \<Rightarrow> (unit, Sw) result \<times> PinSlot" where
  "pin_unblock sha self new = pin_set sha self new"

text \<open>\<open>resolve_change\<close> computes \<open>body.len() - min_len\<close> and slices \<open>body[..split]\<close>: on a body
  shorter than \<open>min_len\<close> the source underflows and panics, which is \<open>None\<close> here. Its
  documented precondition (\<open>2 * min_len <= body.len()\<close>) excludes that.\<close>

definition split_scan :: "(bytes \<Rightarrow> bytes) \<Rightarrow> PinSlot \<Rightarrow> bytes \<Rightarrow> bytes \<Rightarrow> nat list \<Rightarrow> nat option" where
  "split_scan sha self h body splits =
     fold (\<lambda>split matched.
         if pin_hash_verify sha h (take split body) (pin_format (slot_policy self))
         then (case matched of None \<Rightarrow> Some split | Some k \<Rightarrow> Some k) else matched)
       splits None"

definition pin_resolve_change ::
  "(bytes \<Rightarrow> bytes) \<Rightarrow> PinSlot \<Rightarrow> bytes \<Rightarrow> ((nat option, Sw) result \<times> PinSlot) option" where
  "pin_resolve_change sha self body =
     (case slot_hash self of
        None \<Rightarrow> Some (Err SW_CONDITIONS_NOT_SATISFIED, self)
      | Some h \<Rightarrow>
          if slot_retries self = 0 then Some (Err SW_AUTHENTICATION_BLOCKED, self)
          else if length body < min_len (slot_policy self) then None
          else
            let low = max (min_len (slot_policy self)) (length body - max_len (slot_policy self));
                high = min (max_len (slot_policy self)) (length body - min_len (slot_policy self))
            in (case split_scan sha self h body [low..<Suc high] of
                  Some k \<Rightarrow> Some (Ok (Some k), self)
                | None \<Rightarrow> Some (Ok None, self\<lparr>slot_retries := slot_retries self - 1\<rparr>)))"

subsection \<open>The sealed encoding\<close>

definition pin_encode :: "PinSlot \<Rightarrow> bytes \<Rightarrow> (nat \<times> bytes, Sw) result" where
  "pin_encode self out =
     (if length out < 36 then Err SW_NO_PRECISE_DIAGNOSIS
      else let out = out[0 := 1, 1 := pin_format_code (pin_format (slot_policy self)),
                         2 := slot_retries self, 3 := (if slot_hash self \<noteq> None then 1 else 0)];
               h = (case slot_hash self of Some h \<Rightarrow> h | None \<Rightarrow> replicate 32 0)
           in Ok (36, copy_at 4 h out))"

definition pin_decode :: "PinPolicy \<Rightarrow> bytes \<Rightarrow> (PinSlot, Sw) result" where
  "pin_decode policy buf =
     (if length buf \<noteq> 36 then Err SW_NO_PRECISE_DIAGNOSIS
      else if buf ! 0 \<noteq> 1 then Err SW_NO_PRECISE_DIAGNOSIS
      else if pin_format_from_code (buf ! 1) \<noteq> Some (pin_format policy)
        then Err SW_NO_PRECISE_DIAGNOSIS
      else if buf ! 2 > max_attempts policy then Err SW_NO_PRECISE_DIAGNOSIS
      else Ok \<lparr>slot_policy = policy,
               slot_hash = (if buf ! 3 AND 1 \<noteq> 0 then Some (drop 4 buf) else None),
               slot_retries = buf ! 2\<rparr>)"

lemmas pin_defs =
  pin_set_def pin_check_length_def pin_verify_def pin_change_def pin_unblock_def
  pin_hash_verify_def pin_hash_of_def


section \<open>Invariant\<close>

definition pin_slot_inv :: "PinSlot \<Rightarrow> bool" where
  "pin_slot_inv s \<longleftrightarrow> slot_retries s \<le> max_attempts (slot_policy s) \<and>
     (\<forall>h. slot_hash s = Some h \<longrightarrow> length h = 32)"

lemma constant_time_eq_iff [simp]: "constant_time_eq a b \<longleftrightarrow> a = b"
  by (auto simp: constant_time_eq_def xor_fold_eq_0_iff)

lemma pin_hash_of_eq [simp]: "pin_hash_of sha pin fmt = sha pin"
  by (cases fmt) (simp add: pin_hash_of_def)

lemma pin_hash_verify_iff [simp]: "pin_hash_verify sha h pin fmt \<longleftrightarrow> h = sha pin"
  by (simp add: pin_hash_verify_def)

lemma pred_le_bound: "(r :: u8) \<le> m \<Longrightarrow> r \<noteq> 0 \<Longrightarrow> r - 1 \<le> m"
  by (simp add: word_le_nat_alt unat_minus_one)

lemma pin_slot_inv_new: "pin_slot_inv (pin_slot_new policy)"
  by (simp add: pin_slot_inv_def pin_slot_new_def)

lemma pin_set_inv:
  "(\<And>x. length (sha x) = 32) \<Longrightarrow> pin_slot_inv s \<Longrightarrow> pin_slot_inv (snd (pin_set sha s pin))"
  by (auto simp: pin_slot_inv_def pin_defs split: result.splits)

lemma pin_verify_inv: "pin_slot_inv s \<Longrightarrow> pin_slot_inv (snd (pin_verify sha s pin))"
  by (auto simp: pin_slot_inv_def pin_verify_def Let_def pred_le_bound split: option.splits)

lemma pin_change_inv:
  assumes "\<And>x. length (sha x) = 32" and "pin_slot_inv s"
  shows "pin_slot_inv (snd (pin_change sha s cur new))"
  using pin_verify_inv [OF assms(2), of sha cur] pin_set_inv [of sha, OF assms(1)]
  by (auto simp: pin_change_def split: prod.splits result.splits)

lemma pin_resolve_change_inv:
  "pin_slot_inv s \<Longrightarrow> pin_resolve_change sha s body = Some (r, s') \<Longrightarrow> pin_slot_inv s'"
  by (auto simp: pin_slot_inv_def pin_resolve_change_def Let_def pred_le_bound
      split: option.splits if_splits)

section \<open>The retry counter\<close>

text \<open>\<open>pin_verify\<close> as a guarded secret: a guess is right when its digest is the stored one,
  and it is compared with the digest whenever a PIN is set and a try is left.\<close>

definition pin_attempt :: "(bytes \<Rightarrow> bytes) \<Rightarrow> PinSlot \<Rightarrow> bytes \<Rightarrow> bool \<times> PinSlot" where
  "pin_attempt sha s pin = (case pin_verify sha s pin of (r, s') \<Rightarrow> (is_ok r, s'))"

definition pin_tested :: "PinSlot \<Rightarrow> bytes \<Rightarrow> bool" where
  "pin_tested s pin \<longleftrightarrow> pin_is_set s \<and> slot_retries s \<noteq> 0"

definition pin_right :: "(bytes \<Rightarrow> bytes) \<Rightarrow> PinSlot \<Rightarrow> bytes \<Rightarrow> bool" where
  "pin_right sha s pin \<longleftrightarrow> slot_hash s = Some (sha pin)"

lemmas pin_guard_defs = pin_attempt_def pin_tested_def pin_right_def pin_is_set_def

interpretation pin_guard: stable_guard "pin_attempt sha" "\<lambda>s. unat (slot_retries s)" pin_tested
  "pin_right sha" "\<lambda>s. True" for sha
proof (unfold_locales, goal_cases)
  case (1 s g)
  then show ?case
    by (auto simp: pin_guard_defs pin_verify_def unat_eq_0 split: option.splits)
next
  case (2 s g)
  then show ?case by (auto simp: pin_guard_defs pin_verify_def Let_def split: option.splits)
next
  case (4 s g)
  then show ?case
    by (auto simp: pin_guard_defs pin_verify_def Let_def unat_minus_one unat_gt_0
        split: option.splits)
next
  case (5 s g)
  then show ?case
    by (auto simp: pin_guard_defs pin_verify_def Let_def fun_eq_iff split: option.splits)
qed simp


text \<open>On a provisioned slot every wrong guess is tested until none is left.\<close>

lemma pin_wrong_run_retries:
  assumes "slot_hash s = Some h" and "\<forall>g \<in> set gs. h \<noteq> sha g"
  shows "unat (slot_retries (guess_run (pin_attempt sha) gs s)) = unat (slot_retries s) - length gs
     \<and> slot_hash (guess_run (pin_attempt sha) gs s) = Some h"
  using assms
proof (induction gs arbitrary: s)
  case Nil
  then show ?case by simp
next
  case (Cons g gs)
  let ?s = "snd (pin_attempt sha s g)"
  have "slot_hash ?s = Some h" "unat (slot_retries ?s) = unat (slot_retries s) - 1"
    using Cons.prems by (auto simp: pin_guard_defs pin_verify_def Let_def unat_minus_one)
  with Cons.IH [of ?s] Cons.prems show ?case by simp
qed

section \<open>Splitting a change body\<close>

lemma split_scan_find:
  "split_scan sha s h body splits = find (\<lambda>k. h = sha (take k body)) splits"
proof -
  have "fold (\<lambda>split matched. if h = sha (take split body)
          then (case matched of None \<Rightarrow> Some split | Some k \<Rightarrow> Some k) else matched) splits m
        = (case m of Some k \<Rightarrow> Some k | None \<Rightarrow> find (\<lambda>k. h = sha (take k body)) splits)" for m
    by (induction splits arbitrary: m) (auto split: option.splits)
  from this [of None] show ?thesis by (simp add: split_scan_def)
qed

lemma find_upt_Some:
  "find P [lo..<hi] = Some k \<longleftrightarrow> lo \<le> k \<and> k < hi \<and> P k \<and> (\<forall>j. lo \<le> j \<and> j < k \<longrightarrow> \<not> P j)"
proof
  assume "find P [lo..<hi] = Some k"
  then obtain i where i: "i < length [lo..<hi]" "P ([lo..<hi] ! i)" "k = [lo..<hi] ! i"
    "\<forall>j < i. \<not> P ([lo..<hi] ! j)"
    by (auto simp: find_Some_iff)
  then have "\<not> P j" if "lo \<le> j" "j < k" for j
    using that i(4) [rule_format, of "j - lo"] by simp
  with i show "lo \<le> k \<and> k < hi \<and> P k \<and> (\<forall>j. lo \<le> j \<and> j < k \<longrightarrow> \<not> P j)" by simp
next
  assume k: "lo \<le> k \<and> k < hi \<and> P k \<and> (\<forall>j. lo \<le> j \<and> j < k \<longrightarrow> \<not> P j)"
  then show "find P [lo..<hi] = Some k"
    by (auto simp: find_Some_iff intro!: exI [of _ "k - lo"])
qed

lemma find_upt_None: "find P [lo..<hi] = None \<longleftrightarrow> (\<forall>j. lo \<le> j \<and> j < hi \<longrightarrow> \<not> P j)"
  by (auto simp: find_None_iff)

definition split_window :: "PinPolicy \<Rightarrow> nat \<Rightarrow> nat \<Rightarrow> bool" where
  "split_window p n k \<longleftrightarrow> min_len p \<le> k \<and> k \<le> max_len p \<and> k \<le> n \<and>
     min_len p \<le> n - k \<and> n - k \<le> max_len p"

lemma split_window_iff:
  assumes "min_len p \<le> n"
  shows "split_window p n k \<longleftrightarrow>
     max (min_len p) (n - max_len p) \<le> k \<and> k < Suc (min (max_len p) (n - min_len p))"
  using assms by (auto simp: split_window_def)

lemma pin_change_of_resolved:
  assumes "slot_hash s = Some (sha (take k body))" and "slot_retries s \<noteq> 0"
    and "split_window (slot_policy s) (length body) k"
  shows "pin_change sha s (take k body) (drop k body) =
     (Ok (), s\<lparr>slot_hash := Some (sha (drop k body)),
               slot_retries := max_attempts (slot_policy s)\<rparr>)"
  using assms by (auto simp: pin_defs split_window_def)

section \<open>Properties\<close>

text \<open>C4: the guessing budget of a PIN slot. However many wrong PINs are presented, none is
  accepted, each one tested against the digest costs a try, and once the tries are spent
  every further VERIFY, the right PIN included, is answered \<open>6983\<close> and changes nothing.\<close>

theorem pin_guess_budget:
  assumes set: "slot_hash s = Some h" and wrong: "\<forall>g \<in> set gs. h \<noteq> sha g"
    and spent: "unat (slot_retries s) \<le> length gs"
  shows "\<not> any_granted (pin_attempt sha) gs s \<and>
    tests_made (pin_attempt sha) pin_tested gs s = unat (slot_retries s) \<and>
    pin_verify sha (guess_run (pin_attempt sha) gs s) pin =
      (Err SW_AUTHENTICATION_BLOCKED, guess_run (pin_attempt sha) gs s)"
proof -
  have "\<forall>g \<in> set gs. \<not> pin_right sha s g" using assms by (simp add: pin_right_def)
  with pin_guard.guess_run_wrong [where s = s and gs = gs and sha = sha]
    pin_guard.never_right_stable [where s = s and gs = gs and sha = sha]
  have guard: "\<not> any_granted (pin_attempt sha) gs s"
    "unat (slot_retries s) = unat (slot_retries (guess_run (pin_attempt sha) gs s)) +
       tests_made (pin_attempt sha) pin_tested gs s"
    by simp_all
  note run = pin_wrong_run_retries [OF set wrong]
  with spent have zero: "slot_retries (guess_run (pin_attempt sha) gs s) = 0"
    by (simp add: unat_eq_0)
  with run have "pin_verify sha (guess_run (pin_attempt sha) gs s) pin =
      (Err SW_AUTHENTICATION_BLOCKED, guess_run (pin_attempt sha) gs s)"
    by (simp add: pin_verify_def)
  with guard zero show ?thesis by simp
qed

definition demo_policy :: PinPolicy where
  "demo_policy = \<lparr>min_len = 4, max_len = 8, max_attempts = 3, pin_format = Sha256\<rparr>"

definition demo_digest :: "bytes \<Rightarrow> bytes" where
  "demo_digest x = take 32 (x @ replicate 32 0)"

definition demo_slot :: PinSlot where
  "demo_slot = \<lparr>slot_policy = demo_policy, slot_hash = Some (demo_digest [1, 2, 3, 4]),
                slot_retries = 3\<rparr>"

theorem pin_guess_budget_witness:
  "pin_verify demo_digest
     (guess_run (pin_attempt demo_digest) [[1], [2], [3]] demo_slot) [1, 2, 3, 4] =
   (Err SW_AUTHENTICATION_BLOCKED,
    guess_run (pin_attempt demo_digest) [[1], [2], [3]] demo_slot)"
proof -
  have "slot_hash demo_slot = Some (demo_digest [1, 2, 3, 4])" by (simp add: demo_slot_def)
  moreover have "\<forall>g \<in> set [[1], [2], [3]]. demo_digest [1, 2, 3, 4] \<noteq> demo_digest g"
    by (simp add: demo_digest_def numeral_eq_Suc)
  moreover have "unat (slot_retries demo_slot) \<le> length [[1 :: u8], [2], [3]]"
    by (simp add: demo_slot_def)
  ultimately show ?thesis by (rule pin_guess_budget [THEN conjunct2, THEN conjunct2])
qed

text \<open>C39: delimiting a \<open>current || new\<close> change body. Within the documented length window the
  scan never panics; it costs no try when some split verifies, and then reports the
  shortest admissible one, with which CHANGE installs the rest of the body as the new
  PIN and restores the tries; when no admissible split verifies it costs exactly one
  try and nothing else changes.\<close>

theorem pin_resolve_change_correct:
  assumes set: "slot_hash s = Some h" and left: "slot_retries s \<noteq> 0"
    and window: "2 * min_len (slot_policy s) \<le> length body"
  shows "(\<exists>k. split_window (slot_policy s) (length body) k \<and> h = sha (take k body) \<and>
            (\<forall>j < k. split_window (slot_policy s) (length body) j \<longrightarrow> h \<noteq> sha (take j body)) \<and>
            pin_resolve_change sha s body = Some (Ok (Some k), s) \<and>
            pin_change sha s (take k body) (drop k body) =
              (Ok (), s\<lparr>slot_hash := Some (sha (drop k body)),
                        slot_retries := max_attempts (slot_policy s)\<rparr>)) \<or>
         ((\<forall>k. split_window (slot_policy s) (length body) k \<longrightarrow> h \<noteq> sha (take k body)) \<and>
          pin_resolve_change sha s body =
            Some (Ok None, s\<lparr>slot_retries := slot_retries s - 1\<rparr>))"
proof -
  let ?p = "slot_policy s" and ?n = "length body"
  let ?low = "max (min_len ?p) (?n - max_len ?p)"
  let ?high = "min (max_len ?p) (?n - min_len ?p)"
  have n: "min_len ?p \<le> ?n" using window by simp
  note w = split_window_iff [OF n]
  have res: "pin_resolve_change sha s body =
     (case find (\<lambda>k. h = sha (take k body)) [?low..<Suc ?high] of
        Some k \<Rightarrow> Some (Ok (Some k), s)
      | None \<Rightarrow> Some (Ok None, s\<lparr>slot_retries := slot_retries s - 1\<rparr>))"
    using set left n by (simp add: pin_resolve_change_def split_scan_find Let_def)
  show ?thesis
  proof (cases "find (\<lambda>k. h = sha (take k body)) [?low..<Suc ?high]")
    case None
    then have "\<forall>k. split_window ?p ?n k \<longrightarrow> h \<noteq> sha (take k body)"
      unfolding find_upt_None w by blast
    with res None show ?thesis by simp
  next
    case (Some k)
    then have k: "split_window ?p ?n k" "h = sha (take k body)"
      and first: "\<forall>j. ?low \<le> j \<and> j < k \<longrightarrow> h \<noteq> sha (take j body)"
      unfolding find_upt_Some w by blast+
    from first have "\<forall>j < k. split_window ?p ?n j \<longrightarrow> h \<noteq> sha (take j body)"
      unfolding w by blast
    moreover have "pin_change sha s (take k body) (drop k body) =
        (Ok (), s\<lparr>slot_hash := Some (sha (drop k body)), slot_retries := max_attempts ?p\<rparr>)"
      using set left k by (intro pin_change_of_resolved) simp_all
    ultimately show ?thesis using res Some k by auto
  qed
qed

theorem pin_resolve_change_correct_witness:
  "pin_resolve_change demo_digest demo_slot [1, 2, 3, 4, 9, 9, 9, 9, 9] =
     Some (Ok (Some 4), demo_slot) \<and>
   pin_change demo_digest demo_slot [1, 2, 3, 4] [9, 9, 9, 9, 9] =
     (Ok (), demo_slot\<lparr>slot_hash := Some (demo_digest [9, 9, 9, 9, 9]), slot_retries := 3\<rparr>)"
proof -
  let ?b = "[1, 2, 3, 4, 9, 9, 9, 9, 9] :: bytes"
  have "slot_hash demo_slot = Some (demo_digest [1, 2, 3, 4])" "slot_retries demo_slot \<noteq> 0"
    "2 * min_len (slot_policy demo_slot) \<le> length ?b"
    by (simp_all add: demo_slot_def demo_policy_def)
  note r = pin_resolve_change_correct [OF this, of demo_digest]
  have w: "split_window (slot_policy demo_slot) (length ?b) k \<longleftrightarrow> k = 4 \<or> k = 5" for k
    by (auto simp: split_window_def demo_slot_def demo_policy_def)
  have "demo_digest [1, 2, 3, 4] ! 4 \<noteq> demo_digest (take 5 ?b) ! 4"
    by (simp add: demo_digest_def)
  then have "demo_digest [1, 2, 3, 4] \<noteq> demo_digest (take 5 ?b)" by (rule contrapos_nn) (rule arg_cong)
  then have m: "k \<noteq> 5" if "demo_digest [1, 2, 3, 4] = demo_digest (take k ?b)" for k
    using that by blast
  have four: "take 4 ?b = [1, 2, 3, 4]" "drop 4 ?b = [9, 9, 9, 9, 9]" by simp_all
  have att: "max_attempts (slot_policy demo_slot) = 3"
    by (simp add: demo_slot_def demo_policy_def)
  have "\<not> (\<forall>k. split_window (slot_policy demo_slot) (length ?b) k \<longrightarrow>
      demo_digest [1, 2, 3, 4] \<noteq> demo_digest (take k ?b))"
    unfolding w by (intro notI, drule spec [of _ 4]) (simp only: four, simp)
  with r obtain k where k: "split_window (slot_policy demo_slot) (length ?b) k"
    "demo_digest [1, 2, 3, 4] = demo_digest (take k ?b)"
    "pin_resolve_change demo_digest demo_slot ?b = Some (Ok (Some k), demo_slot)"
    "pin_change demo_digest demo_slot (take k ?b) (drop k ?b) =
      (Ok (), demo_slot\<lparr>slot_hash := Some (demo_digest (drop k ?b)),
              slot_retries := max_attempts (slot_policy demo_slot)\<rparr>)"
    by (elim disjE exE conjE) (assumption | (erule (1) notE))+
  then have "k = 4" using m [OF k(2)] unfolding w by blast
  with k(3,4) show ?thesis by (simp only: four att simp_thms)
qed

text \<open>The sealed form of a PIN slot round-trips: a well-formed slot encoded into a buffer
  of at least 36 bytes decodes, under its own policy, to the same slot; and whatever a
  decode accepts satisfies the slot invariant, so a forged record cannot raise the
  counter over the policy.\<close>

theorem pin_state_roundtrip:
  "(pin_slot_inv s \<longrightarrow> 36 \<le> length out \<longrightarrow>
      (\<exists>buf. pin_encode s out = Ok (36, buf) \<and> length buf = length out \<and>
             drop 36 buf = drop 36 out \<and> pin_decode (slot_policy s) (take 36 buf) = Ok s)) \<and>
   (\<forall>s'. pin_decode policy record = Ok s' \<longrightarrow> pin_slot_inv s' \<and> slot_policy s' = policy)"
proof (intro conjI impI allI)
  assume inv: "pin_slot_inv s" and out: "36 \<le> length out"
  define h where "h = (case slot_hash s of Some h \<Rightarrow> h | None \<Rightarrow> replicate 32 0)"
  have h: "length h = 32" using inv by (auto simp: h_def pin_slot_inv_def split: option.splits)
  define hd4 where "hd4 = [1, pin_format_code (pin_format (slot_policy s)), slot_retries s,
      if slot_hash s \<noteq> None then 1 else 0]"
  have "4 \<le> length out" using out by simp
  then obtain a b c d rest where o4: "out = a # b # c # d # rest"
    by (auto simp: numeral_eq_Suc Suc_le_length_iff)
  have buf: "pin_encode s out = Ok (36, hd4 @ h @ drop 32 rest)"
    using out h by (simp add: pin_encode_def o4 hd4_def h_def copy_at_def Let_def numeral_eq_Suc)
  have "pin_format_from_code (pin_format_code (pin_format (slot_policy s))) =
      Some (pin_format (slot_policy s))"
    by (cases "pin_format (slot_policy s)") (simp add: pin_format_from_code_def)
  then have "pin_decode (slot_policy s) (hd4 @ h) = Ok s"
    using inv h by (cases "slot_hash s")
      (auto simp: pin_decode_def hd4_def pin_slot_inv_def h_def)
  with buf h out o4 show "\<exists>buf. pin_encode s out = Ok (36, buf) \<and> length buf = length out \<and>
      drop 36 buf = drop 36 out \<and> pin_decode (slot_policy s) (take 36 buf) = Ok s"
    by (simp add: hd4_def)
next
  fix s'
  assume "pin_decode policy record = Ok s'"
  then show "pin_slot_inv s'" and "slot_policy s' = policy"
    by (auto simp: pin_decode_def pin_slot_inv_def not_less split: if_splits)
qed

theorem pin_state_roundtrip_witness:
  "\<exists>buf. pin_encode demo_slot (replicate 40 0) = Ok (36, buf) \<and>
     pin_decode demo_policy (take 36 buf) = Ok demo_slot"
proof -
  have "pin_slot_inv demo_slot"
    by (simp add: pin_slot_inv_def demo_slot_def demo_policy_def demo_digest_def)
  moreover have "36 \<le> length (replicate 40 (0 :: u8))" by simp
  moreover have "slot_policy demo_slot = demo_policy" by (simp add: demo_slot_def)
  ultimately show ?thesis
    using pin_state_roundtrip [of demo_slot "replicate 40 0" demo_policy "[]"] by metis
qed

end
