(* ===== verification/Tlv.thy ===== *)
theory Tlv
  imports Prelude
begin

unbundle bit_operations_syntax

text \<open>
  The BER-TLV reader and writer of \<open>crates/aegis-applets/src/tlv.rs\<close>. The reader's state
  is the unread rest of the field; a writer returns its result and the buffer it leaves,
  on a failure too. A length is a \<open>usize\<close>; three length bytes stay below \<open>2 ^ 24\<close>, so
  \<open>(length << 8) | byte\<close> is \<open>length * 256 + byte\<close>.
\<close>

section \<open>Reader\<close>

record Tlv =
  tlv_tag :: u32
  tlv_value :: bytes

fun read_tag_loop :: "nat \<Rightarrow> u32 \<Rightarrow> bytes \<Rightarrow> (u32 \<times> nat) option" where
  "read_tag_loop index tag [] = None"
| "read_tag_loop index tag (byte # rest) =
     (if index > 3 then None
      else let tag = push_bit 8 tag OR ucast byte
           in if byte AND 0x80 = 0 then Some (tag, index + 1)
              else read_tag_loop (index + 1) tag rest)"

definition read_tag :: "bytes \<Rightarrow> (u32 \<times> nat) option" where
  "read_tag bytes =
     (case bytes of
        [] \<Rightarrow> None
      | first # rest \<Rightarrow>
          if first AND 0x1F \<noteq> 0x1F then Some (ucast first, 1)
          else read_tag_loop 1 (ucast first) rest)"

definition read_length :: "bytes \<Rightarrow> (nat \<times> nat) option" where
  "read_length bytes =
     (case bytes of
        [] \<Rightarrow> None
      | first # _ \<Rightarrow>
          if first < 0x80 then Some (unat first, 1)
          else let count = unat (first AND 0x7F)
               in if count = 0 \<or> count > 3 \<or> length bytes < 1 + count then None
                  else Some (fold (\<lambda>byte len. len * 256 + unat byte)
                               (sub_slice 1 (1 + count) bytes) 0, 1 + count))"

definition reader_next :: "bytes \<Rightarrow> (Tlv \<times> bytes) option" where
  "reader_next rest =
     (case read_tag rest of None \<Rightarrow> None | Some (tag, tag_len) \<Rightarrow>
      (case read_length (drop tag_len rest) of None \<Rightarrow> None | Some (len, length_len) \<Rightarrow>
        let header = tag_len + length_len
        in if header + len \<le> length rest
           then Some (\<lparr>tlv_tag = tag, tlv_value = sub_slice header (header + len) rest\<rparr>,
                      drop (header + len) rest)
           else None))"

lemma read_tag_loop_bounds:
  "read_tag_loop index tag bs = Some (t, n) \<Longrightarrow> index < n \<and> n \<le> 4 \<and> n \<le> index + length bs"
  by (induction index tag bs rule: read_tag_loop.induct) (force simp: Let_def split: if_splits)+

lemma read_tag_bounds: "read_tag bs = Some (t, n) \<Longrightarrow> 1 \<le> n \<and> n \<le> 4 \<and> n \<le> length bs"
  by (auto simp: read_tag_def split: list.splits if_splits dest!: read_tag_loop_bounds)

lemma read_length_bounds: "read_length bs = Some (l, n) \<Longrightarrow> 1 \<le> n \<and> n \<le> 4 \<and> n \<le> length bs"
  by (auto simp: read_length_def Let_def split: list.splits if_splits)

text \<open>An element the reader returns lies inside the field: a header of two to eight bytes,
  the value, and what is left. So the reader terminates and never reads past the end.\<close>

lemma reader_next_split:
  assumes "reader_next bs = Some (t, rest)"
  shows "\<exists>hdr. bs = hdr @ tlv_value t @ rest \<and> 2 \<le> length hdr \<and> length hdr \<le> 8"
proof -
  from assms obtain tag tl len ll where tl: "read_tag bs = Some (tag, tl)"
    and ll: "read_length (drop tl bs) = Some (len, ll)"
    and fits: "tl + ll + len \<le> length bs"
    and t: "tlv_value t = sub_slice (tl + ll) (tl + ll + len) bs" "rest = drop (tl + ll + len) bs"
    by (auto simp: reader_next_def Let_def split: option.splits if_splits)
  have "bs = take (tl + ll) bs @ tlv_value t @ rest"
    unfolding t by simp
  with read_tag_bounds [OF tl] read_length_bounds [OF ll] fits show ?thesis
    by (intro exI [of _ "take (tl + ll) bs"]) simp
qed

lemma reader_next_shorter: "reader_next bs = Some (t, rest) \<Longrightarrow> length rest < length bs"
  using reader_next_split by fastforce

text \<open>\<open>Reader\<close> as an iterator, and \<open>tlv::find\<close>, which is \<open>Iterator::find\<close> on it.\<close>

function reader_collect :: "bytes \<Rightarrow> Tlv list" where
  "reader_collect rest =
     (case reader_next rest of None \<Rightarrow> [] | Some (tlv, rest) \<Rightarrow> tlv # reader_collect rest)"
  by pat_completeness auto
termination by (relation "measure length") (auto dest: reader_next_shorter)

declare reader_collect.simps [simp del]

definition tlv_find :: "bytes \<Rightarrow> u32 \<Rightarrow> bytes option" where
  "tlv_find bytes tag = map_option tlv_value (find (\<lambda>tlv. tlv_tag tlv = tag) (reader_collect bytes))"

section \<open>Writer\<close>

definition tag_encoded_len :: "u32 \<Rightarrow> nat" where
  "tag_encoded_len tag = (if tag \<le> 0xFF then 1 else if tag \<le> 0xFFFF then 2 else 3)"

definition length_encoded_len :: "nat \<Rightarrow> nat" where
  "length_encoded_len len =
     (if len < 0x80 then 1 else if len \<le> 0xFF then 2 else if len \<le> 0xFFFF then 3 else 4)"

definition encoded_len :: "u32 \<Rightarrow> nat \<Rightarrow> nat" where
  "encoded_len tag len = tag_encoded_len tag + length_encoded_len len + len"

definition tag_bytes :: "u32 \<Rightarrow> bytes" where
  "tag_bytes tag =
     (let len = tag_encoded_len tag
      in map (\<lambda>index. ucast (drop_bit (8 * (len - 1 - index)) tag AND 0xFF)) [0..<len])"

definition write_tag :: "u32 \<Rightarrow> bytes \<Rightarrow> nat option \<times> bytes" where
  "write_tag tag out =
     (let len = tag_encoded_len tag
      in if length out < len then (None, out) else (Some len, copy_at 0 (tag_bytes tag) out))"

definition length_bytes :: "nat \<Rightarrow> bytes" where
  "length_bytes len =
     (let needed = length_encoded_len len
      in if needed = 1 then [of_nat len]
         else if needed = 2 then [0x81, of_nat len]
         else if needed = 3 then 0x82 # be_bytes 2 (of_nat len :: u16)
         else 0x83 # drop 1 (be_bytes 4 (of_nat len :: u32)))"

definition write_length :: "nat \<Rightarrow> bytes \<Rightarrow> nat option \<times> bytes" where
  "write_length len out =
     (let needed = length_encoded_len len
      in if length out < needed then (None, out)
         else (Some needed, copy_at 0 (length_bytes len) out))"

definition write_header :: "u32 \<Rightarrow> nat \<Rightarrow> bytes \<Rightarrow> nat option \<times> bytes" where
  "write_header tag len out =
     (case write_tag tag out of
        (None, out) \<Rightarrow> (None, out)
      | (Some tag_len, out) \<Rightarrow>
          (case write_length len (drop tag_len out) of
             (None, tail) \<Rightarrow> (None, take tag_len out @ tail)
           | (Some length_len, tail) \<Rightarrow> (Some (tag_len + length_len), take tag_len out @ tail)))"

definition tlv_write :: "u32 \<Rightarrow> bytes \<Rightarrow> bytes \<Rightarrow> nat option \<times> bytes" where
  "tlv_write tag value out =
     (case write_header tag (length value) out of
        (None, out) \<Rightarrow> (None, out)
      | (Some header, out) \<Rightarrow>
          let fin = header + length value
          in if fin \<le> length out then (Some fin, copy_at header value out) else (None, out))"

section \<open>The encoding\<close>

definition tlv_bytes :: "Tlv \<Rightarrow> bytes" where
  "tlv_bytes t = tag_bytes (tlv_tag t) @ length_bytes (length (tlv_value t)) @ tlv_value t"

text \<open>The tags BER allows in one to three bytes: the low five bits of the first byte are all
  set exactly when more bytes follow, and the high bit of a following byte is set exactly
  when it is not the last.\<close>

fun ber_tag :: "bytes \<Rightarrow> bool" where
  "ber_tag [a] \<longleftrightarrow> a AND 0x1F \<noteq> 0x1F"
| "ber_tag [a, b] \<longleftrightarrow> a AND 0x1F = 0x1F \<and> b AND 0x80 = 0"
| "ber_tag [a, b, c] \<longleftrightarrow> a AND 0x1F = 0x1F \<and> b AND 0x80 \<noteq> 0 \<and> c AND 0x80 = 0"
| "ber_tag _ \<longleftrightarrow> False"

definition tlv_wf :: "Tlv \<Rightarrow> bool" where
  "tlv_wf t \<longleftrightarrow> tlv_tag t < 0x1000000 \<and> ber_tag (tag_bytes (tlv_tag t)) \<and>
     length (tlv_value t) < 0x1000000"

lemma length_tag_bytes [simp]: "length (tag_bytes tag) = tag_encoded_len tag"
  by (simp add: tag_bytes_def Let_def)

lemma length_length_bytes [simp]: "length (length_bytes len) = length_encoded_len len"
  by (simp add: length_bytes_def length_encoded_len_def Let_def)

lemma length_tlv_bytes [simp]:
  "length (tlv_bytes t) = encoded_len (tlv_tag t) (length (tlv_value t))"
  by (simp add: tlv_bytes_def encoded_len_def)

lemma write_header_eq:
  "fst (write_header tag len out) =
     (if tag_encoded_len tag + length_encoded_len len \<le> length out
      then Some (tag_encoded_len tag + length_encoded_len len) else None) \<and>
   length (snd (write_header tag len out)) = length out \<and>
   (tag_encoded_len tag + length_encoded_len len \<le> length out \<longrightarrow>
      snd (write_header tag len out) =
        tag_bytes tag @ length_bytes len @ drop (tag_encoded_len tag + length_encoded_len len) out)"
  by (auto simp: write_header_def write_tag_def write_length_def Let_def add.commute)

lemma tlv_write_eq:
  "fst (tlv_write tag value out) =
     (if encoded_len tag (length value) \<le> length out
      then Some (encoded_len tag (length value)) else None) \<and>
   (encoded_len tag (length value) \<le> length out \<longrightarrow>
      snd (tlv_write tag value out) =
        tlv_bytes \<lparr>tlv_tag = tag, tlv_value = value\<rparr> @ drop (encoded_len tag (length value)) out)"
proof -
  let ?n = "tag_encoded_len tag + length_encoded_len (length value)"
  obtain r o' where h: "write_header tag (length value) out = (r, o')" by force
  note w = write_header_eq [of tag "length value" out, unfolded h fst_conv snd_conv]
  show ?thesis
  proof (cases "?n \<le> length out")
    case True
    with w have r: "r = Some ?n" and o': "o' = tag_bytes tag @ length_bytes (length value) @ drop ?n out"
      by simp_all
    have len: "length o' = length out" using w by simp
    have "copy_at ?n value o' = tag_bytes tag @ length_bytes (length value) @ value @
        drop (length value) (drop ?n out)"
      unfolding o' by (simp add: copy_at_def)
    with len r show ?thesis
      by (simp add: tlv_write_def h encoded_len_def tlv_bytes_def Let_def add.commute add.left_commute)
  next
    case False
    with w show ?thesis by (simp add: tlv_write_def h encoded_len_def)
  qed
qed

lemma upt_123: "[0..<1] = [0]" "[0..<2] = [0, Suc 0]" "[0..<3] = [0, Suc 0, 2]"
  by (simp_all add: upt_rec)

lemma tag_bytes_cases:
  "tag_bytes tag =
     (if tag \<le> 0xFF then [ucast tag]
      else if tag \<le> 0xFFFF then [ucast (drop_bit 8 tag), ucast tag]
      else [ucast (drop_bit 16 tag), ucast (drop_bit 8 tag), ucast tag])"
proof -
  have "ucast (w AND 0xFF) = (ucast w :: u8)" for w :: u32
  proof -
    have "w AND 0xFF = take_bit 8 w" by (simp add: take_bit_eq_mask mask_eq_exp_minus_1)
    then show ?thesis by (intro bit_word_eqI) (simp add: bit_simps)
  qed
  then show ?thesis by (simp add: tag_bytes_def tag_encoded_len_def Let_def upt_123)
qed

lemma ucast_u8_u32: "ucast (ucast (w :: u32) :: u8) = take_bit 8 w"
  by (intro bit_word_eqI) (auto simp: bit_simps)

lemma push_drop_take: "push_bit 8 (take_bit m (drop_bit 8 w)) OR take_bit 8 (w :: u32) = take_bit (m + 8) w"
  by (intro bit_word_eqI) (auto simp: bit_simps)

lemma u32_take_bit_small: "w < 2 ^ k \<Longrightarrow> k < 32 \<Longrightarrow> take_bit k (w :: u32) = w"
  by (simp add: less_mask_eq take_bit_eq_mask)

lemma read_tag_tag_bytes:
  assumes small: "tag < 0x1000000" and ber: "ber_tag (tag_bytes tag)"
  shows "read_tag (tag_bytes tag @ rest) = Some (tag, tag_encoded_len tag)"
proof -
  have le: "tag \<le> 0xFF \<longleftrightarrow> tag < 2 ^ 8" "tag \<le> 0xFFFF \<longleftrightarrow> tag < 2 ^ 16"
    by (auto simp: word_le_nat_alt word_less_nat_alt)
  note comb = push_drop_take [of 8 tag] push_drop_take [of 8 "drop_bit 8 tag"]
    push_drop_take [of 16 tag]
  show ?thesis
    using ber u32_take_bit_small [of tag 8] u32_take_bit_small [of tag 16]
      u32_take_bit_small [of tag 24] small comb
    by (auto simp: tag_bytes_cases tag_encoded_len_def read_tag_def Let_def ucast_u8_u32 le
        split: if_splits)
qed

lemma read_length_length_bytes:
  assumes "n < 0x1000000"
  shows "read_length (length_bytes n @ rest) = Some (n, length_encoded_len n)"
proof -
  have b2: "be_bytes 2 (of_nat n :: u16) = [ucast (drop_bit (8 * 1) (of_nat n :: u16)),
      ucast (drop_bit (8 * 0) (of_nat n :: u16))]"
    by (simp add: be_bytes_def le_bytes_def upt_123)
  have b4: "drop 1 (be_bytes 4 (of_nat n :: u32)) = [ucast (drop_bit (8 * 2) (of_nat n :: u32)),
      ucast (drop_bit (8 * 1) (of_nat n :: u32)), ucast (drop_bit (8 * 0) (of_nat n :: u32))]"
    by (simp add: be_bytes_def le_bytes_def numeral_eq_Suc)
  have "n div 65536 = n div 256 div 256" by (simp add: div_mult2_eq [symmetric])
  then have digits: "65536 * (n div 65536) + n div 256 mod 256 * 256 + n mod 256 = n"
    using div_mult_mod_eq [of n 256] div_mult_mod_eq [of "n div 256" 256] by linarith
  consider "n < 0x80" | "0x80 \<le> n" "n \<le> 0xFF" | "0xFF < n" "n \<le> 0xFFFF" | "0xFFFF < n" by linarith
  then show ?thesis
  proof cases
    case 1
    then show ?thesis
      by (simp add: read_length_def length_bytes_def length_encoded_len_def word_less_nat_alt)
  next
    case 2
    then show ?thesis
      by (simp add: read_length_def length_bytes_def length_encoded_len_def sub_slice_def)
  next
    case 3
    then have "unat (ucast (drop_bit (8 * i) (of_nat n :: u16)) :: u8) = n div 256 ^ i mod 256" for i
      by (intro unat_byte_of_nat) simp
    from this [of 0] this [of 1] 3 show ?thesis unfolding length_bytes_def b2
      by (simp add: read_length_def length_encoded_len_def sub_slice_def)
  next
    case 4
    with assms have "unat (ucast (drop_bit (8 * i) (of_nat n :: u32)) :: u8) = n div 256 ^ i mod 256" for i
      by (intro unat_byte_of_nat) simp
    from this [of 0] this [of 1] this [of 2] 4 assms digits show ?thesis unfolding length_bytes_def b4
      by (simp add: read_length_def length_encoded_len_def sub_slice_def)
  qed
qed

lemma reader_next_tlv_bytes:
  assumes "tlv_wf t"
  shows "reader_next (tlv_bytes t @ rest) = Some (t, rest)"
  using assms
  by (simp add: reader_next_def tlv_wf_def tlv_bytes_def read_tag_tag_bytes
      read_length_length_bytes sub_slice_def)

lemma reader_collect_tlv_bytes:
  "(\<forall>t \<in> set ts. tlv_wf t) \<Longrightarrow> reader_collect (concat (map tlv_bytes ts)) = ts"
proof (induction ts)
  case Nil
  show ?case
    by (subst reader_collect.simps) (simp add: reader_next_def read_tag_def)
next
  case (Cons t ts)
  then show ?case
    by (subst reader_collect.simps) (simp add: reader_next_tlv_bytes)
qed

section \<open>Properties\<close>

text \<open>TLV round trip. \<open>write\<close> succeeds exactly when the buffer has room, returns
  \<open>encoded_len\<close> and leaves the encoded element followed by the old bytes; and a field made
  of any sequence of well-formed elements is read back by the iterator as that sequence,
  so \<open>find\<close> returns the value of the first element with the tag.\<close>

theorem tlv_roundtrip:
  assumes wf: "\<forall>t \<in> set ts. tlv_wf t"
  shows "tlv_write tag v out =
      (if encoded_len tag (length v) \<le> length out
       then (Some (encoded_len tag (length v)),
             tlv_bytes \<lparr>tlv_tag = tag, tlv_value = v\<rparr> @
               drop (encoded_len tag (length v)) out)
       else (None, snd (tlv_write tag v out))) \<and>
    reader_collect (concat (map tlv_bytes ts)) = ts \<and>
    tlv_find (concat (map tlv_bytes ts)) tag =
      map_option tlv_value (find (\<lambda>t. tlv_tag t = tag) ts)"
  using tlv_write_eq [of tag v out] reader_collect_tlv_bytes [OF wf]
  by (cases "tlv_write tag v out") (simp add: tlv_find_def)

definition demo_object :: Tlv where
  "demo_object = \<lparr>tlv_tag = 0x5FC102, tlv_value = [1, 2, 3]\<rparr>"

theorem tlv_roundtrip_witness:
  "tlv_write 0x5FC102 [1, 2, 3] (replicate 8 0) = (Some 7, [0x5F, 0xC1, 0x02, 3, 1, 2, 3, 0]) \<and>
   tlv_find (tlv_bytes demo_object @ tlv_bytes demo_object) 0x5FC102 = Some [1, 2, 3]"
proof -
  have enc: "tag_bytes 0x5FC102 = [0x5F, 0xC1, 0x02]" by (simp add: tag_bytes_cases)
  have "\<forall>t \<in> set [demo_object, demo_object]. tlv_wf t"
    by (simp add: tlv_wf_def demo_object_def enc)
  from tlv_roundtrip [OF this, of "0x5FC102" "[1, 2, 3]" "replicate 8 0"] show ?thesis
    by (simp add: encoded_len_def tag_encoded_len_def length_encoded_len_def demo_object_def
        tlv_bytes_def enc length_bytes_def)
qed

text \<open>The reader is memory-safe and terminates. Every element it returns is a contiguous
  part of the field after a header of two to eight bytes, what remains is the rest of the
  field, and the values of one pass never overlap, their total size leaving at least two
  bytes per element.\<close>

theorem tlv_reader_bounds:
  "(\<forall>t rest. reader_next bs = Some (t, rest) \<longrightarrow>
      (\<exists>hdr. bs = hdr @ tlv_value t @ rest \<and> 2 \<le> length hdr \<and> length hdr \<le> 8)) \<and>
   sum_list (map (length \<circ> tlv_value) (reader_collect bs)) + 2 * length (reader_collect bs)
     \<le> length bs"
proof (intro conjI allI impI)
  show "\<exists>hdr. bs = hdr @ tlv_value t @ rest \<and> 2 \<le> length hdr \<and> length hdr \<le> 8"
    if "reader_next bs = Some (t, rest)" for t rest using reader_next_split [OF that] .
  show "sum_list (map (length \<circ> tlv_value) (reader_collect bs)) + 2 * length (reader_collect bs)
     \<le> length bs"
  proof (induction bs rule: reader_collect.induct)
    case (1 rest)
    show ?case
    proof (cases "reader_next rest")
      case None
      then show ?thesis by (subst (1 2) reader_collect.simps) simp
    next
      case (Some r)
      obtain t rest' where r: "r = (t, rest')" by force
      with Some reader_next_split obtain hdr where
        "rest = hdr @ tlv_value t @ rest'" "2 \<le> length hdr" by blast
      moreover have "reader_collect rest = t # reader_collect rest'"
        using Some r by (subst reader_collect.simps) simp
      ultimately show ?thesis using "1" [OF Some, of t rest'] r by simp
    qed
  qed
qed

theorem tlv_reader_bounds_witness:
  "reader_next [0x81, 2, 7, 8, 9] = Some (\<lparr>tlv_tag = 0x81, tlv_value = [7, 8]\<rparr>, [9]) \<and>
   (\<exists>hdr. [0x81, 2, 7, 8, 9] = hdr @ [7, 8] @ ([9] :: bytes) \<and> length hdr \<le> 8)"
proof -
  have "reader_next [0x81, 2, 7, 8, 9] = Some (\<lparr>tlv_tag = 0x81, tlv_value = [7, 8]\<rparr>, [9])"
    by (simp add: reader_next_def read_tag_def read_length_def sub_slice_def)
  with tlv_reader_bounds [of "[0x81, 2, 7, 8, 9]"] show ?thesis by fastforce
qed

text \<open>the reader accepts tags of one to four bytes, and four is attained; a four-byte tag
  is not representable by the writer, which truncates it to three bytes.\<close>

theorem read_tag_up_to_four:
  "(\<forall>bs t n. read_tag bs = Some (t, n) \<longrightarrow> 1 \<le> n \<and> n \<le> 4 \<and> n \<le> length bs) \<and>
   read_tag [0x1F, 0x81, 0x82, 0x03] = Some (0x1F818203, 4) \<and>
   tlv_write 0x1F818203 [] [0, 0, 0, 0] = (Some 4, [0x81, 0x82, 0x03, 0])"
proof -
  have "tag_bytes 0x1F818203 = [0x81, 0x82, 0x03]" by (simp add: tag_bytes_cases)
  with tlv_write_eq [of "0x1F818203" "[]" "[0, 0, 0, 0]"]
  have "tlv_write 0x1F818203 [] [0, 0, 0, 0] = (Some 4, [0x81, 0x82, 0x03, 0])"
    by (cases "tlv_write 0x1F818203 [] [0, 0, 0, 0]")
       (simp add: encoded_len_def tag_encoded_len_def length_encoded_len_def tlv_bytes_def
         length_bytes_def)
  moreover have "read_tag [0x1F, 0x81, 0x82, 0x03] = Some (0x1F818203, 4)"
    by (simp add: read_tag_def Let_def)
  ultimately show ?thesis using read_tag_bounds by blast
qed

theorem read_tag_up_to_four_witness:
  "read_tag [0x7F, 0x49, 0x00] = Some (0x7F49, 2) \<and> (2 :: nat) \<le> 4"
proof -
  have "read_tag [0x7F, 0x49, 0x00] = Some (0x7F49, 2)" by (simp add: read_tag_def)
  with read_tag_up_to_four show ?thesis by blast
qed

end
