(* ===== verification/Ccid.thy ===== *)
theory Ccid
  imports Prelude
begin

unbundle bit_operations_syntax

text \<open>
  USB CCID framing, \<open>crates/aegis-applets/src/ccid.rs\<close>: headers, requests, responses and
  the reassembly of bulk packets into frames. The capacity \<open>N\<close> of the assembler is the
  const generic of the source (2100 in the firmware, at least the header length). An
  encoder returns the number of bytes and the buffer it leaves.
\<close>

abbreviation (input) "HEADER_LEN \<equiv> 10 :: nat"
abbreviation (input) "MAX_MESSAGE_BYTES \<equiv> 2100 :: nat"

abbreviation (input) "PC_TO_RDR_SET_PARAMETERS \<equiv> 0x61 :: u8"
abbreviation (input) "PC_TO_RDR_GET_PARAMETERS \<equiv> 0x6C :: u8"
abbreviation (input) "PC_TO_RDR_RESET_PARAMETERS \<equiv> 0x6D :: u8"
abbreviation (input) "PC_TO_RDR_ICC_POWER_ON \<equiv> 0x62 :: u8"
abbreviation (input) "PC_TO_RDR_ICC_POWER_OFF \<equiv> 0x63 :: u8"
abbreviation (input) "PC_TO_RDR_GET_SLOT_STATUS \<equiv> 0x65 :: u8"
abbreviation (input) "PC_TO_RDR_ESCAPE \<equiv> 0x6B :: u8"
abbreviation (input) "PC_TO_RDR_XFR_BLOCK \<equiv> 0x6F :: u8"
abbreviation (input) "PC_TO_RDR_ABORT \<equiv> 0x72 :: u8"
abbreviation (input) "PC_TO_RDR_SET_DATA_RATE_AND_CLOCK \<equiv> 0x73 :: u8"

abbreviation (input) "RDR_TO_PC_DATA_BLOCK \<equiv> 0x80 :: u8"
abbreviation (input) "RDR_TO_PC_SLOT_STATUS \<equiv> 0x81 :: u8"
abbreviation (input) "RDR_TO_PC_PARAMETERS \<equiv> 0x82 :: u8"
abbreviation (input) "RDR_TO_PC_ESCAPE \<equiv> 0x83 :: u8"
abbreviation (input) "RDR_TO_PC_DATA_RATE_AND_CLOCK \<equiv> 0x84 :: u8"

abbreviation (input) "STATUS_OK \<equiv> 0x00 :: u8"
abbreviation (input) "STATUS_FAILED \<equiv> 0x40 :: u8"
abbreviation (input) "ERROR_NONE \<equiv> 0x00 :: u8"
abbreviation (input) "ERROR_UNSUPPORTED \<equiv> 0x00 :: u8"
abbreviation (input) "ERROR_OCCURRED \<equiv> 0x01 :: u8"
abbreviation (input) "DATA_RATE_AND_CLOCK_LEN \<equiv> 8 :: nat"
abbreviation (input) "ICC_STATUS_ACTIVE \<equiv> 0x00 :: u8"
abbreviation (input) "ICC_STATUS_INACTIVE \<equiv> 0x01 :: u8"
abbreviation (input) "PROTOCOL_T0 \<equiv> 0x00 :: u8"
abbreviation (input) "T0_PARAMETERS \<equiv> [0x11, 0x00, 0x00, 0x0A, 0x00] :: bytes"

datatype CcidError = ShortFrame | BadLength | UnsupportedMessage | CcidOverflow

section \<open>Requests\<close>

record Header =
  hdr_message_type :: u8
  hdr_length :: u32
  hdr_slot :: u8
  hdr_sequence :: u8
  hdr_specific :: bytes

definition declared_length :: "bytes \<Rightarrow> u32" where
  "declared_length frame = of_le_bytes [frame ! 1, frame ! 2, frame ! 3, frame ! 4]"

definition header_parse :: "bytes \<Rightarrow> (Header, CcidError) result" where
  "header_parse frame =
     (if length frame < HEADER_LEN then Err ShortFrame
      else let len = declared_length frame
           in if unat len + HEADER_LEN \<noteq> length frame then Err BadLength
              else Ok \<lparr>hdr_message_type = frame ! 0, hdr_length = len, hdr_slot = frame ! 5,
                       hdr_sequence = frame ! 6,
                       hdr_specific = [frame ! 7, frame ! 8, frame ! 9]\<rparr>)"

text \<open>The fields of each request, in the order of the source: slot, sequence, and what the
  request adds.\<close>

datatype Request =
    IccPowerOn u8 u8 u8
  | IccPowerOff u8 u8
  | GetSlotStatus u8 u8
  | SetParameters u8 u8 u8 bytes
  | GetParameters u8 u8
  | ResetParameters u8 u8
  | SetDataRateAndClock u8 u8 bytes
  | XfrBlock u8 u8 u8 u16 bytes
  | Escape u8 u8 bytes
  | Abort u8 u8

definition request_parse :: "bytes \<Rightarrow> (Request, CcidError) result" where
  "request_parse frame =
     and_then (header_parse frame) (\<lambda>header.
       let payload = drop HEADER_LEN frame;
           ty = hdr_message_type header;
           slot = hdr_slot header;
           sq = hdr_sequence header;
           specific = hdr_specific header
       in if ty = PC_TO_RDR_ICC_POWER_ON \<and> payload = []
            then Ok (IccPowerOn slot sq (specific ! 0))
          else if ty = PC_TO_RDR_ICC_POWER_OFF \<and> payload = [] then Ok (IccPowerOff slot sq)
          else if ty = PC_TO_RDR_GET_SLOT_STATUS \<and> payload = [] then Ok (GetSlotStatus slot sq)
          else if ty = PC_TO_RDR_SET_PARAMETERS \<and> length payload = length T0_PARAMETERS
            then Ok (SetParameters slot sq (specific ! 0) payload)
          else if ty = PC_TO_RDR_GET_PARAMETERS \<and> payload = [] then Ok (GetParameters slot sq)
          else if ty = PC_TO_RDR_RESET_PARAMETERS \<and> payload = []
            then Ok (ResetParameters slot sq)
          else if ty = PC_TO_RDR_SET_DATA_RATE_AND_CLOCK \<and>
                  length payload = DATA_RATE_AND_CLOCK_LEN
            then Ok (SetDataRateAndClock slot sq payload)
          else if ty = PC_TO_RDR_XFR_BLOCK
            then Ok (XfrBlock slot sq (specific ! 0)
                       (of_le_bytes [specific ! 1, specific ! 2]) payload)
          else if ty = PC_TO_RDR_ESCAPE then Ok (Escape slot sq payload)
          else if ty = PC_TO_RDR_ABORT \<and> payload = [] then Ok (Abort slot sq)
          else Err UnsupportedMessage)"

fun request_sequence :: "Request \<Rightarrow> u8" where
  "request_sequence (IccPowerOn _ sq _) = sq"
| "request_sequence (IccPowerOff _ sq) = sq"
| "request_sequence (GetSlotStatus _ sq) = sq"
| "request_sequence (SetParameters _ sq _ _) = sq"
| "request_sequence (GetParameters _ sq) = sq"
| "request_sequence (ResetParameters _ sq) = sq"
| "request_sequence (SetDataRateAndClock _ sq _) = sq"
| "request_sequence (XfrBlock _ sq _ _ _) = sq"
| "request_sequence (Escape _ sq _) = sq"
| "request_sequence (Abort _ sq) = sq"

fun request_slot :: "Request \<Rightarrow> u8" where
  "request_slot (IccPowerOn slot _ _) = slot"
| "request_slot (IccPowerOff slot _) = slot"
| "request_slot (GetSlotStatus slot _) = slot"
| "request_slot (SetParameters slot _ _ _) = slot"
| "request_slot (GetParameters slot _) = slot"
| "request_slot (ResetParameters slot _) = slot"
| "request_slot (SetDataRateAndClock slot _ _) = slot"
| "request_slot (XfrBlock slot _ _ _ _) = slot"
| "request_slot (Escape slot _ _) = slot"
| "request_slot (Abort slot _) = slot"

section \<open>Responses\<close>

record CcidResponse =
  cr_message_type :: u8
  cr_sequence :: u8
  cr_status :: u8
  cr_error :: u8
  cr_specific :: bytes
  cr_data :: bytes

definition data_block :: "u8 \<Rightarrow> bytes \<Rightarrow> CcidResponse" where
  "data_block sq data = \<lparr>cr_message_type = RDR_TO_PC_DATA_BLOCK, cr_sequence = sq,
     cr_status = STATUS_OK, cr_error = ERROR_NONE, cr_specific = [0, 0, 0], cr_data = data\<rparr>"

definition data_block_failed :: "u8 \<Rightarrow> CcidResponse" where
  "data_block_failed sq = \<lparr>cr_message_type = RDR_TO_PC_DATA_BLOCK, cr_sequence = sq,
     cr_status = STATUS_FAILED, cr_error = ERROR_OCCURRED, cr_specific = [0, 0, 0], cr_data = []\<rparr>"

definition slot_status :: "u8 \<Rightarrow> u8 \<Rightarrow> CcidResponse" where
  "slot_status sq icc_status = \<lparr>cr_message_type = RDR_TO_PC_SLOT_STATUS, cr_sequence = sq,
     cr_status = STATUS_OK OR icc_status, cr_error = ERROR_NONE, cr_specific = [0, 0, 0],
     cr_data = []\<rparr>"

definition slot_status_failed :: "u8 \<Rightarrow> CcidResponse" where
  "slot_status_failed sq = \<lparr>cr_message_type = RDR_TO_PC_SLOT_STATUS, cr_sequence = sq,
     cr_status = STATUS_FAILED OR ICC_STATUS_INACTIVE, cr_error = ERROR_UNSUPPORTED,
     cr_specific = [0, 0, 0], cr_data = []\<rparr>"

definition data_rate_and_clock :: "u8 \<Rightarrow> bytes \<Rightarrow> CcidResponse" where
  "data_rate_and_clock sq data = \<lparr>cr_message_type = RDR_TO_PC_DATA_RATE_AND_CLOCK,
     cr_sequence = sq, cr_status = STATUS_OK, cr_error = ERROR_NONE, cr_specific = [0, 0, 0],
     cr_data = data\<rparr>"

definition parameters :: "u8 \<Rightarrow> u8 \<Rightarrow> bytes \<Rightarrow> CcidResponse" where
  "parameters sq protocol data = \<lparr>cr_message_type = RDR_TO_PC_PARAMETERS, cr_sequence = sq,
     cr_status = STATUS_OK, cr_error = ERROR_NONE, cr_specific = [protocol, 0, 0],
     cr_data = data\<rparr>"

definition parameters_failed :: "u8 \<Rightarrow> CcidResponse" where
  "parameters_failed sq = \<lparr>cr_message_type = RDR_TO_PC_PARAMETERS, cr_sequence = sq,
     cr_status = STATUS_FAILED, cr_error = ERROR_UNSUPPORTED, cr_specific = [0, 0, 0],
     cr_data = []\<rparr>"

definition escape_response :: "u8 \<Rightarrow> bytes \<Rightarrow> CcidResponse" where
  "escape_response sq data = \<lparr>cr_message_type = RDR_TO_PC_ESCAPE, cr_sequence = sq,
     cr_status = STATUS_OK, cr_error = ERROR_NONE, cr_specific = [0, 0, 0], cr_data = data\<rparr>"

definition write_header_into :: "bytes \<Rightarrow> u8 \<Rightarrow> nat \<Rightarrow> u8 \<Rightarrow> bytes" where
  "write_header_into out ty data_len sq =
     (copy_at 1 (le_bytes 4 (of_nat data_len :: u32)) (out[0 := ty]))[5 := 0, 6 := sq]"

definition ccid_encode_into :: "CcidResponse \<Rightarrow> bytes \<Rightarrow> (nat, CcidError) result \<times> bytes" where
  "ccid_encode_into self out =
     (let total = HEADER_LEN + length (cr_data self)
      in if length out < total then (Err CcidOverflow, out)
         else (Ok total,
               copy_at HEADER_LEN (cr_data self)
                 ((write_header_into out (cr_message_type self) (length (cr_data self))
                     (cr_sequence self))
                  [7 := cr_status self, 8 := cr_error self, 9 := cr_specific self ! 0])))"

definition write_data_block_header ::
  "u8 \<Rightarrow> nat \<Rightarrow> bytes \<Rightarrow> (unit, CcidError) result \<times> bytes" where
  "write_data_block_header sq data_len out =
     (if length out < HEADER_LEN + data_len then (Err CcidOverflow, out)
      else (Ok (), (write_header_into out RDR_TO_PC_DATA_BLOCK data_len sq)
                     [7 := STATUS_OK, 8 := ERROR_NONE, 9 := 0]))"

section \<open>Reassembly\<close>

record Assembler =
  as_buffer :: bytes

definition assembler_new :: Assembler where
  "assembler_new = \<lparr>as_buffer = []\<rparr>"

definition assembler_reset :: "Assembler \<Rightarrow> Assembler" where
  "assembler_reset self = self\<lparr>as_buffer := []\<rparr>"

definition assembler_feed ::
  "nat \<Rightarrow> Assembler \<Rightarrow> bytes \<Rightarrow> (unit, CcidError) result \<times> Assembler" where
  "assembler_feed N self chunk =
     (if length (as_buffer self) + length chunk > N then (Err CcidOverflow, self)
      else (Ok (), self\<lparr>as_buffer := as_buffer self @ chunk\<rparr>))"

definition assembler_pending :: "nat \<Rightarrow> Assembler \<Rightarrow> (bytes option, CcidError) result" where
  "assembler_pending N self =
     (let buffer = as_buffer self
      in if length buffer < HEADER_LEN then Ok None
         else let len = unat (declared_length buffer)
              in if len > N - HEADER_LEN then Err CcidOverflow
                 else let total = HEADER_LEN + len
                      in if length buffer < total then Ok None
                         else Ok (Some (take total buffer)))"

definition assembler_consume :: "Assembler \<Rightarrow> nat \<Rightarrow> Assembler" where
  "assembler_consume self frame_len =
     (if frame_len \<ge> length (as_buffer self) then self\<lparr>as_buffer := []\<rparr>
      else self\<lparr>as_buffer := drop frame_len (as_buffer self)\<rparr>)"

section \<open>The frame format\<close>

definition ccid_frame :: "u8 \<Rightarrow> u8 \<Rightarrow> u8 \<Rightarrow> bytes \<Rightarrow> bytes \<Rightarrow> bytes" where
  "ccid_frame ty slot sq specific payload =
     ty # le_bytes 4 (of_nat (length payload) :: u32) @ [slot, sq] @ specific @ payload"

lemma header_cases:
  assumes "HEADER_LEN \<le> length out"
  obtains a b c d e f g h i j rest where "out = a # b # c # d # e # f # g # h # i # j # rest"
  using assms by (auto simp: numeral_eq_Suc Suc_le_length_iff)

lemma le_bytes_4: "\<exists>a b c d. le_bytes 4 (w :: u32) = [a, b, c, d]"
  by (simp add: le_bytes_def numeral_eq_Suc)

lemma length_ccid_frame [simp]:
  "length specific = 3 \<Longrightarrow> length (ccid_frame ty slot sq specific payload) = 10 + length payload"
  by (simp add: ccid_frame_def)

lemma ccid_frame_fields:
  assumes "length specific = 3"
  shows "ccid_frame ty slot sq specific payload ! 0 = ty"
    and "ccid_frame ty slot sq specific payload ! 5 = slot"
    and "ccid_frame ty slot sq specific payload ! 6 = sq"
    and "[ccid_frame ty slot sq specific payload ! 7, ccid_frame ty slot sq specific payload ! 8,
          ccid_frame ty slot sq specific payload ! 9] = specific"
    and "drop 10 (ccid_frame ty slot sq specific payload) = payload"
    and "declared_length (ccid_frame ty slot sq specific payload @ rest) = of_nat (length payload)"
proof -
  obtain a b c d where w: "le_bytes 4 (of_nat (length payload) :: u32) = [a, b, c, d]"
    using le_bytes_4 by blast
  obtain x y z where sp: "specific = [x, y, z]"
    using assms by (auto simp: numeral_eq_Suc length_Suc_conv)
  note f = ccid_frame_def w sp
  show "ccid_frame ty slot sq specific payload ! 0 = ty"
    "ccid_frame ty slot sq specific payload ! 5 = slot"
    "ccid_frame ty slot sq specific payload ! 6 = sq"
    "[ccid_frame ty slot sq specific payload ! 7, ccid_frame ty slot sq specific payload ! 8,
          ccid_frame ty slot sq specific payload ! 9] = specific"
    "drop 10 (ccid_frame ty slot sq specific payload) = payload"
    by (simp_all add: f)
  have "declared_length (ccid_frame ty slot sq specific payload @ rest) =
      of_le_bytes (le_bytes 4 (of_nat (length payload) :: u32))"
    unfolding declared_length_def f by simp
  then show "declared_length (ccid_frame ty slot sq specific payload @ rest) = of_nat (length payload)"
    by simp
qed

lemma header_parse_frame:
  assumes "length specific = 3" and "length payload < 2 ^ 32"
  shows "header_parse (ccid_frame ty slot sq specific payload) =
    Ok \<lparr>hdr_message_type = ty, hdr_length = of_nat (length payload), hdr_slot = slot,
        hdr_sequence = sq, hdr_specific = specific\<rparr>"
  using ccid_frame_fields(1-5) [OF assms(1), of ty slot sq payload]
    ccid_frame_fields(6) [OF assms(1), of ty slot sq payload "[]"] assms
  by (simp add: header_parse_def Let_def del: One_nat_def)

lemma header_parse_exact:
  assumes "header_parse frame = Ok h"
  shows "frame = ccid_frame (hdr_message_type h) (hdr_slot h) (hdr_sequence h) (hdr_specific h)
           (drop HEADER_LEN frame)"
    and "length (hdr_specific h) = 3" and "length (drop HEADER_LEN frame) < 2 ^ 32"
proof -
  from assms have len: "HEADER_LEN \<le> length frame"
    and decl: "unat (declared_length frame) + HEADER_LEN = length frame"
    and h: "h = \<lparr>hdr_message_type = frame ! 0, hdr_length = declared_length frame,
        hdr_slot = frame ! 5, hdr_sequence = frame ! 6,
        hdr_specific = [frame ! 7, frame ! 8, frame ! 9]\<rparr>"
    by (auto simp: header_parse_def Let_def split: if_splits)
  have n: "length (drop HEADER_LEN frame) = unat (declared_length frame)" using decl by simp
  then show "length (drop HEADER_LEN frame) < 2 ^ 32" by simp
  show "length (hdr_specific h) = 3" by (simp add: h)
  from n have w: "le_bytes 4 (of_nat (length (drop HEADER_LEN frame)) :: u32) =
      [frame ! 1, frame ! 2, frame ! 3, frame ! 4]"
    by (simp add: declared_length_def del: of_le_bytes.simps)
  from len obtain a b c d e f g i j k rest
    where "frame = a # b # c # d # e # f # g # i # j # k # rest" by (rule header_cases)
  with w h show "frame = ccid_frame (hdr_message_type h) (hdr_slot h) (hdr_sequence h)
      (hdr_specific h) (drop HEADER_LEN frame)"
    by (simp add: ccid_frame_def)
qed

text \<open>What a response looks like on the wire, and the header of a data block whose payload
  is already in place.\<close>

lemma write_header_into_eq:
  assumes "HEADER_LEN \<le> length out"
  shows "(write_header_into out ty n sq)[7 := st, 8 := er, 9 := sp] =
    ty # le_bytes 4 (of_nat n :: u32) @ [0, sq, st, er, sp] @ drop HEADER_LEN out"
proof -
  from assms obtain a b c d e f g h i j rest
    where out: "out = a # b # c # d # e # f # g # h # i # j # rest" by (rule header_cases)
  obtain w x y z where w: "le_bytes 4 (of_nat n :: u32) = [w, x, y, z]" using le_bytes_4 by blast
  show ?thesis by (simp add: out write_header_into_def w copy_at_def)
qed

lemma ccid_encode_into_eq:
  assumes "HEADER_LEN + length (cr_data r) \<le> length out"
  shows "ccid_encode_into r out = (Ok (HEADER_LEN + length (cr_data r)),
     ccid_frame (cr_message_type r) 0 (cr_sequence r)
       [cr_status r, cr_error r, cr_specific r ! 0] (cr_data r) @
     drop (HEADER_LEN + length (cr_data r)) out)"
proof -
  let ?h = "cr_message_type r # le_bytes 4 (of_nat (length (cr_data r)) :: u32) @
    [0, cr_sequence r, cr_status r, cr_error r, cr_specific r ! 0]"
  have "copy_at (length ?h) (cr_data r) (?h @ drop HEADER_LEN out) =
      ?h @ cr_data r @ drop (HEADER_LEN + length (cr_data r)) out"
    by (simp only: copy_at_append_left drop_drop add.commute)
  then have "copy_at HEADER_LEN (cr_data r) (?h @ drop HEADER_LEN out) =
      ?h @ cr_data r @ drop (HEADER_LEN + length (cr_data r)) out" by simp
  moreover have "HEADER_LEN \<le> length out" using assms by simp
  ultimately show ?thesis
    using assms write_header_into_eq [of out] by (simp add: ccid_encode_into_def Let_def ccid_frame_def)
qed

section \<open>Reassembly of a stream\<close>

text \<open>The loop every user of the assembler runs: take the pending frame, consume it, until no
  complete frame is left.\<close>

function assembler_drain :: "nat \<Rightarrow> Assembler \<Rightarrow> (bytes list \<times> Assembler, CcidError) result" where
  "assembler_drain N a =
     (case assembler_pending N a of
        Err e \<Rightarrow> Err e
      | Ok None \<Rightarrow> Ok ([], a)
      | Ok (Some frame) \<Rightarrow>
          (case assembler_drain N (assembler_consume a (length frame)) of
             Err e \<Rightarrow> Err e | Ok (frames, a) \<Rightarrow> Ok (frame # frames, a)))"
  by pat_completeness auto
termination
  by (relation "measure (\<lambda>(N, a). length (as_buffer a))")
     (auto simp: assembler_pending_def assembler_consume_def Let_def split: if_splits)

declare assembler_drain.simps [simp del]

fun assembler_run ::
  "nat \<Rightarrow> bytes list \<Rightarrow> Assembler \<Rightarrow> (bytes list \<times> Assembler, CcidError) result" where
  "assembler_run N [] a = Ok ([], a)"
| "assembler_run N (chunk # chunks) a =
     (case assembler_feed N a chunk of
        (Err e, _) \<Rightarrow> Err e
      | (Ok _, a) \<Rightarrow>
          and_then (assembler_drain N a) (\<lambda>(frames, a).
            and_then (assembler_run N chunks a) (\<lambda>(more, a). Ok (frames @ more, a))))"

text \<open>A complete frame, and a proper beginning of one.\<close>

definition complete_frame :: "nat \<Rightarrow> bytes \<Rightarrow> bool" where
  "complete_frame N f \<longleftrightarrow> HEADER_LEN \<le> length f \<and> length f \<le> N \<and>
     length f = HEADER_LEN + unat (declared_length f)"

definition partial_frame :: "nat \<Rightarrow> bytes \<Rightarrow> bool" where
  "partial_frame N f \<longleftrightarrow> assembler_pending N \<lparr>as_buffer = f\<rparr> = Ok None"

lemma declared_length_append:
  "HEADER_LEN \<le> length f \<Longrightarrow> declared_length (f @ g) = declared_length f"
  by (simp add: declared_length_def nth_append)

lemma pending_complete:
  assumes "complete_frame N f"
  shows "assembler_pending N \<lparr>as_buffer = f @ rest\<rparr> = Ok (Some f)"
proof -
  have "length f - HEADER_LEN \<le> N - HEADER_LEN" using assms by (auto simp: complete_frame_def)
  with assms show ?thesis
    by (auto simp: assembler_pending_def complete_frame_def declared_length_append Let_def)
qed

lemma pending_proper_prefix:
  assumes "complete_frame N (f @ g)" and "g \<noteq> []"
  shows "partial_frame N f"
proof (cases "length f < HEADER_LEN")
  case False
  then have "declared_length (f @ g) = declared_length f" by (simp add: declared_length_append)
  with assms False show ?thesis
    by (cases g) (auto simp: partial_frame_def assembler_pending_def complete_frame_def Let_def)
qed (simp add: partial_frame_def assembler_pending_def)

lemma partial_frame_prefix:
  assumes "partial_frame N (f @ g)"
  shows "partial_frame N f"
  using assms declared_length_append [of f g]
  by (auto simp: partial_frame_def assembler_pending_def Let_def not_less split: if_splits)

lemma drain_partial: "partial_frame N f \<Longrightarrow> assembler_drain N \<lparr>as_buffer = f\<rparr> = Ok ([], \<lparr>as_buffer = f\<rparr>)"
  by (subst assembler_drain.simps) (simp add: partial_frame_def)

lemma drain_frames:
  assumes "\<forall>f \<in> set fs. complete_frame N f" and "partial_frame N tail"
  shows "assembler_drain N \<lparr>as_buffer = concat fs @ tail\<rparr> = Ok (fs, \<lparr>as_buffer = tail\<rparr>)"
  using assms
proof (induction fs)
  case Nil
  then show ?case by (simp add: drain_partial)
next
  case (Cons f fs)
  then have f: "complete_frame N f" by simp
  have "assembler_consume \<lparr>as_buffer = f @ concat fs @ tail\<rparr> (length f) =
      \<lparr>as_buffer = concat fs @ tail\<rparr>"
    by (simp add: assembler_consume_def)
  with Cons f show ?case
    by (subst assembler_drain.simps) (simp add: pending_complete)
qed

text \<open>Cutting a stream anywhere leaves whole frames and a partial one.\<close>

lemma stream_cut:
  assumes "p @ q = concat fs @ tail" and "\<forall>f \<in> set fs. complete_frame N f" and "partial_frame N tail"
  shows "\<exists>fs1 fs2 pre. fs = fs1 @ fs2 \<and> p = concat fs1 @ pre \<and> partial_frame N pre \<and>
     pre @ q = concat fs2 @ tail"
  using assms
proof (induction fs arbitrary: p)
  case Nil
  then have "partial_frame N (p @ q)" by simp
  with partial_frame_prefix Nil show ?case by (intro exI [of _ "[]"] exI [of _ p]) auto
next
  case (Cons f fs)
  from Cons.prems(1) have "p @ q = f @ (concat fs @ tail)" by simp
  then consider us where "p = f @ us" "us @ q = concat fs @ tail"
    | us where "f = p @ us" "us \<noteq> []"
    by (auto simp: append_eq_append_conv2) (metis append_Nil2)
  then show ?case
  proof cases
    case 1
    with Cons.IH [of us] Cons.prems obtain fs1 fs2 pre where
      "fs = fs1 @ fs2" "us = concat fs1 @ pre" "partial_frame N pre" "pre @ q = concat fs2 @ tail"
      by auto
    with 1 show ?thesis by (intro exI [of _ "f # fs1"] exI [of _ fs2] exI [of _ pre]) simp
  next
    case 2
    with Cons.prems(2) have "partial_frame N p" by (intro pending_proper_prefix [of N p us]) auto
    with Cons.prems(1) show ?thesis
      by (intro exI [of _ "[]"] exI [of _ "f # fs"] exI [of _ p]) simp
  qed
qed

lemma partial_before:
  assumes "pre @ q = concat fs @ tail" and "partial_frame N pre" and "\<forall>f \<in> set fs. complete_frame N f"
  shows "\<exists>f \<in> insert tail (set fs). length pre \<le> length f"
proof (cases fs)
  case Nil
  with assms(1) have "length pre \<le> length tail" by (metis append_Nil concat.simps(1) le_add1 length_append)
  then show ?thesis by blast
next
  case (Cons f fs')
  have "length pre \<le> length f"
  proof (rule ccontr)
    assume "\<not> length pre \<le> length f"
    with assms(1) Cons obtain us where "pre = f @ us" by (auto simp: append_eq_append_conv2)
    with assms Cons pending_complete [of N f us] show False by (simp add: partial_frame_def)
  qed
  with Cons show ?thesis by auto
qed

lemma assembler_run_frames:
  assumes "pre @ concat chunks = concat fs @ tail" and "partial_frame N pre"
    and "\<forall>f \<in> set fs. complete_frame N f" and "partial_frame N tail"
    and "\<forall>c \<in> set chunks. \<forall>f \<in> insert tail (set fs). length f + length c \<le> N"
  shows "assembler_run N chunks \<lparr>as_buffer = pre\<rparr> = Ok (fs, \<lparr>as_buffer = tail\<rparr>)"
  using assms
proof (induction chunks arbitrary: pre fs)
  case Nil
  then have "assembler_drain N \<lparr>as_buffer = concat fs @ tail\<rparr> = Ok ([], \<lparr>as_buffer = concat fs @ tail\<rparr>)"
    using drain_partial by simp
  with drain_frames [of fs N tail] Nil show ?case by simp
next
  case (Cons c chunks)
  from Cons.prems obtain f where "f \<in> insert tail (set fs)" "length pre \<le> length f"
    using partial_before [of pre "c @ concat chunks" fs tail N] by auto
  with Cons.prems(5) have fit: "length pre + length c \<le> N" by fastforce
  have "(pre @ c) @ concat chunks = concat fs @ tail" using Cons.prems(1) by simp
  from stream_cut [OF this Cons.prems(3,4)] obtain fs1 fs2 pre' where
    cut: "fs = fs1 @ fs2" "pre @ c = concat fs1 @ pre'" "partial_frame N pre'"
    "pre' @ concat chunks = concat fs2 @ tail" by blast
  have "assembler_drain N \<lparr>as_buffer = pre @ c\<rparr> = Ok (fs1, \<lparr>as_buffer = pre'\<rparr>)"
    using cut Cons.prems(3) drain_frames [of fs1 N pre'] by simp
  moreover have "assembler_run N chunks \<lparr>as_buffer = pre'\<rparr> = Ok (fs2, \<lparr>as_buffer = tail\<rparr>)"
    using cut Cons.prems by (intro Cons.IH) auto
  ultimately show ?case using fit cut(1) by (simp add: assembler_feed_def)
qed

section \<open>Which frames are requests\<close>

text \<open>The request frames of CCID rev 1.1 the card implements, written from the message
  tables: type, slot, sequence, the three specific bytes \<open>[a, b, c]\<close> and the payload.\<close>

inductive ccid_request :: "bytes \<Rightarrow> Request \<Rightarrow> bool" where
  "ccid_request (ccid_frame 0x62 slot sq [a, b, c] []) (IccPowerOn slot sq a)"
| "ccid_request (ccid_frame 0x63 slot sq [a, b, c] []) (IccPowerOff slot sq)"
| "ccid_request (ccid_frame 0x65 slot sq [a, b, c] []) (GetSlotStatus slot sq)"
| "length data = 5 \<Longrightarrow>
   ccid_request (ccid_frame 0x61 slot sq [a, b, c] data) (SetParameters slot sq a data)"
| "ccid_request (ccid_frame 0x6C slot sq [a, b, c] []) (GetParameters slot sq)"
| "ccid_request (ccid_frame 0x6D slot sq [a, b, c] []) (ResetParameters slot sq)"
| "length data = 8 \<Longrightarrow>
   ccid_request (ccid_frame 0x73 slot sq [a, b, c] data) (SetDataRateAndClock slot sq data)"
| "length data < 2 ^ 32 \<Longrightarrow>
   ccid_request (ccid_frame 0x6F slot sq [a, b, c] data)
     (XfrBlock slot sq a (push_bit 8 (ucast c) OR ucast b) data)"
| "length data < 2 ^ 32 \<Longrightarrow>
   ccid_request (ccid_frame 0x6B slot sq [a, b, c] data) (Escape slot sq data)"
| "ccid_request (ccid_frame 0x72 slot sq [a, b, c] []) (Abort slot sq)"

lemma request_parse_frame:
  assumes "length data < 2 ^ 32"
  shows "request_parse (ccid_frame ty slot sq [a, b, c] data) = Ok r \<longleftrightarrow>
     ((ty = 0x62 \<and> data = [] \<and> r = IccPowerOn slot sq a) \<or>
      (ty = 0x63 \<and> data = [] \<and> r = IccPowerOff slot sq) \<or>
      (ty = 0x65 \<and> data = [] \<and> r = GetSlotStatus slot sq) \<or>
      (ty = 0x61 \<and> length data = 5 \<and> r = SetParameters slot sq a data) \<or>
      (ty = 0x6C \<and> data = [] \<and> r = GetParameters slot sq) \<or>
      (ty = 0x6D \<and> data = [] \<and> r = ResetParameters slot sq) \<or>
      (ty = 0x73 \<and> length data = 8 \<and> r = SetDataRateAndClock slot sq data) \<or>
      (ty = 0x6F \<and> r = XfrBlock slot sq a (push_bit 8 (ucast c) OR ucast b) data) \<or>
      (ty = 0x6B \<and> r = Escape slot sq data) \<or>
      (ty = 0x72 \<and> data = [] \<and> r = Abort slot sq))"
  (is "?parse \<longleftrightarrow> ?cases")
proof -
  have sp: "length [a, b, c] = 3" by simp
  have v: "request_parse (ccid_frame ty slot sq [a, b, c] data) =
    (if ty = 0x62 \<and> data = [] then Ok (IccPowerOn slot sq a)
     else if ty = 0x63 \<and> data = [] then Ok (IccPowerOff slot sq)
     else if ty = 0x65 \<and> data = [] then Ok (GetSlotStatus slot sq)
     else if ty = 0x61 \<and> length data = 5 then Ok (SetParameters slot sq a data)
     else if ty = 0x6C \<and> data = [] then Ok (GetParameters slot sq)
     else if ty = 0x6D \<and> data = [] then Ok (ResetParameters slot sq)
     else if ty = 0x73 \<and> length data = 8 then Ok (SetDataRateAndClock slot sq data)
     else if ty = 0x6F then Ok (XfrBlock slot sq a (push_bit 8 (ucast c) OR ucast b) data)
     else if ty = 0x6B then Ok (Escape slot sq data)
     else if ty = 0x72 \<and> data = [] then Ok (Abort slot sq) else Err UnsupportedMessage)"
    by (simp add: request_parse_def header_parse_frame [OF sp assms] ccid_frame_fields(5) [OF sp]
        Let_def cong: if_cong)
  show ?thesis
  proof
    assume ?parse
    then show ?cases unfolding v if_Ok_iff by (elim disjE conjE) simp_all
  next
    assume ?cases
    then show ?parse unfolding v by (elim disjE conjE; hypsubst; simp)
  qed
qed

section \<open>Properties\<close>

text \<open>\<open>Request::parse\<close> accepts exactly the CCID request frames: a frame parses to a
  request if and only if it is the frame of that request, with a \<open>dwLength\<close> that matches.\<close>

theorem ccid_request_exact: "request_parse frame = Ok r \<longleftrightarrow> ccid_request frame r"
proof
  assume "request_parse frame = Ok r"
  then obtain h where h: "header_parse frame = Ok h"
    by (auto simp: request_parse_def and_then_Ok_iff)
  note exact = header_parse_exact [OF h]
  from exact(2) obtain a b c where sp: "hdr_specific h = [a, b, c]"
    by (auto simp: numeral_eq_Suc length_Suc_conv)
  define ty slot sq data where "ty = hdr_message_type h" and "slot = hdr_slot h"
    and "sq = hdr_sequence h" and "data = drop HEADER_LEN frame"
  note fields = this
  have frame: "frame = ccid_frame ty slot sq [a, b, c] data"
    unfolding fields using exact(1) unfolding sp .
  have small: "length data < 2 ^ 32" unfolding fields by (rule exact(3))
  from \<open>request_parse frame = Ok r\<close> small show "ccid_request frame r"
    unfolding frame request_parse_frame [OF small]
    by (elim disjE conjE) (simp_all add: ccid_request.intros)
next
  assume "ccid_request frame r"
  then show "request_parse frame = Ok r"
    by cases (simp_all add: request_parse_frame)
qed

text \<open>C37: reassembly does not depend on how the host cuts the stream. Let a stream of whole
  frames and a partial last one arrive in packets of any sizes, each of which fits the
  buffer beside a frame: draining after every packet returns exactly the frames, in
  order, keeps exactly the partial one, and never overflows.\<close>

theorem assembler_any_chunking:
  assumes "concat chunks = concat fs @ tail"
    and "\<forall>f \<in> set fs. complete_frame N f" and "partial_frame N tail"
    and "\<forall>c \<in> set chunks. \<forall>f \<in> insert tail (set fs). length f + length c \<le> N"
  shows "assembler_run N chunks assembler_new = Ok (fs, \<lparr>as_buffer = tail\<rparr>)"
proof -
  have "partial_frame N []" by (simp add: partial_frame_def assembler_pending_def)
  with assembler_run_frames [of "[]"] assms show ?thesis by (simp add: assembler_new_def)
qed

definition demo_frames :: "bytes list" where
  "demo_frames = [[0x62, 0, 0, 0, 0, 0, 1, 0, 0, 0], [0x6F, 2, 0, 0, 0, 0, 2, 0, 0, 0, 7, 8]]"

theorem assembler_any_chunking_witness:
  "assembler_run 64 [[0x62, 0, 0], [0, 0, 0, 1, 0, 0, 0, 0x6F], [2, 0, 0, 0, 0, 2, 0, 0, 0, 7, 8, 0x65]]
     assembler_new = Ok (demo_frames, \<lparr>as_buffer = [0x65]\<rparr>)"
proof (rule assembler_any_chunking)
  show "\<forall>f \<in> set demo_frames. complete_frame 64 f"
    by (simp add: demo_frames_def complete_frame_def declared_length_def)
  show "partial_frame 64 [0x65]" by (simp add: partial_frame_def assembler_pending_def)
qed (simp_all add: demo_frames_def)

end
