(* ===== verification/Router.thy ===== *)
theory Router
  imports Apdu
begin

text \<open>
  AID selection and command dispatch, \<open>crates/aegis-applets/src/router.rs\<close>, the AIDs of
  \<open>aid.rs\<close> and the placeholder applet of \<open>placeholder.rs\<close>. The trait \<open>Applet\<close> is a record
  of operations on a state type \<open>'s\<close> (the sum of the applets' states when they differ);
  \<open>'g\<close> is the state of the random number generator a command may draw from. A card's
  applets are a list of such states.
\<close>

abbreviation (input) "CLA_INTERINDUSTRY \<equiv> 0x00 :: u8"
abbreviation (input) "INS_SELECT \<equiv> 0xA4 :: u8"
abbreviation (input) "INS_GET_RESPONSE \<equiv> 0xC0 :: u8"
abbreviation (input) "INS_SEND_REMAINING \<equiv> 0xA5 :: u8"
abbreviation (input) "SELECT_BY_DF_NAME \<equiv> 0x04 :: u8"
abbreviation (input) "DEFAULT_RESPONSE_BYTES \<equiv> 2048 :: nat"

definition AID_PIV :: bytes where
  "AID_PIV = [0xA0, 0x00, 0x00, 0x03, 0x08, 0x00, 0x00, 0x10, 0x00, 0x01, 0x00]"

definition AID_OPENPGP :: bytes where
  "AID_OPENPGP = [0xD2, 0x76, 0x00, 0x01, 0x24, 0x01]"

definition AID_OATH :: bytes where
  "AID_OATH = [0xA0, 0x00, 0x00, 0x05, 0x27, 0x21, 0x01]"

section \<open>The applet interface\<close>

record ('s, 'g) AppletOps =
  op_aid :: "'s \<Rightarrow> bytes"
  op_select :: "'s \<Rightarrow> 'g \<Rightarrow> Response \<times> 's \<times> 'g"
  op_process :: "Apdu \<Rightarrow> 's \<Rightarrow> 'g \<Rightarrow> Response \<times> 's \<times> 'g"
  op_confirm :: "'s \<Rightarrow> 'g \<Rightarrow> Response \<times> 's \<times> 'g"
  op_deny :: "'s \<Rightarrow> Response \<times> 's"

text \<open>The default methods of the trait.\<close>

definition default_select :: "'s \<Rightarrow> 'g \<Rightarrow> Response \<times> 's \<times> 'g" where
  "default_select self rng = (response_ok [], self, rng)"

definition default_confirm_presence :: "'s \<Rightarrow> 'g \<Rightarrow> Response \<times> 's \<times> 'g" where
  "default_confirm_presence self rng = (response_status SW_CONDITIONS_NOT_SATISFIED, self, rng)"

definition default_deny_presence :: "'s \<Rightarrow> Response \<times> 's" where
  "default_deny_presence self = (response_status SW_SECURITY_STATUS_NOT_SATISFIED, self)"

section \<open>The router\<close>

record 's Router =
  rt_applets :: "'s list"
  rt_selected :: "nat option"
  rt_chain :: Chainer

definition router_new :: "'s list \<Rightarrow> 's Router" where
  "router_new applets = \<lparr>rt_applets = applets, rt_selected = None, rt_chain = chainer_new\<rparr>"

definition selected_aid :: "('s, 'g) AppletOps \<Rightarrow> 's Router \<Rightarrow> bytes option" where
  "selected_aid ops self = map_option (\<lambda>index. op_aid ops (rt_applets self ! index)) (rt_selected self)"

definition is_selected :: "'s Router \<Rightarrow> bool" where
  "is_selected self \<longleftrightarrow> rt_selected self \<noteq> None"

definition starts_with :: "bytes \<Rightarrow> bytes \<Rightarrow> bool" where
  "starts_with data aid \<longleftrightarrow> take (length aid) data = aid"

definition aid_position :: "('s, 'g) AppletOps \<Rightarrow> 's list \<Rightarrow> bytes \<Rightarrow> nat option" where
  "aid_position ops applets data =
     find (\<lambda>i. starts_with data (op_aid ops (applets ! i))) [0..<length applets]"

definition router_command ::
  "('s, 'g) AppletOps \<Rightarrow> nat \<Rightarrow> 's Router \<Rightarrow> bytes \<Rightarrow> 'g \<Rightarrow> Response \<times> 's Router \<times> 'g" where
  "router_command ops N self frame rng =
     (case apdu_parse frame of
        Err sw \<Rightarrow> (response_status sw, self, rng)
      | Ok apdu \<Rightarrow>
          if apdu_cla apdu \<noteq> CLA_INTERINDUSTRY
          then (response_status SW_CLA_NOT_SUPPORTED, self, rng)
          else if apdu_ins apdu = INS_SELECT then
            if apdu_p1 apdu \<noteq> SELECT_BY_DF_NAME
            then (response_status SW_INCORRECT_PARAMETERS, self, rng)
            else let self = self\<lparr>rt_chain := chainer_clear (rt_chain self)\<rparr>
                 in (case aid_position ops (rt_applets self) (apdu_data apdu) of
                       Some index \<Rightarrow>
                         let (response, applet, rng) = op_select ops (rt_applets self ! index) rng
                         in (response, self\<lparr>rt_selected := Some index,
                                            rt_applets := (rt_applets self)[index := applet]\<rparr>, rng)
                     | None \<Rightarrow> (response_status SW_FILE_NOT_FOUND, self\<lparr>rt_selected := None\<rparr>, rng))
          else if apdu_ins apdu = INS_GET_RESPONSE \<or>
                  (apdu_ins apdu = INS_SEND_REMAINING \<and> is_pending (rt_chain self)) then
            let (response, chain) = get_response (rt_chain self) (expected_len apdu)
            in (response, self\<lparr>rt_chain := chain\<rparr>, rng)
          else
            (case rt_selected self of
               None \<Rightarrow> (response_status SW_CONDITIONS_NOT_SATISFIED, self, rng)
             | Some index \<Rightarrow>
                 let (response, applet, rng) = op_process ops apdu (rt_applets self ! index) rng;
                     self = self\<lparr>rt_applets := (rt_applets self)[index := applet]\<rparr>
                 in if resp_sw response = SW_PRESENCE_REQUIRED then (response, self, rng)
                    else if sw_is_success (resp_sw response) then
                      let (response, chain) =
                            chain_begin N (rt_chain self) (resp_data response) (expected_len apdu)
                      in (response, self\<lparr>rt_chain := chain\<rparr>, rng)
                    else (response, self, rng)))"

definition router_confirm_presence ::
  "('s, 'g) AppletOps \<Rightarrow> 's Router \<Rightarrow> 'g \<Rightarrow> Response \<times> 's Router \<times> 'g" where
  "router_confirm_presence ops self rng =
     (case rt_selected self of
        None \<Rightarrow> (response_status SW_CONDITIONS_NOT_SATISFIED, self, rng)
      | Some index \<Rightarrow>
          let (response, applet, rng) = op_confirm ops (rt_applets self ! index) rng
          in (response, self\<lparr>rt_applets := (rt_applets self)[index := applet]\<rparr>, rng))"

definition router_deny_presence :: "('s, 'g) AppletOps \<Rightarrow> 's Router \<Rightarrow> Response \<times> 's Router" where
  "router_deny_presence ops self =
     (case rt_selected self of
        None \<Rightarrow> (response_status SW_CONDITIONS_NOT_SATISFIED, self)
      | Some index \<Rightarrow>
          let (response, applet) = op_deny ops (rt_applets self ! index)
          in (response, self\<lparr>rt_applets := (rt_applets self)[index := applet]\<rparr>))"

definition router_reset :: "'s Router \<Rightarrow> 's Router" where
  "router_reset self = self\<lparr>rt_selected := None, rt_chain := chainer_clear (rt_chain self)\<rparr>"

section \<open>The placeholder applet\<close>

record Placeholder =
  ph_aid :: bytes

definition placeholder_process :: "Apdu \<Rightarrow> Placeholder \<Rightarrow> 'g \<Rightarrow> Response \<times> Placeholder \<times> 'g" where
  "placeholder_process apdu self rng = (response_status SW_INS_NOT_SUPPORTED, self, rng)"

definition placeholder_ops :: "(Placeholder, 'g) AppletOps" where
  "placeholder_ops = \<lparr>op_aid = ph_aid, op_select = default_select, op_process = placeholder_process,
     op_confirm = default_confirm_presence, op_deny = default_deny_presence\<rparr>"

section \<open>Invariant and isolation\<close>

text \<open>The selection is an index into the applets; the chained response is well formed and
  belongs to a selected applet.\<close>

definition router_inv :: "nat \<Rightarrow> 's Router \<Rightarrow> bool" where
  "router_inv N rt \<longleftrightarrow> chainer_inv N (rt_chain rt) \<and>
     (case rt_selected rt of None \<Rightarrow> \<not> is_pending (rt_chain rt)
                           | Some i \<Rightarrow> i < length (rt_applets rt))"

text \<open>What one operation may touch: the applets other than the one selected afterwards
  keep their state.\<close>

definition others_kept :: "'s Router \<Rightarrow> 's Router \<Rightarrow> bool" where
  "others_kept rt rt' \<longleftrightarrow> length (rt_applets rt') = length (rt_applets rt) \<and>
     (\<forall>i < length (rt_applets rt). rt_selected rt' \<noteq> Some i \<longrightarrow> rt_applets rt' ! i = rt_applets rt ! i)"

lemma others_kept_refl [simp]: "rt_applets rt' = rt_applets rt \<Longrightarrow> others_kept rt rt'"
  by (simp add: others_kept_def)

lemma others_kept_update [simp]:
  "rt_applets rt' = (rt_applets rt)[i := a] \<Longrightarrow> rt_selected rt' = Some i \<Longrightarrow> others_kept rt rt'"
  by (auto simp: others_kept_def nth_list_update)

lemma is_pending_new_clear [simp]: "\<not> is_pending chainer_new" "\<not> is_pending (chainer_clear c)"
  by (simp_all add: chainer_defs)

lemma router_inv_new [simp]: "router_inv N (router_new applets)"
  by (simp add: router_inv_def router_new_def)

lemma router_inv_reset [simp]: "router_inv N (router_reset rt)"
  by (simp add: router_inv_def router_reset_def)

lemma aid_position_SomeD:
  "aid_position ops applets data = Some i \<Longrightarrow>
     i < length applets \<and> starts_with data (op_aid ops (applets ! i)) \<and>
     (\<forall>j < i. \<not> starts_with data (op_aid ops (applets ! j)))"
  by (auto simp: aid_position_def find_Some_iff)

lemma aid_position_None:
  "aid_position ops applets data = None \<longleftrightarrow> (\<forall>a \<in> set applets. \<not> starts_with data (op_aid ops a))"
  by (auto simp: aid_position_def find_None_iff set_conv_nth)

lemma not_pending_get_response: "\<not> is_pending c \<Longrightarrow> get_response c n = (response_status SW_CONDITIONS_NOT_SATISFIED, c)"
  by (simp add: get_response_def)

lemma chain_begin_invD: "chain_begin N c d n = (r, c') \<Longrightarrow> chainer_inv N c'"
  using chain_begin_inv [of N c d n] by simp

lemma get_response_invD: "get_response c n = (r, c') \<Longrightarrow> chainer_inv N c \<Longrightarrow> chainer_inv N c'"
  using get_response_inv [of N c n] by simp

lemma router_command_kept:
  assumes inv: "router_inv N rt" and c: "router_command ops N rt frame rng = (r, rt', rng')"
  shows "router_inv N rt' \<and> others_kept rt rt'"
  using inv c
  by (auto simp: router_command_def Let_def router_inv_def not_pending_get_response
      dest!: aid_position_SomeD
      dest: chain_begin_invD get_response_invD
      split: result.splits if_splits option.splits prod.splits)

section \<open>The contract of an applet\<close>

text \<open>A session is a sequence of command frames.\<close>

fun router_run ::
  "('s, 'g) AppletOps \<Rightarrow> nat \<Rightarrow> bytes list \<Rightarrow> 's Router \<Rightarrow> 'g \<Rightarrow> 's Router \<times> 'g" where
  "router_run ops N [] rt rng = (rt, rng)"
| "router_run ops N (frame # frames) rt rng =
     (let (_, rt, rng) = router_command ops N rt frame rng in router_run ops N frames rt rng)"

text \<open>The AID is \<open>'static\<close>: no operation changes the identifier an applet answers to.\<close>

locale applet =
  fixes ops :: "('s, 'g) AppletOps"
  assumes select_aid: "op_select ops s g = (r, s', g') \<Longrightarrow> op_aid ops s' = op_aid ops s"
    and process_aid: "op_process ops a s g = (r, s', g') \<Longrightarrow> op_aid ops s' = op_aid ops s"
    and confirm_aid: "op_confirm ops s g = (r, s', g') \<Longrightarrow> op_aid ops s' = op_aid ops s"
    and deny_aid: "op_deny ops s = (r, s') \<Longrightarrow> op_aid ops s' = op_aid ops s"
begin

lemma map_aid_update:
  "op_aid ops a = op_aid ops (xs ! i) \<Longrightarrow> map (op_aid ops) (xs[i := a]) = map (op_aid ops) xs"
  by (metis list_update_id map_update)

lemma command_aids:
  assumes "router_command ops N rt frame g = (r, rt', g')"
  shows "map (op_aid ops) (rt_applets rt') = map (op_aid ops) (rt_applets rt)"
  using assms
  by (auto simp: router_command_def Let_def map_aid_update
      dest!: select_aid process_aid
      split: result.splits if_splits option.splits prod.splits)

lemma presence_aids:
  "router_confirm_presence ops rt g = (r, rt', g') \<Longrightarrow>
     map (op_aid ops) (rt_applets rt') = map (op_aid ops) (rt_applets rt)"
  "router_deny_presence ops rt = (r, rt') \<Longrightarrow>
     map (op_aid ops) (rt_applets rt') = map (op_aid ops) (rt_applets rt)"
  by (auto simp: router_confirm_presence_def router_deny_presence_def Let_def map_aid_update
      dest!: confirm_aid deny_aid split: option.splits prod.splits)

lemma run_aids:
  "router_run ops N frames rt g = (rt', g') \<Longrightarrow>
     map (op_aid ops) (rt_applets rt') = map (op_aid ops) (rt_applets rt)"
proof (induction frames arbitrary: rt g)
  case (Cons frame frames)
  obtain r rt1 g1 where "router_command ops N rt frame g = (r, rt1, g1)" by (metis prod_cases3)
  with Cons command_aids show ?case by fastforce
qed simp

text \<open>So selection resolves an AID to the same applet at any time of a session.\<close>

lemma position_aids:
  assumes "map (op_aid ops) xs = map (op_aid ops) ys"
  shows "aid_position ops xs data = aid_position ops ys data"
proof -
  have len: "length xs = length ys" using assms by (metis length_map)
  have "op_aid ops (xs ! i) = op_aid ops (ys ! i)" if "i < length ys" for i
    using assms that len by (metis nth_map)
  then show ?thesis unfolding aid_position_def len by (intro find_cong refl) simp
qed

lemma run_position:
  "router_run ops N frames rt g = (rt', g') \<Longrightarrow>
     aid_position ops (rt_applets rt') data = aid_position ops (rt_applets rt) data"
  using run_aids position_aids by blast

end

interpretation placeholder: applet placeholder_ops
  by unfold_locales (auto simp: placeholder_ops_def default_select_def placeholder_process_def
      default_confirm_presence_def default_deny_presence_def)

lemma router_run_inv: "router_inv N rt \<Longrightarrow> router_inv N (fst (router_run ops N frames rt g))"
proof (induction frames arbitrary: rt g)
  case (Cons frame frames)
  obtain r rt1 g1 where "router_command ops N rt frame g = (r, rt1, g1)" by (metis prod_cases3)
  with Cons router_command_kept [of N rt ops frame g r rt1 g1] show ?case by simp
qed simp

section \<open>A host that fetches a chained response\<close>

definition get_response_frame :: "u8 \<Rightarrow> bytes" where
  "get_response_frame le = [CLA_INTERINDUSTRY, INS_GET_RESPONSE, 0, 0, le]"

fun router_fetch ::
  "('s, 'g) AppletOps \<Rightarrow> nat \<Rightarrow> nat \<Rightarrow> (nat \<Rightarrow> u8) \<Rightarrow> Response \<times> 's Router \<times> 'g \<Rightarrow> bytes \<times> Sw" where
  "router_fetch ops N 0 les (r, rt, g) = (resp_data r, resp_sw r)"
| "router_fetch ops N (Suc fuel) les (r, rt, g) =
     (if is_bytes_remaining (resp_sw r)
      then let (d, sw) = router_fetch ops N fuel (\<lambda>i. les (Suc i))
                           (router_command ops N rt (get_response_frame (les 0)) g)
           in (resp_data r @ d, sw)
      else (resp_data r, resp_sw r))"

lemma get_response_command:
  "router_command ops N rt (get_response_frame le) g =
     (let (r, c) = get_response (rt_chain rt) (unat (short_le le)) in (r, rt\<lparr>rt_chain := c\<rparr>, g))"
proof -
  let ?h = "[CLA_INTERINDUSTRY, INS_GET_RESPONSE, 0, 0] :: bytes"
  have "iso_frame (?h @ [le]) (apdu_new ?h [] (Some (short_le le)) False)"
    by (rule iso_frame.Case2S) simp
  then have "apdu_parse (get_response_frame le) = Ok (apdu_new ?h [] (Some (short_le le)) False)"
    by (intro apdu_parse_complete) (simp add: get_response_frame_def)
  then show ?thesis by (simp add: router_command_def expected_len_def apdu_new_def)
qed

lemma router_fetch_chain:
  "router_fetch ops N fuel les (r, rt, g) =
     chain_fetch fuel (\<lambda>i. unat (short_le (les i))) (r, rt_chain rt)"
proof (induction fuel arbitrary: les r rt g)
  case (Suc fuel)
  obtain r' c' where "get_response (rt_chain rt) (unat (short_le (les 0))) = (r', c')" by force
  with Suc [of "\<lambda>i. les (Suc i)" r' "rt\<lparr>rt_chain := c'\<rparr>" g] show ?case
    by (simp add: get_response_command)
qed simp

section \<open>Properties\<close>

text \<open>C29: applet isolation. One command frame, well formed or not, changes the state of no
  applet other than the one selected after it, changes none when none is selected, and
  keeps the router's invariant (the selection is in range, a chained response is within
  bounds and belongs to a selected applet).\<close>

theorem router_isolation:
  assumes "router_inv N rt" and "router_command ops N rt frame g = (r, rt', g')"
  shows "router_inv N rt' \<and> others_kept rt rt' \<and>
    (rt_selected rt' = None \<longrightarrow> rt_applets rt' = rt_applets rt)"
  using router_command_kept [OF assms] by (auto simp: others_kept_def intro: nth_equalityI)

definition demo_applets :: "Placeholder list" where
  "demo_applets = [\<lparr>ph_aid = AID_PIV\<rparr>, \<lparr>ph_aid = AID_OPENPGP\<rparr>, \<lparr>ph_aid = AID_OATH\<rparr>]"

definition demo_select :: bytes where
  "demo_select = [0x00, 0xA4, 0x04, 0x00, 0x07] @ AID_OATH"

lemma demo_select_parse:
  "apdu_parse demo_select = Ok \<lparr>apdu_cla = 0, apdu_ins = 0xA4, apdu_p1 = 4, apdu_p2 = 0,
     apdu_data = AID_OATH, apdu_le = None, apdu_extended = False\<rparr>"
  by (simp add: demo_select_def AID_OATH_def apdu_parse_def apdu_new_def Let_def sub_slice_def)

lemma demo_select_command:
  "router_command placeholder_ops 2048 (router_new demo_applets) demo_select () =
     (response_ok [], (router_new demo_applets)\<lparr>rt_selected := Some 2\<rparr>, ())"
  by (simp add: router_command_def demo_select_parse router_new_def demo_applets_def
      aid_position_def starts_with_def AID_PIV_def AID_OPENPGP_def AID_OATH_def
      placeholder_ops_def default_select_def chainer_clear_def chainer_new_def upt_rec)

theorem router_isolation_witness:
  "router_inv 2048 ((router_new demo_applets)\<lparr>rt_selected := Some 2\<rparr>)"
  using router_isolation [OF router_inv_new demo_select_command] by simp

text \<open>Selection. At any moment of a session, after any frames, a \<open>SELECT\<close> by DF name
  selects the first applet, in the order of registration, whose AID is a prefix of the
  requested name, drops any chained response, and selects none and answers \<open>6A82\<close> when
  there is no such applet.\<close>

theorem router_selects_first:
  assumes "applet ops" and "router_run ops N frames (router_new applets) g = (rt, g1)"
    and "apdu_parse frame = Ok a" and "apdu_cla a = CLA_INTERINDUSTRY"
    and "apdu_ins a = INS_SELECT" and "apdu_p1 a = SELECT_BY_DF_NAME"
    and "router_command ops N rt frame g1 = (r, rt', g')"
  shows "(\<forall>i. rt_selected rt' = Some i \<longleftrightarrow>
            i < length applets \<and> starts_with (apdu_data a) (op_aid ops (applets ! i)) \<and>
            (\<forall>j < i. \<not> starts_with (apdu_data a) (op_aid ops (applets ! j)))) \<and>
         (rt_selected rt' = None \<longrightarrow> resp_sw r = SW_FILE_NOT_FOUND) \<and>
         \<not> is_pending (rt_chain rt')"
proof -
  have pos: "aid_position ops (rt_applets rt) (apdu_data a) = aid_position ops applets (apdu_data a)"
    using applet.run_position [OF assms(1,2)] by (simp add: router_new_def)
  have "rt_selected rt' = aid_position ops applets (apdu_data a) \<and>
      (aid_position ops applets (apdu_data a) = None \<longrightarrow> resp_sw r = SW_FILE_NOT_FOUND) \<and>
      \<not> is_pending (rt_chain rt')"
    using assms(3-7) pos
    by (auto simp: router_command_def Let_def response_defs split: option.splits prod.splits)
  moreover have "aid_position ops applets (apdu_data a) = Some i \<longleftrightarrow>
      i < length applets \<and> starts_with (apdu_data a) (op_aid ops (applets ! i)) \<and>
      (\<forall>j < i. \<not> starts_with (apdu_data a) (op_aid ops (applets ! j)))" for i
    by (auto simp: aid_position_def find_Some_iff)
  ultimately show ?thesis by auto
qed

theorem router_selects_first_witness:
  "\<not> is_pending (rt_chain ((router_new demo_applets)\<lparr>rt_selected := Some 2\<rparr>)) \<and>
   starts_with AID_OATH (ph_aid (demo_applets ! 2))"
proof -
  have run: "router_run placeholder_ops 2048 [] (router_new demo_applets) () = (router_new demo_applets, ())"
    by simp
  from router_selects_first [OF placeholder.applet_axioms run demo_select_parse _ _ _ demo_select_command]
  show ?thesis by (auto simp: placeholder_ops_def)
qed

text \<open>No selection, no service. While no applet is selected, every well-formed
  interindustry command other than \<open>SELECT\<close>, \<open>GET RESPONSE\<close> included, is answered
  \<open>6985\<close>, and neither an applet, the router nor the random generator changes.\<close>

theorem router_unselected_refuses:
  assumes "router_inv N rt" and "rt_selected rt = None" and "apdu_parse frame = Ok a"
    and "apdu_cla a = CLA_INTERINDUSTRY" and "apdu_ins a \<noteq> INS_SELECT"
  shows "router_command ops N rt frame g = (response_status SW_CONDITIONS_NOT_SATISFIED, rt, g)"
proof -
  have "\<not> is_pending (rt_chain rt)" using assms by (simp add: router_inv_def)
  with assms show ?thesis by (simp add: router_command_def not_pending_get_response)
qed

theorem router_unselected_refuses_witness:
  "router_command placeholder_ops 2048 (router_new demo_applets) [0, 0xC0, 0, 0] () =
     (response_status SW_CONDITIONS_NOT_SATISFIED, router_new demo_applets, ())"
proof (rule router_unselected_refuses [OF router_inv_new])
  show "apdu_parse [0, 0xC0, 0, 0] = Ok \<lparr>apdu_cla = 0, apdu_ins = 0xC0, apdu_p1 = 0, apdu_p2 = 0,
     apdu_data = [], apdu_le = None, apdu_extended = False\<rparr>"
    by (simp add: apdu_parse_def apdu_new_def)
qed (simp_all add: router_new_def)

text \<open>End-to-end delivery. When the selected applet answers a command with success and
  data that fits the response buffer, a host that keeps sending \<open>GET RESPONSE\<close>, with any
  \<open>Le\<close> bytes, until no \<open>61xx\<close> comes back collects exactly that data with \<open>9000\<close>.\<close>

theorem router_delivers_response:
  assumes "rt_selected rt = Some i" and "apdu_parse frame = Ok a"
    and "apdu_cla a = CLA_INTERINDUSTRY"
    and "apdu_ins a \<notin> {INS_SELECT, INS_GET_RESPONSE, INS_SEND_REMAINING}"
    and "op_process ops a (rt_applets rt ! i) g = (\<lparr>resp_data = data, resp_sw = SW_OK\<rparr>, s', g')"
    and "length data \<le> N" and "length data \<le> fuel"
  shows "router_fetch ops N fuel les (router_command ops N rt frame g) = (data, SW_OK)"
proof -
  let ?c = "\<lparr>ch_pending = data, ch_delivered = 0\<rparr>"
  obtain r c where d: "deliver ?c (expected_len a) = (r, c)" by force
  with assms have "router_command ops N rt frame g =
      (r, rt\<lparr>rt_applets := (rt_applets rt)[i := s'], rt_chain := c\<rparr>, g')"
    by (simp add: router_command_def sw_is_success_def chain_begin_fits)
  moreover have "chainer_inv N ?c" "chain_rest ?c = data"
    using assms(6) by (simp_all add: chainer_inv_def chain_rest_def)
  ultimately show ?thesis
    using chain_fetch_deliver [of N ?c fuel _ "expected_len a"] assms(7) d
    by (simp add: router_fetch_chain)
qed

text \<open>An applet that echoes the command data, to exhibit such a response.\<close>

definition echo_ops :: "(unit, unit) AppletOps" where
  "echo_ops = \<lparr>op_aid = (\<lambda>_. []), op_select = default_select,
     op_process = (\<lambda>a s g. (response_ok (apdu_data a), s, g)),
     op_confirm = default_confirm_presence, op_deny = default_deny_presence\<rparr>"

theorem router_delivers_response_witness:
  "router_fetch echo_ops 2048 3 (\<lambda>_. 1)
     (router_command echo_ops 2048 \<lparr>rt_applets = [()], rt_selected = Some 0, rt_chain = chainer_new\<rparr>
        [0, 0x20, 0, 0, 3, 7, 8, 9, 1] ()) = ([7, 8, 9], SW_OK)"
proof (rule router_delivers_response)
  show "apdu_parse [0, 0x20, 0, 0, 3, 7, 8, 9, 1] = Ok \<lparr>apdu_cla = 0, apdu_ins = 0x20, apdu_p1 = 0,
     apdu_p2 = 0, apdu_data = [7, 8, 9], apdu_le = Some 1, apdu_extended = False\<rparr>"
    by (simp add: apdu_parse_def apdu_new_def normalise_def Let_def)
qed (simp_all add: echo_ops_def response_defs)

end
