(* ===== verification/Card.thy ===== *)
theory Card
  imports Router Ccid
begin

text \<open>
  The card front end, \<open>crates/aegis-applets/src/card.rs\<close>: a CCID assembler driving the
  router, with the power state and the pending user-presence request. \<open>R\<close> and \<open>M\<close> are the
  const generics \<open>RESPONSE\<close> and \<open>MESSAGE\<close>. The output buffer is passed in and returned.
\<close>

definition ATR :: bytes where
  "ATR = [0x3B, 0x00]"

datatype Outcome = ResponseReady nat | PresenceRequired

record 's Card =
  cd_assembler :: Assembler
  cd_router :: "'s Router"
  cd_powered :: bool
  cd_pending_sequence :: "u8 option"

datatype FrameOutcome = Encoded nat | FramePresenceRequired u8

definition card_new :: "'s list \<Rightarrow> 's Card" where
  "card_new applets = \<lparr>cd_assembler = assembler_new, cd_router = router_new applets,
     cd_powered = False, cd_pending_sequence = None\<rparr>"

definition card_feed :: "nat \<Rightarrow> 's Card \<Rightarrow> bytes \<Rightarrow> (unit, CcidError) result \<times> 's Card" where
  "card_feed M self chunk =
     (let (r, a) = assembler_feed M (cd_assembler self) chunk in (r, self\<lparr>cd_assembler := a\<rparr>))"

definition encode_data_block :: "u8 \<Rightarrow> Response \<Rightarrow> bytes \<Rightarrow> (nat, CcidError) result \<times> bytes" where
  "encode_data_block sq response out =
     (if length out < HEADER_LEN then (Err CcidOverflow, out)
      else case response_encode_into response (drop HEADER_LEN out) of
             None \<Rightarrow> (Err CcidOverflow, out)
           | Some (encoded, tail) \<Rightarrow>
               (case write_data_block_header sq encoded (take HEADER_LEN out @ tail) of
                  (Err e, out) \<Rightarrow> (Err e, out)
                | (Ok _, out) \<Rightarrow> (Ok (HEADER_LEN + encoded), out)))"

definition as_encoded :: "(nat, CcidError) result \<Rightarrow> (FrameOutcome, CcidError) result" where
  "as_encoded r = and_then r (\<lambda>n. Ok (Encoded n))"

definition handle_frame ::
  "('s, 'g) AppletOps \<Rightarrow> nat \<Rightarrow> bytes \<Rightarrow> 's Router \<Rightarrow> bool \<Rightarrow> 'g \<Rightarrow> bytes \<Rightarrow>
     (FrameOutcome, CcidError) result \<times> 's Router \<times> bool \<times> 'g \<times> bytes" where
  "handle_frame ops R frame router powered rng out =
     (let reply = (\<lambda>response router powered.
            let (r, out) = ccid_encode_into response out
            in (as_encoded r, router, powered, rng, out))
      in case request_parse frame of
           Err _ \<Rightarrow>
             let sq = (if 6 < length frame then frame ! 6 else 0)
             in reply (slot_status_failed sq) router powered
         | Ok request \<Rightarrow>
             if request_slot request \<noteq> 0
             then reply (slot_status_failed (request_sequence request)) router powered
             else case request of
               IccPowerOn _ sq _ \<Rightarrow> reply (data_block sq ATR) (router_reset router) True
             | IccPowerOff _ sq \<Rightarrow>
                 reply (slot_status sq ICC_STATUS_INACTIVE) (router_reset router) False
             | GetSlotStatus _ sq \<Rightarrow>
                 reply (slot_status sq (if powered then ICC_STATUS_ACTIVE else ICC_STATUS_INACTIVE))
                   router powered
             | SetParameters _ sq protocol data \<Rightarrow>
                 if protocol = PROTOCOL_T0
                 then reply (parameters sq PROTOCOL_T0 data) router powered
                 else reply (parameters_failed sq) router powered
             | GetParameters _ sq \<Rightarrow>
                 reply (parameters sq PROTOCOL_T0 T0_PARAMETERS) router powered
             | ResetParameters _ sq \<Rightarrow>
                 reply (parameters sq PROTOCOL_T0 T0_PARAMETERS) router powered
             | SetDataRateAndClock _ sq data \<Rightarrow> reply (data_rate_and_clock sq data) router powered
             | XfrBlock _ sq _ _ data \<Rightarrow>
                 if \<not> powered then reply (data_block_failed sq) router powered
                 else let (response, router, rng) = router_command ops R router data rng
                      in if resp_sw response = SW_PRESENCE_REQUIRED
                         then (Ok (FramePresenceRequired sq), router, powered, rng, out)
                         else let (r, out) = encode_data_block sq response out
                              in (as_encoded r, router, powered, rng, out)
             | Escape _ sq _ \<Rightarrow> reply (data_block_failed sq) router powered
             | Abort _ sq \<Rightarrow>
                 reply (slot_status sq (if powered then ICC_STATUS_ACTIVE else ICC_STATUS_INACTIVE))
                   (router_reset router) powered)"

definition card_poll ::
  "('s, 'g) AppletOps \<Rightarrow> nat \<Rightarrow> nat \<Rightarrow> 's Card \<Rightarrow> 'g \<Rightarrow> bytes \<Rightarrow>
     (Outcome option, CcidError) result \<times> 's Card \<times> 'g \<times> bytes" where
  "card_poll ops R M self rng out =
     (if cd_pending_sequence self \<noteq> None then (Ok None, self, rng, out)
      else case assembler_pending M (cd_assembler self) of
             Err e \<Rightarrow> (Err e, self, rng, out)
           | Ok None \<Rightarrow> (Ok None, self, rng, out)
           | Ok (Some frame) \<Rightarrow>
               let (result, router, powered, rng, out) =
                     handle_frame ops R frame (cd_router self) (cd_powered self) rng out;
                   self = self\<lparr>cd_assembler := assembler_consume (cd_assembler self) (length frame),
                               cd_router := router, cd_powered := powered\<rparr>
               in case result of
                    Err e \<Rightarrow> (Err e, self, rng, out)
                  | Ok (Encoded len) \<Rightarrow> (Ok (Some (ResponseReady len)), self, rng, out)
                  | Ok (FramePresenceRequired sq) \<Rightarrow>
                      (Ok (Some PresenceRequired), self\<lparr>cd_pending_sequence := Some sq\<rparr>, rng, out))"

definition complete_presence ::
  "('s, 'g) AppletOps \<Rightarrow> 's Card \<Rightarrow> bool \<Rightarrow> 'g \<Rightarrow> bytes \<Rightarrow>
     (nat option, CcidError) result \<times> 's Card \<times> 'g \<times> bytes" where
  "complete_presence ops self confirmed rng out =
     (case cd_pending_sequence self of
        None \<Rightarrow> (Ok None, self, rng, out)
      | Some sq \<Rightarrow>
          let (response, router, rng) =
                (if confirmed then router_confirm_presence ops (cd_router self) rng
                 else let (response, router) = router_deny_presence ops (cd_router self)
                      in (response, router, rng));
              (r, out) = encode_data_block sq response out
          in (and_then r (\<lambda>n. Ok (Some n)),
              self\<lparr>cd_router := router, cd_pending_sequence := None\<rparr>, rng, out))"

definition card_reset :: "'s Card \<Rightarrow> 's Card" where
  "card_reset self = self\<lparr>cd_assembler := assembler_reset (cd_assembler self),
     cd_router := router_reset (cd_router self), cd_powered := False, cd_pending_sequence := None\<rparr>"

section \<open>Encoded replies\<close>

lemma encode_data_block_eq:
  assumes "HEADER_LEN + length (resp_data r) + 2 \<le> length out"
  shows "encode_data_block sq r out = (Ok (HEADER_LEN + length (resp_data r) + 2),
     ccid_frame RDR_TO_PC_DATA_BLOCK 0 sq [STATUS_OK, ERROR_NONE, 0]
       (resp_data r @ sw_bytes (resp_sw r)) @
     drop (HEADER_LEN + length (resp_data r) + 2) out)"
proof -
  have sw: "length (sw_bytes (resp_sw r)) = 2" by (cases "resp_sw r") simp
  let ?d = "resp_data r @ sw_bytes (resp_sw r)"
  have tail: "response_encode_into r (drop HEADER_LEN out) =
      Some (length (resp_data r) + 2, ?d @ drop (length ?d) (drop HEADER_LEN out))"
    using assms sw by (simp add: response_encode_into_def Let_def add.commute)
  let ?o = "take HEADER_LEN out @ ?d @ drop (length ?d) (drop HEADER_LEN out)"
  have "HEADER_LEN \<le> length ?o" "length ?o = length out" "drop HEADER_LEN ?o =
      ?d @ drop (HEADER_LEN + length ?d) out"
    using assms sw by (simp_all add: add.commute)
  then show ?thesis
    using assms sw tail write_header_into_eq [of ?o]
    by (simp add: encode_data_block_def write_data_block_header_def ccid_frame_def add.assoc)
qed

lemma encode_data_block_overflow:
  assumes "length out < HEADER_LEN + length (resp_data r) + 2"
  shows "encode_data_block sq r out = (Err CcidOverflow, out)"
proof -
  have "length (sw_bytes (resp_sw r)) = 2" by (cases "resp_sw r") simp
  with assms show ?thesis by (auto simp: encode_data_block_def response_encode_into_def Let_def)
qed

section \<open>What one frame does\<close>

lemma apdu_parse_ErrD: "apdu_parse f = Err sw \<Longrightarrow> sw = SW_WRONG_LENGTH"
  by (auto simp: apdu_parse_def Let_def split: if_splits)

lemma presence_needs_selection:
  assumes "router_inv R rt" and "router_command ops R rt frame g = (r, rt', g')"
    and "resp_sw r = SW_PRESENCE_REQUIRED"
  shows "rt_selected rt' \<noteq> None"
proof
  assume none: "rt_selected rt' = None"
  show False
    using assms none
    by (auto simp: router_command_def Let_def response_defs router_inv_def
        not_pending_get_response dest!: apdu_parse_ErrD
        split: result.splits if_splits option.splits prod.splits)
qed

lemma request_sequence_nth:
  assumes "request_parse frame = Ok r"
  shows "request_sequence r = frame ! 6" and "HEADER_LEN \<le> length frame"
proof -
  from assms obtain h where h: "header_parse frame = Ok h"
    by (auto simp: request_parse_def and_then_Ok_iff)
  then show "HEADER_LEN \<le> length frame" by (simp add: header_parse_def split: if_splits)
  have "hdr_sequence h = frame ! 6" using h by (auto simp: header_parse_def Let_def split: if_splits)
  with assms h show "request_sequence r = frame ! 6"
    by (auto simp: request_parse_def Let_def if_Ok_iff)
qed

text \<open>A reply in the output buffer: a complete CCID frame that echoes the sequence.\<close>

definition reply_in :: "u8 \<Rightarrow> nat \<Rightarrow> bytes \<Rightarrow> bool" where
  "reply_in sq n out \<longleftrightarrow> HEADER_LEN \<le> n \<and> n \<le> length out \<and> out ! 6 = sq \<and> out ! 5 = 0 \<and>
     (n < 2 ^ 32 \<longrightarrow> unat (declared_length out) + HEADER_LEN = n)"

lemma reply_in_frame:
  assumes "length specific = 3" and "n = HEADER_LEN + length payload"
  shows "reply_in sq n (ccid_frame ty 0 sq specific payload @ rest)"
proof -
  note f = ccid_frame_fields [OF assms(1), of ty 0 sq payload]
  have len: "length (ccid_frame ty 0 sq specific payload) = n" using assms by simp
  then have "(ccid_frame ty 0 sq specific payload @ rest) ! 6 = sq"
    "(ccid_frame ty 0 sq specific payload @ rest) ! 5 = 0"
    using f(2,3) assms(2) by (simp_all add: nth_append)
  with len f(6) assms(2) show ?thesis by (simp add: reply_in_def)
qed

lemma ccid_encode_into_reply:
  assumes "ccid_encode_into r out = (Ok n, out')" and "cr_sequence r = sq"
  shows "reply_in sq n out' \<and> length out' = length out"
proof -
  from assms have fits: "HEADER_LEN + length (cr_data r) \<le> length out"
    by (auto simp: ccid_encode_into_def Let_def split: if_splits)
  from ccid_encode_into_eq [OF this] assms
  have "n = HEADER_LEN + length (cr_data r)" and out': "out' = ccid_frame (cr_message_type r) 0 sq
       [cr_status r, cr_error r, cr_specific r ! 0] (cr_data r) @
       drop (HEADER_LEN + length (cr_data r)) out" by simp_all
  with fits show ?thesis by (simp add: reply_in_frame)
qed

lemma encode_data_block_reply:
  assumes "encode_data_block sq r out = (Ok n, out')"
  shows "reply_in sq n out' \<and> length out' = length out"
proof -
  have sw: "length (sw_bytes (resp_sw r)) = 2" by (cases "resp_sw r") simp
  from assms encode_data_block_overflow [of out r sq]
  have fits: "HEADER_LEN + length (resp_data r) + 2 \<le> length out" by (cases "HEADER_LEN + length (resp_data r) + 2 \<le> length out") auto
  from encode_data_block_eq [OF this, of sq] assms sw fits show ?thesis
    by (auto simp: reply_in_frame)
qed

lemmas reply_defs = data_block_def data_block_failed_def slot_status_def slot_status_failed_def
  parameters_def parameters_failed_def data_rate_and_clock_def

lemma reply_sequences [simp]:
  "cr_sequence (data_block sq d) = sq" "cr_sequence (data_block_failed sq) = sq"
  "cr_sequence (slot_status sq st) = sq" "cr_sequence (slot_status_failed sq) = sq"
  "cr_sequence (parameters sq pr d) = sq" "cr_sequence (parameters_failed sq) = sq"
  "cr_sequence (data_rate_and_clock sq d) = sq"
  by (simp_all add: reply_defs)

definition fixed_reply ::
  "u8 \<Rightarrow> 's Router \<Rightarrow> 'g \<Rightarrow> bytes \<Rightarrow>
     (FrameOutcome, CcidError) result \<times> 's Router \<times> bool \<times> 'g \<times> bytes \<Rightarrow> bool" where
  "fixed_reply sq rt g out t \<longleftrightarrow>
     (\<exists>resp rt1 p1. cr_sequence resp = sq \<and> (rt1 = rt \<or> rt1 = router_reset rt) \<and>
        t = (as_encoded (fst (ccid_encode_into resp out)), rt1, p1, g,
             snd (ccid_encode_into resp out)))"

lemma fixed_replyI:
  "cr_sequence resp = sq \<Longrightarrow> rt1 = rt \<or> rt1 = router_reset rt \<Longrightarrow>
   fixed_reply sq rt g out
     (as_encoded (fst (ccid_encode_into resp out)), rt1, p1, g, snd (ccid_encode_into resp out))"
  by (auto simp: fixed_reply_def)

text \<open>Either the frame is an APDU exchange on a powered card, or it is answered by a fixed
  reply that reaches no applet.\<close>

lemma handle_frame_cases [consumes 1, case_names reply exchange]:
  assumes "HEADER_LEN \<le> length frame"
  obtains (reply) resp rt1 p1 where "cr_sequence resp = frame ! 6"
      and "rt1 = rt \<or> rt1 = router_reset rt"
      and "handle_frame ops R frame rt p g out =
        (as_encoded (fst (ccid_encode_into resp out)), rt1, p1, g, snd (ccid_encode_into resp out))"
  | (exchange) slot bwi lvl data where
      "request_parse frame = Ok (XfrBlock slot (frame ! 6) bwi lvl data)" and "slot = 0" and p
      and "handle_frame ops R frame rt p g out =
        (let (response, router, rng) = router_command ops R rt data g
         in if resp_sw response = SW_PRESENCE_REQUIRED
            then (Ok (FramePresenceRequired (frame ! 6)), router, True, rng, out)
            else let (r, out) = encode_data_block (frame ! 6) response out
                 in (as_encoded r, router, True, rng, out))"
proof (cases "request_parse frame")
  case (Err e)
  then have "handle_frame ops R frame rt p g out =
     (as_encoded (fst (ccid_encode_into (slot_status_failed (frame ! 6)) out)), rt, p, g,
      snd (ccid_encode_into (slot_status_failed (frame ! 6)) out))"
    using assms by (simp add: handle_frame_def case_prod_unfold Let_def)
  then show thesis by (rule reply [rotated 2]) (simp_all add: slot_status_failed_def)
next
  case (Ok r)
  note sq = request_sequence_nth(1) [OF Ok]
  show thesis
  proof (cases "request_slot r = 0")
    case False
    then have "handle_frame ops R frame rt p g out =
       (as_encoded (fst (ccid_encode_into (slot_status_failed (frame ! 6)) out)), rt, p, g,
        snd (ccid_encode_into (slot_status_failed (frame ! 6)) out))"
      using Ok sq by (simp add: handle_frame_def case_prod_unfold Let_def)
    then show thesis by (rule reply [rotated 2]) (simp_all add: slot_status_failed_def)
  next
    case True
    show thesis
    proof (cases "p \<and> (\<exists>slot sq bwi lvl data. r = XfrBlock slot sq bwi lvl data)")
      case xfr: True
      then obtain slot sq' bwi lvl data where r: "r = XfrBlock slot sq' bwi lvl data" and "p" by blast
      with sq True have "sq' = frame ! 6" "slot = 0" by simp_all
      with r \<open>p\<close> Ok show thesis
        by (intro exchange [of slot bwi lvl data]) (simp_all add: handle_frame_def Let_def)
    next
      case False
      have "fixed_reply (frame ! 6) rt g out (handle_frame ops R frame rt p g out)"
        using Ok sq True False
        by (cases r) (simp_all add: handle_frame_def case_prod_unfold Let_def fixed_replyI)
      then show thesis using reply by (auto simp: fixed_reply_def)
    qed
  qed
qed

lemma handle_frame_spec:
  assumes inv: "router_inv R rt" and len: "HEADER_LEN \<le> length frame"
    and h: "handle_frame ops R frame rt p g out = (res, rt', p', g', out')"
  shows "router_inv R rt' \<and>
    (\<forall>n. res = Ok (Encoded n) \<longrightarrow> reply_in (frame ! 6) n out') \<and>
    (\<forall>sq. res = Ok (FramePresenceRequired sq) \<longrightarrow>
       sq = frame ! 6 \<and> p \<and> p' \<and> rt_selected rt' \<noteq> None \<and> out' = out) \<and>
    (\<not> p \<longrightarrow> rt_applets rt' = rt_applets rt \<and> g' = g)"
  using len
proof (cases rule: handle_frame_cases [of frame rt ops R p g out])
  case (reply resp rt1 p1)
  obtain e o' where e: "ccid_encode_into resp out = (e, o')" by force
  with reply h have "rt' = rt1" "res = as_encoded e" "g' = g" "out' = o'" by simp_all
  moreover have "reply_in (frame ! 6) n o'" if "e = Ok n" for n
    using ccid_encode_into_reply [of resp out n o'] that e reply(1) by simp
  moreover have "router_inv R rt1" using inv reply(2) by auto
  moreover have "rt_applets rt1 = rt_applets rt" using reply(2) by (auto simp: router_reset_def)
  ultimately show ?thesis by (auto simp: as_encoded_def and_then_Ok_iff)
next
  case (exchange slot bwi lvl data)
  obtain r rt1 g1 where c: "router_command ops R rt data g = (r, rt1, g1)" by (metis prod_cases3)
  note kept = router_command_kept [OF inv c]
  show ?thesis
  proof (cases "resp_sw r = SW_PRESENCE_REQUIRED")
    case True
    with exchange h c have "res = Ok (FramePresenceRequired (frame ! 6))" "rt' = rt1" "p'" "out' = out"
      by auto
    with exchange(3) kept presence_needs_selection [OF inv c True] show ?thesis by simp
  next
    case False
    obtain e o' where e: "encode_data_block (frame ! 6) r out = (e, o')" by force
    with False exchange h c have "res = as_encoded e" "rt' = rt1" "out' = o'" by auto
    moreover have "reply_in (frame ! 6) n o'" if "e = Ok n" for n
      using encode_data_block_reply [of "frame ! 6" r out n o'] that e by simp
    ultimately show ?thesis using exchange(3) kept by (auto simp: as_encoded_def and_then_Ok_iff)
  qed
qed

section \<open>The card's invariant\<close>

text \<open>The buffer is within the message size, the router is well formed, and a presence
  request is pending only on a powered card with a selected applet.\<close>

definition card_inv :: "nat \<Rightarrow> nat \<Rightarrow> 's Card \<Rightarrow> bool" where
  "card_inv R M c \<longleftrightarrow> length (as_buffer (cd_assembler c)) \<le> M \<and> router_inv R (cd_router c) \<and>
     (cd_pending_sequence c \<noteq> None \<longrightarrow> cd_powered c \<and> is_selected (cd_router c))"

lemma assembler_pending_length:
  "assembler_pending M a = Ok (Some frame) \<Longrightarrow> HEADER_LEN \<le> length frame"
  by (auto simp: assembler_pending_def Let_def split: if_splits)

lemma length_consume: "length (as_buffer (assembler_consume a n)) \<le> length (as_buffer a)"
  by (simp add: assembler_consume_def)

lemma card_inv_new: "card_inv R M (card_new applets)"
  by (simp add: card_inv_def card_new_def assembler_new_def)

lemma card_inv_reset: "card_inv R M (card_reset c)"
  by (simp add: card_inv_def card_reset_def assembler_reset_def)

lemma card_inv_feed: "card_inv R M c \<Longrightarrow> card_inv R M (snd (card_feed M c chunk))"
  by (auto simp: card_inv_def card_feed_def assembler_feed_def)

lemma card_poll_cases [consumes 1, case_names idle frame]:
  assumes "card_poll ops R M c g out = (res, c', g', out')"
  obtains (idle) "c' = c" "g' = g" "out' = out" "\<forall>x. res \<noteq> Ok (Some x)"
  | (frame) frame hres rt p where "cd_pending_sequence c = None"
      "assembler_pending M (cd_assembler c) = Ok (Some frame)"
      "handle_frame ops R frame (cd_router c) (cd_powered c) g out = (hres, rt, p, g', out')"
      "c' = c\<lparr>cd_assembler := assembler_consume (cd_assembler c) (length frame), cd_router := rt,
              cd_powered := p, cd_pending_sequence :=
                (case hres of Ok (FramePresenceRequired sq) \<Rightarrow> Some sq | _ \<Rightarrow> None)\<rparr>"
      "res = (case hres of Err e \<Rightarrow> Err e | Ok (Encoded n) \<Rightarrow> Ok (Some (ResponseReady n))
              | Ok (FramePresenceRequired sq) \<Rightarrow> Ok (Some PresenceRequired))"
  using assms
  by (cases c) (auto simp: card_poll_def Let_def split: if_splits result.splits option.splits
      prod.splits FrameOutcome.splits)

lemma card_inv_poll:
  assumes inv: "card_inv R M c" and "card_poll ops R M c g out = (res, c', g', out')"
  shows "card_inv R M c'"
  using assms(2)
proof (cases rule: card_poll_cases)
  case idle
  with inv show ?thesis by simp
next
  case (frame frame hres rt p)
  have "router_inv R (cd_router c)" using inv by (simp add: card_inv_def)
  from handle_frame_spec [OF this assembler_pending_length [OF frame(2)] frame(3)]
  show ?thesis
    using inv frame length_consume [of "cd_assembler c" "length frame"]
    by (auto simp: card_inv_def is_selected_def split: result.splits FrameOutcome.splits)
qed

lemma confirm_kept:
  "router_confirm_presence ops rt g = (r, rt', g') \<Longrightarrow>
     rt_selected rt' = rt_selected rt \<and> rt_chain rt' = rt_chain rt \<and> others_kept rt rt'"
  by (auto simp: router_confirm_presence_def Let_def split: option.splits prod.splits)

lemma deny_kept:
  "router_deny_presence ops rt = (r, rt') \<Longrightarrow>
     rt_selected rt' = rt_selected rt \<and> rt_chain rt' = rt_chain rt \<and> others_kept rt rt'"
  by (auto simp: router_deny_presence_def Let_def split: option.splits prod.splits)

text \<open>Completing a presence request answers with its sequence and only reaches the selected
  applet.\<close>

lemma complete_presence_spec:
  assumes "complete_presence ops c confirmed g out = (res, c', g', out')"
    and "cd_pending_sequence c = Some sq"
  shows "cd_pending_sequence c' = None \<and> cd_powered c' = cd_powered c \<and>
    cd_assembler c' = cd_assembler c \<and>
    rt_selected (cd_router c') = rt_selected (cd_router c) \<and>
    rt_chain (cd_router c') = rt_chain (cd_router c) \<and>
    others_kept (cd_router c) (cd_router c') \<and>
    (\<forall>n. res = Ok (Some n) \<longrightarrow> reply_in sq n out')"
  using assms
  by (auto simp: complete_presence_def Let_def and_then_Ok_iff
      dest: confirm_kept deny_kept encode_data_block_reply split: if_splits prod.splits)

lemma card_inv_complete:
  assumes inv: "card_inv R M c" and c: "complete_presence ops c confirmed g out = (res, c', g', out')"
  shows "card_inv R M c'"
proof (cases "cd_pending_sequence c")
  case None
  with c inv show ?thesis by (simp add: complete_presence_def)
next
  case (Some sq)
  with complete_presence_spec [OF c] inv show ?thesis
    by (auto simp: card_inv_def router_inv_def others_kept_def split: option.splits)
qed

section \<open>Runs of the card\<close>

text \<open>Everything the firmware's CCID task can do with a card, in any order, with any
  entropy and any output buffers.\<close>

inductive card_reachable :: "('s, 'g) AppletOps \<Rightarrow> nat \<Rightarrow> nat \<Rightarrow> 's list \<Rightarrow> 's Card \<Rightarrow> bool"
  for ops R M applets where
  cr_new: "card_reachable ops R M applets (card_new applets)"
| cr_feed: "card_reachable ops R M applets c \<Longrightarrow>
    card_reachable ops R M applets (snd (card_feed M c chunk))"
| cr_poll: "card_reachable ops R M applets c \<Longrightarrow> card_poll ops R M c g out = (res, c', g', out') \<Longrightarrow>
    card_reachable ops R M applets c'"
| cr_complete: "card_reachable ops R M applets c \<Longrightarrow>
    complete_presence ops c confirmed g out = (res, c', g', out') \<Longrightarrow>
    card_reachable ops R M applets c'"
| cr_reset: "card_reachable ops R M applets c \<Longrightarrow> card_reachable ops R M applets (card_reset c)"

lemma card_reachable_inv: "card_reachable ops R M applets c \<Longrightarrow> card_inv R M c"
  by (induction rule: card_reachable.induct)
     (auto intro: card_inv_new card_inv_feed card_inv_poll card_inv_complete card_inv_reset)

section \<open>Properties\<close>

text \<open>C26: power gating. In every state the firmware can drive the card to, as long as the
  host has not powered it on, handling a message, whatever its bytes, changes no applet's
  state, draws no randomness and never asks for user presence.\<close>

theorem card_power_gate:
  assumes "card_reachable ops R M applets c" and "\<not> cd_powered c"
    and "card_poll ops R M c g out = (res, c', g', out')"
  shows "rt_applets (cd_router c') = rt_applets (cd_router c) \<and> g' = g \<and>
    res \<noteq> Ok (Some PresenceRequired)"
proof -
  note inv = card_reachable_inv [OF assms(1)]
  from assms(3) show ?thesis
  proof (cases rule: card_poll_cases)
    case idle
    then show ?thesis by simp
  next
    case (frame frame hres rt p)
    have "router_inv R (cd_router c)" using inv by (simp add: card_inv_def)
    from handle_frame_spec [OF this assembler_pending_length [OF frame(2)] frame(3)] frame assms(2)
    show ?thesis by (auto split: result.splits FrameOutcome.splits)
  qed
qed

definition demo_card :: "Placeholder Card" where
  "demo_card = snd (card_feed 2100 (card_new demo_applets) [0x6F, 4, 0, 0, 0, 0, 7, 0, 0, 0, 0, 0xCB, 0, 0])"

lemma demo_card_reachable: "card_reachable placeholder_ops 2048 2100 demo_applets demo_card"
  unfolding demo_card_def by (intro card_reachable.intros)

lemma demo_card_fields [simp]:
  "cd_powered demo_card = False" "cd_router demo_card = router_new demo_applets"
  "cd_pending_sequence demo_card = None"
  "cd_assembler demo_card = \<lparr>as_buffer = [0x6F, 4, 0, 0, 0, 0, 7, 0, 0, 0, 0, 0xCB, 0, 0]\<rparr>"
  by (simp_all add: demo_card_def card_feed_def card_new_def assembler_feed_def assembler_new_def)

theorem card_power_gate_witness:
  "rt_applets (cd_router (fst (snd (card_poll placeholder_ops 2048 2100 demo_card () (replicate 64 0))))) =
     demo_applets"
proof -
  obtain res c' g' out' where
    "card_poll placeholder_ops 2048 2100 demo_card () (replicate 64 0) = (res, c', g', out')"
    by (metis prod_cases4)
  with card_power_gate [OF demo_card_reachable _ this] show ?thesis by (simp add: router_new_def)
qed

text \<open>C27: a pending presence request. In every reachable state with one pending, the card is
  powered and an applet selected; polling handles no further message and changes nothing;
  completing it ends it, answers with the sequence number of the command that asked, leaves
  every applet but the selected one alone, and a second completion does nothing.\<close>

theorem card_presence_exclusive:
  assumes "card_reachable ops R M applets c" and "cd_pending_sequence c = Some sq"
    and "complete_presence ops c confirmed g out = (res, c', g', out')"
  shows "cd_powered c \<and> is_selected (cd_router c) \<and>
    card_poll ops R M c g out = (Ok None, c, g, out) \<and>
    cd_pending_sequence c' = None \<and>
    (\<forall>n. res = Ok (Some n) \<longrightarrow> reply_in sq n out') \<and>
    others_kept (cd_router c) (cd_router c') \<and>
    complete_presence ops c' again g' out' = (Ok None, c', g', out')"
  using card_reachable_inv [OF assms(1)] assms(2) complete_presence_spec [OF assms(3,2)]
  by (simp add: card_inv_def card_poll_def complete_presence_def)

text \<open>An applet that asks for presence on every command.\<close>

definition touch_ops :: "(unit, unit) AppletOps" where
  "touch_ops = \<lparr>op_aid = (\<lambda>_. [0xF0]), op_select = default_select,
     op_process = (\<lambda>a s g. (presence_required, s, g)),
     op_confirm = (\<lambda>s g. (response_ok [1], s, g)), op_deny = default_deny_presence\<rparr>"

definition demo_stream :: "bytes list" where
  "demo_stream = [[0x62, 0, 0, 0, 0, 0, 1, 0, 0, 0],
     [0x6F, 6, 0, 0, 0, 0, 2, 0, 0, 0, 0, 0xA4, 4, 0, 1, 0xF0],
     [0x6F, 4, 0, 0, 0, 0, 3, 0, 0, 0, 0, 0x20, 0, 0]]"

fun card_serve :: "('s, unit) AppletOps \<Rightarrow> 's Card \<Rightarrow> bytes list \<Rightarrow> 's Card" where
  "card_serve ops c [] = c"
| "card_serve ops c (p # ps) =
     card_serve ops (fst (snd (card_poll ops 2048 2100 (snd (card_feed 2100 c p)) () (replicate 32 0)))) ps"

lemma card_serve_reachable:
  "card_reachable ops 2048 2100 applets c \<Longrightarrow> card_reachable ops 2048 2100 applets (card_serve ops c ps)"
proof (induction ps arbitrary: c)
  case (Cons p ps)
  obtain res c' g' out' where
    "card_poll ops 2048 2100 (snd (card_feed 2100 c p)) () (replicate 32 0) = (res, c', g', out')"
    by (metis prod_cases4)
  with Cons cr_poll [OF cr_feed [OF Cons.prems]] show ?case by simp
qed simp

lemma demo_touch_pending: "cd_pending_sequence (card_serve touch_ops (card_new [()]) demo_stream) = Some 3"
  by code_simp

theorem card_presence_exclusive_witness:
  "is_selected (cd_router (card_serve touch_ops (card_new [()]) demo_stream))"
proof -
  let ?c = "card_serve touch_ops (card_new [()]) demo_stream"
  obtain res c' g' out' where "complete_presence touch_ops ?c True () (replicate 32 0) = (res, c', g', out')"
    by (metis prod_cases4)
  with card_presence_exclusive [OF card_serve_reachable [OF cr_new] demo_touch_pending this] show ?thesis
    by simp
qed

text \<open>C38: an APDU exchange, from bulk packet to bulk packet. On a powered, idle card, feeding
  the \<open>XfrBlock\<close> of any command and polling runs the router once on that command and
  leaves in the output buffer exactly the data block with its response data and status,
  under the sequence number of the request, or, when the applet asks for presence, keeps
  that sequence pending and the buffer untouched; the message is consumed either way.\<close>

theorem card_apdu_exchange:
  assumes "cd_powered c" and "cd_pending_sequence c = None" and "as_buffer (cd_assembler c) = []"
    and "HEADER_LEN + length data \<le> M" and "length data < 2 ^ 32"
    and "router_command ops R (cd_router c) data g = (r, rt', g')"
    and "HEADER_LEN + length (resp_data r) + 2 \<le> length out"
  shows "card_poll ops R M (snd (card_feed M c (ccid_frame 0x6F 0 sq [b, l1, l2] data))) g out =
    (let c' = c\<lparr>cd_router := rt'\<rparr>
     in if resp_sw r = SW_PRESENCE_REQUIRED
        then (Ok (Some PresenceRequired), c'\<lparr>cd_pending_sequence := Some sq\<rparr>, g', out)
        else (Ok (Some (ResponseReady (HEADER_LEN + length (resp_data r) + 2))), c', g',
              ccid_frame 0x80 0 sq [0, 0, 0] (resp_data r @ sw_bytes (resp_sw r)) @
              drop (HEADER_LEN + length (resp_data r) + 2) out))"
proof -
  let ?f = "ccid_frame 0x6F 0 sq [b, l1, l2] data"
  have len: "length ?f = HEADER_LEN + length data" by simp
  then have fed: "snd (card_feed M c ?f) = c\<lparr>cd_assembler := \<lparr>as_buffer = ?f\<rparr>\<rparr>"
    using assms(3,4) by (cases c; cases "cd_assembler c") (simp add: card_feed_def assembler_feed_def)
  have "declared_length ?f = of_nat (length data)"
    using ccid_frame_fields(6) [of "[b, l1, l2]" "0x6F" 0 sq data "[]"] by simp
  with len assms(4,5) have "complete_frame M ?f" by (simp add: complete_frame_def)
  from pending_complete [OF this, of "[]"] have pend: "assembler_pending M \<lparr>as_buffer = ?f\<rparr> = Ok (Some ?f)"
    by simp
  have req: "request_parse ?f = Ok (XfrBlock 0 sq b (push_bit 8 (ucast l2) OR ucast l1) data)"
    using request_parse_frame [OF assms(5), of "0x6F" 0 sq b l1 l2] by simp
  have "assembler_consume \<lparr>as_buffer = ?f\<rparr> (length ?f) = cd_assembler c"
    using assms(3) by (cases "cd_assembler c") (simp add: assembler_consume_def)
  then show ?thesis
    using assms fed pend req encode_data_block_eq [OF assms(7), of sq]
    by (cases c) (simp add: card_poll_def handle_frame_def as_encoded_def Let_def)
qed

theorem card_apdu_exchange_witness:
  "card_poll placeholder_ops 2048 2100
     (snd (card_feed 2100 ((card_new demo_applets)\<lparr>cd_powered := True\<rparr>)
        (ccid_frame 0x6F 0 9 [0, 0, 0] demo_select))) () (replicate 12 0) =
   (Ok (Some (ResponseReady 12)),
    (card_new demo_applets)\<lparr>cd_powered := True,
       cd_router := (router_new demo_applets)\<lparr>rt_selected := Some 2\<rparr>\<rparr>, (),
    ccid_frame 0x80 0 9 [0, 0, 0] [0x90, 0x00])"
proof -
  have c: "router_command placeholder_ops 2048 (cd_router ((card_new demo_applets)\<lparr>cd_powered := True\<rparr>))
      demo_select () = (response_ok [], (router_new demo_applets)\<lparr>rt_selected := Some 2\<rparr>, ())"
    using demo_select_command by (simp add: card_new_def)
  have "card_poll placeholder_ops 2048 2100
     (snd (card_feed 2100 ((card_new demo_applets)\<lparr>cd_powered := True\<rparr>)
        (ccid_frame 0x6F 0 9 [0, 0, 0] demo_select))) () (replicate 12 0) =
   (Ok (Some (ResponseReady 12)),
    (card_new demo_applets)\<lparr>cd_powered := True,
       cd_router := (router_new demo_applets)\<lparr>rt_selected := Some 2\<rparr>\<rparr>, (),
    ccid_frame 0x80 0 9 [0, 0, 0] (sw_bytes SW_OK))"
    using card_apdu_exchange [OF _ _ _ _ _ c, where M = 2100 and out = "replicate 12 0" and sq = 9
      and b = 0 and ?l1.0 = 0 and ?l2.0 = 0]
    by (simp add: card_new_def assembler_new_def response_defs demo_select_def AID_OATH_def
        del: sw_bytes.simps)
  moreover have "sw_bytes SW_OK = [0x90, 0x00]" by code_simp
  ultimately show ?thesis by (simp only:)
qed

text \<open>Every message is answered in kind. Whenever polling reports a response, in any
  reachable state, the output buffer holds a complete CCID message of the reported length
  that echoes the sequence number of the message it consumed, for malformed and
  unsupported messages too.\<close>

theorem card_reply_echoes:
  assumes "card_reachable ops R M applets c"
    and "card_poll ops R M c g out = (Ok (Some (ResponseReady n)), c', g', out')"
  shows "\<exists>frame. assembler_pending M (cd_assembler c) = Ok (Some frame) \<and>
    cd_assembler c' = assembler_consume (cd_assembler c) (length frame) \<and>
    reply_in (frame ! 6) n out'"
  using assms(2)
proof (cases rule: card_poll_cases)
  case idle
  then show ?thesis by simp
next
  case (frame frame hres rt p)
  have "router_inv R (cd_router c)"
    using card_reachable_inv [OF assms(1)] by (simp add: card_inv_def)
  from handle_frame_spec [OF this assembler_pending_length [OF frame(2)] frame(3)] frame
  show ?thesis by (auto split: result.splits FrameOutcome.splits)
qed

theorem card_reply_echoes_witness:
  "\<exists>out'. reply_in 7 10 out' \<and>
     card_poll placeholder_ops 2048 2100 demo_card () (replicate 16 0) =
       (Ok (Some (ResponseReady 10)), demo_card\<lparr>cd_assembler := \<lparr>as_buffer = []\<rparr>\<rparr>, (), out')"
proof -
  let ?f = "[0x6F, 4, 0, 0, 0, 0, 7, 0, 0, 0, 0, 0xCB, 0, 0] :: bytes"
  have pend: "assembler_pending 2100 (cd_assembler demo_card) = Ok (Some ?f)" by code_simp
  have "\<exists>out'. card_poll placeholder_ops 2048 2100 demo_card () (replicate 16 0) =
       (Ok (Some (ResponseReady 10)), demo_card\<lparr>cd_assembler := \<lparr>as_buffer = []\<rparr>\<rparr>, (), out')"
    unfolding card_poll_def pend
    by (simp add: handle_frame_def request_parse_def header_parse_def declared_length_def
        data_block_failed_def ccid_encode_into_def as_encoded_def assembler_consume_def)
  then obtain out' where p: "card_poll placeholder_ops 2048 2100 demo_card () (replicate 16 0) =
       (Ok (Some (ResponseReady 10)), demo_card\<lparr>cd_assembler := \<lparr>as_buffer = []\<rparr>\<rparr>, (), out')" ..
  from card_reply_echoes [OF demo_card_reachable p] pend p show ?thesis by auto
qed

end
