(* ===== verification/Hid_Framing.thy ===== *)
theory Hid_Framing
  imports Core_Error
begin

text \<open>
  The contract the two HID transports share: a message is cut into a first report and
  numbered continuation reports of fixed capacities, and the receiver feeds reports one
  by one into a reassembler. From four laws on single reports it follows that a whole
  fragmented message is reassembled, once, at its last report, whatever the receiver
  held before. \<open>Ctap_Hid\<close> and \<open>Management_Hid\<close> discharge the laws for their reports.
\<close>

text \<open>\<open>extend_from_slice\<close> on a vector of capacity \<open>cap\<close>.\<close>

definition vec_extend :: "nat \<Rightarrow> bytes \<Rightarrow> bytes \<Rightarrow> bytes CoreResult" where
  "vec_extend cap buffer data =
     (if length buffer + length data > cap then Err ProtocolError else Ok (buffer @ data))"

text \<open>A payload padded with zeros to the capacity of its report.\<close>

definition pad :: "nat \<Rightarrow> bytes \<Rightarrow> bytes" where
  "pad n d = d @ replicate (n - length d) 0"

lemma length_pad [simp]: "length d \<le> n \<Longrightarrow> length (pad n d) = n"
  by (simp add: pad_def)

lemma pad_full [simp]: "length d = n \<Longrightarrow> pad n d = d"
  by (simp add: pad_def)

lemma take_pad: "k \<le> length d \<Longrightarrow> take k (pad n d) = take k d"
  by (simp add: pad_def)

lemma copy_at_zeros:
  "length h = k \<Longrightarrow> copy_at k d (h @ replicate n 0) = h @ pad n d"
  by (simp add: pad_def)

text \<open>Feeding a list of reports, with the result of each.\<close>

fun feed_all :: "('s \<Rightarrow> 'r \<Rightarrow> 'o \<times> 's) \<Rightarrow> 's \<Rightarrow> 'r list \<Rightarrow> 'o list \<times> 's" where
  "feed_all step s [] = ([], s)"
| "feed_all step s (r # rs) =
     (let (x, s) = step s r; (xs, s) = feed_all step s rs in (x # xs, s))"

lemma feed_all_append:
  "feed_all step s (rs @ qs) =
     (let (xs, s) = feed_all step s rs; (ys, s) = feed_all step s qs in (xs @ ys, s))"
  by (induction rs arbitrary: s) (simp_all add: case_prod_unfold Let_def)

text \<open>The continuation reports of what is left of a message.\<close>

function frag_conts :: "nat \<Rightarrow> (nat \<Rightarrow> bytes \<Rightarrow> 'r) \<Rightarrow> nat \<Rightarrow> bytes \<Rightarrow> 'r list" where
  "frag_conts cap mk i xs =
     (if xs = [] \<or> cap = 0 then [] else mk i (take cap xs) # frag_conts cap mk (Suc i) (drop cap xs))"
  by pat_completeness auto
termination by (relation "measure (\<lambda>(cap, mk, i, xs). length xs)") auto

declare frag_conts.simps [simp del]

definition fragment ::
  "nat \<Rightarrow> nat \<Rightarrow> (nat \<Rightarrow> bytes \<Rightarrow> 'r) \<Rightarrow> (nat \<Rightarrow> bytes \<Rightarrow> 'r) \<Rightarrow> bytes \<Rightarrow> 'r list" where
  "fragment cap0 cap mk0 mk p = mk0 (length p) (take cap0 p) # frag_conts cap mk 0 (drop cap0 p)"

lemma frag_conts_Nil [simp]: "frag_conts cap mk i [] = []"
  by (subst frag_conts.simps) simp

locale hid_framing =
  fixes step :: "'s \<Rightarrow> 'r \<Rightarrow> ('m option, 'e) result \<times> 's"
    and mk0 :: "nat \<Rightarrow> bytes \<Rightarrow> 'r" and mk :: "nat \<Rightarrow> bytes \<Rightarrow> 'r"
    and cap0 :: nat and cap :: nat and limit :: nat
    and msg :: "bytes \<Rightarrow> 'm"
    and progress :: "'s \<Rightarrow> nat \<Rightarrow> bytes \<Rightarrow> nat \<Rightarrow> bool"
    and idle :: "'s \<Rightarrow> bool"
  assumes cap_pos: "0 < cap"
    and first_done: "length p \<le> cap0 \<Longrightarrow> length p \<le> limit \<Longrightarrow>
      \<exists>s'. step s (mk0 (length p) p) = (Ok (Some (msg p)), s') \<and> idle s'"
    and first_more: "cap0 < n \<Longrightarrow> n \<le> limit \<Longrightarrow> length d = cap0 \<Longrightarrow>
      \<exists>s'. step s (mk0 n d) = (Ok None, s') \<and> progress s' n d 0"
    and cont_more: "progress s n buf i \<Longrightarrow> n \<le> limit \<Longrightarrow> length d = cap \<Longrightarrow> length buf + cap < n \<Longrightarrow>
      \<exists>s'. step s (mk i d) = (Ok None, s') \<and> progress s' n (buf @ d) (Suc i)"
    and cont_done: "progress s n buf i \<Longrightarrow> n \<le> limit \<Longrightarrow> length d \<le> cap \<Longrightarrow> d \<noteq> [] \<Longrightarrow>
      length buf + length d = n \<Longrightarrow>
      \<exists>s'. step s (mk i d) = (Ok (Some (msg (buf @ d))), s') \<and> idle s'"
begin

lemma conts_reassemble:
  assumes "progress s n buf i" and "length buf + length xs = n" and "xs \<noteq> []" and "n \<le> limit"
  shows "\<exists>s'. feed_all step s (frag_conts cap mk i xs) =
     (replicate (length (frag_conts cap mk i xs) - 1) (Ok None) @ [Ok (Some (msg (buf @ xs)))], s') \<and>
     idle s'"
  using assms
proof (induction xs arbitrary: s buf i rule: length_induct)
  case (1 xs)
  have eq: "frag_conts cap mk i xs = mk i (take cap xs) # frag_conts cap mk (Suc i) (drop cap xs)"
    using 1 cap_pos by (subst frag_conts.simps) simp
  show ?case
  proof (cases "length xs \<le> cap")
    case True
    with 1 cont_done [of s n buf i xs] show ?thesis by (fastforce simp: eq)
  next
    case False
    then have "length buf + cap < n" using 1 by simp
    with cont_more [of s n buf i "take cap xs"] 1 False obtain s1 where
      s1: "step s (mk i (take cap xs)) = (Ok None, s1)" "progress s1 n (buf @ take cap xs) (Suc i)"
      by auto
    from 1(1) [rule_format, of "drop cap xs" s1 "buf @ take cap xs" "Suc i"] False 1 s1 cap_pos
    obtain s' where ih: "feed_all step s1 (frag_conts cap mk (Suc i) (drop cap xs)) =
        (replicate (length (frag_conts cap mk (Suc i) (drop cap xs)) - 1) (Ok None) @
         [Ok (Some (msg (buf @ xs)))], s')" "idle s'"
      by (auto simp: not_le)
    have "frag_conts cap mk (Suc i) (drop cap xs) \<noteq> []"
      using False cap_pos by (subst frag_conts.simps) simp
    then obtain k where "length (frag_conts cap mk (Suc i) (drop cap xs)) = Suc k"
      by (metis length_0_conv not0_implies_Suc)
    with ih s1 show ?thesis by (simp add: eq)
  qed
qed

lemma fragment_reassembles:
  assumes "length p \<le> limit"
  shows "\<exists>s'. feed_all step s (fragment cap0 cap mk0 mk p) =
     (replicate (length (fragment cap0 cap mk0 mk p) - 1) (Ok None) @ [Ok (Some (msg p))], s') \<and>
     idle s'"
proof (cases "length p \<le> cap0")
  case True
  with first_done [of p s] assms show ?thesis by (fastforce simp: fragment_def)
next
  case False
  with first_more [of "length p" "take cap0 p" s] assms obtain s1 where
    s1: "step s (mk0 (length p) (take cap0 p)) = (Ok None, s1)" "progress s1 (length p) (take cap0 p) 0"
    by auto
  with conts_reassemble [of s1 "length p" "take cap0 p" 0 "drop cap0 p"] False assms obtain s' where
    c: "feed_all step s1 (frag_conts cap mk 0 (drop cap0 p)) =
      (replicate (length (frag_conts cap mk 0 (drop cap0 p)) - 1) (Ok None) @ [Ok (Some (msg p))], s')"
    "idle s'" by auto
  have "frag_conts cap mk 0 (drop cap0 p) \<noteq> []" using False cap_pos by (subst frag_conts.simps) simp
  then obtain k where "length (frag_conts cap mk 0 (drop cap0 p)) = Suc k"
    by (metis length_0_conv not0_implies_Suc)
  with s1 c show ?thesis by (simp add: fragment_def)
qed

end

end
