(* ===== verification/Ctap_Hid.thy ===== *)
theory Ctap_Hid
  imports Hid_Framing Core_Error
begin

unbundle bit_operations_syntax

text \<open>
  CTAPHID framing: \<open>crates/aegis-core/src/ctaphid.rs\<close> (reports, packets, channel
  allocation and the reassembler) and the sender \<open>send_ctaphid\<close> of the firmware. A report
  is a list of 64 bytes. The sender is the list of reports it writes; a failing USB write
  cuts it short.
\<close>

abbreviation (input) "CTAP_REPORT_SIZE \<equiv> 64 :: nat"
abbreviation (input) "PROTOCOL_VERSION \<equiv> 2 :: u8"
abbreviation (input) "BROADCAST_CHANNEL \<equiv> 0xFFFFFFFF :: u32"
abbreviation (input) "INIT_DATA_LEN \<equiv> 57 :: nat"
abbreviation (input) "CONT_DATA_LEN \<equiv> 59 :: nat"
abbreviation (input) "CTAP_MAX_MESSAGE \<equiv> 2048 :: nat"
abbreviation (input) "INIT_FLAG \<equiv> 0x80 :: u8"

datatype CtapHidCommand =
    Ping | Msg | Lock | Init | Wink | Cbor | Cancel | Keepalive | CmdError | Unknown u8

fun ctap_code :: "CtapHidCommand \<Rightarrow> u8" where
  "ctap_code Ping = 0x01"
| "ctap_code Msg = 0x03"
| "ctap_code Lock = 0x04"
| "ctap_code Init = 0x06"
| "ctap_code Wink = 0x08"
| "ctap_code Cbor = 0x10"
| "ctap_code Cancel = 0x11"
| "ctap_code Keepalive = 0x3B"
| "ctap_code CmdError = 0x3F"
| "ctap_code (Unknown code) = code"

definition ctap_from_code :: "u8 \<Rightarrow> CtapHidCommand" where
  "ctap_from_code code =
     (if code = 0x01 then Ping else if code = 0x03 then Msg else if code = 0x04 then Lock
      else if code = 0x06 then Init else if code = 0x08 then Wink else if code = 0x10 then Cbor
      else if code = 0x11 then Cancel else if code = 0x3B then Keepalive
      else if code = 0x3F then CmdError else Unknown code)"

datatype CtapHidError =
    InvalidCmd | InvalidPar | InvalidLen | InvalidSeq | MsgTimeout | ChannelBusy | LockRequired
  | InvalidChannel | OtherError

fun ctap_error_code :: "CtapHidError \<Rightarrow> u8" where
  "ctap_error_code InvalidCmd = 0x01"
| "ctap_error_code InvalidPar = 0x02"
| "ctap_error_code InvalidLen = 0x03"
| "ctap_error_code InvalidSeq = 0x04"
| "ctap_error_code MsgTimeout = 0x05"
| "ctap_error_code ChannelBusy = 0x06"
| "ctap_error_code LockRequired = 0x0A"
| "ctap_error_code InvalidChannel = 0x0B"
| "ctap_error_code OtherError = 0x7F"

section \<open>Channels\<close>

definition allocated_channel :: "u32 \<Rightarrow> u32 \<Rightarrow> bool" where
  "allocated_channel channel next_channel \<longleftrightarrow>
     channel \<noteq> 0 \<and> channel < next_channel \<and> channel \<noteq> BROADCAST_CHANNEL"

definition init_response ::
  "u32 \<Rightarrow> bytes \<Rightarrow> u32 \<Rightarrow> u8 \<Rightarrow> (bytes, CtapHidError) result \<times> u32" where
  "init_response channel nonce next_channel capabilities =
     (if length nonce \<noteq> 8 then (Err InvalidLen, next_channel)
      else let reply = (\<lambda>assigned next_channel.
                 (Ok (nonce @ be_bytes 4 assigned @ [PROTOCOL_VERSION, 0, 1, 0, capabilities]),
                  next_channel))
           in if channel = BROADCAST_CHANNEL then
                if next_channel = 0 \<or> next_channel = BROADCAST_CHANNEL
                then (Err OtherError, next_channel)
                else reply next_channel (next_channel + 1)
              else if allocated_channel channel next_channel then reply channel next_channel
              else (Err InvalidChannel, next_channel))"

section \<open>Reports\<close>

datatype Packet =
    PacketInit u32 CtapHidCommand u16 bytes
  | PacketCont u32 u8 bytes

definition ctap_init_report ::
  "u32 \<Rightarrow> CtapHidCommand \<Rightarrow> u16 \<Rightarrow> bytes \<Rightarrow> bytes CoreResult" where
  "ctap_init_report channel command len data =
     (if length data > INIT_DATA_LEN then Err ProtocolError
      else let report = replicate CTAP_REPORT_SIZE 0;
               report = copy_at 0 (be_bytes 4 channel) report;
               report = report[4 := INIT_FLAG OR (ctap_code command AND 0x7F)];
               report = copy_at 5 (be_bytes 2 len) report
           in Ok (copy_at 7 data report))"

definition ctap_cont_report :: "u32 \<Rightarrow> u8 \<Rightarrow> bytes \<Rightarrow> bytes CoreResult" where
  "ctap_cont_report channel sq data =
     (if sq > 127 \<or> length data > CONT_DATA_LEN then Err ProtocolError
      else let report = replicate CTAP_REPORT_SIZE 0;
               report = copy_at 0 (be_bytes 4 channel) report;
               report = report[4 := sq]
           in Ok (copy_at 5 data report))"

definition error_report :: "u32 \<Rightarrow> CtapHidError \<Rightarrow> bytes" where
  "error_report channel code =
     (let report = replicate CTAP_REPORT_SIZE 0;
          report = copy_at 0 (be_bytes 4 channel) report;
          report = report[4 := INIT_FLAG OR (ctap_code CmdError AND 0x7F)];
          report = copy_at 5 (be_bytes 2 (1 :: u16)) report
      in report[7 := ctap_error_code code])"

definition keepalive_report :: "u32 \<Rightarrow> u8 \<Rightarrow> bytes" where
  "keepalive_report channel status =
     (let report = replicate CTAP_REPORT_SIZE 0;
          report = copy_at 0 (be_bytes 4 channel) report;
          report = report[4 := INIT_FLAG OR (ctap_code Keepalive AND 0x7F)];
          report = copy_at 5 (be_bytes 2 (2 :: u16)) report
      in report[7 := status, 8 := 0])"

text \<open>The payload vectors have the capacity of what is copied into them, so parsing a
  64-byte report never fails.\<close>

definition ctap_parse_report :: "bytes \<Rightarrow> Packet CoreResult" where
  "ctap_parse_report report =
     (let channel = of_be_bytes [report ! 0, report ! 1, report ! 2, report ! 3];
          command_byte = report ! 4
      in if command_byte AND INIT_FLAG \<noteq> 0
         then Ok (PacketInit channel (ctap_from_code (command_byte AND 0x7F))
                    (of_be_bytes [report ! 5, report ! 6]) (drop 7 report))
         else Ok (PacketCont channel (command_byte AND 0x7F) (drop 5 report)))"

section \<open>Reassembly\<close>

record Message =
  msg_channel :: u32
  msg_command :: CtapHidCommand
  msg_payload :: bytes

record InProgress =
  ip_channel :: u32
  ip_command :: CtapHidCommand
  ip_expected :: nat
  ip_received :: nat
  ip_next_sequence :: u8
  ip_buffer :: bytes

record CtapAssembler =
  ca_current :: "InProgress option"

definition ctap_assembler_new :: CtapAssembler where
  "ctap_assembler_new = \<lparr>ca_current = None\<rparr>"

definition ctap_assembler_reset :: "CtapAssembler \<Rightarrow> CtapAssembler" where
  "ctap_assembler_reset self = self\<lparr>ca_current := None\<rparr>"

definition ctap_accept ::
  "CtapAssembler \<Rightarrow> Packet \<Rightarrow> Message option CoreResult \<times> CtapAssembler" where
  "ctap_accept self packet =
     (case packet of
        PacketInit channel command len data \<Rightarrow>
          let self = self\<lparr>ca_current := None\<rparr>; expected = unat len
          in if expected > CTAP_MAX_MESSAGE then (Err ProtocolError, self)
             else let n = min expected (length data)
                  in (case vec_extend CTAP_MAX_MESSAGE [] (take n data) of
                        Err e \<Rightarrow> (Err e, self)
                      | Ok buffer \<Rightarrow>
                          if length buffer \<ge> expected
                          then (Ok (Some \<lparr>msg_channel = channel, msg_command = command,
                                          msg_payload = buffer\<rparr>), self)
                          else (Ok None, self\<lparr>ca_current := Some
                                  \<lparr>ip_channel = channel, ip_command = command,
                                   ip_expected = expected, ip_received = n,
                                   ip_next_sequence = 0, ip_buffer = buffer\<rparr>\<rparr>))
      | PacketCont channel sq data \<Rightarrow>
          (case ca_current self of
             None \<Rightarrow> (Err ProtocolError, self)
           | Some state \<Rightarrow>
               if ip_channel state \<noteq> channel \<or> sq \<noteq> ip_next_sequence state
               then (Err ProtocolError, self\<lparr>ca_current := None\<rparr>)
               else let remaining = ip_expected state - ip_received state;
                        n = min remaining (length data)
                    in (case vec_extend CTAP_MAX_MESSAGE (ip_buffer state) (take n data) of
                          Err e \<Rightarrow> (Err e, self)
                        | Ok buffer \<Rightarrow>
                            let state = state\<lparr>ip_buffer := buffer,
                                  ip_received := ip_received state + n,
                                  ip_next_sequence := (ip_next_sequence state + 1) AND 0x7F\<rparr>
                            in if ip_received state \<ge> ip_expected state
                               then (Ok (Some \<lparr>msg_channel = ip_channel state,
                                               msg_command = ip_command state,
                                               msg_payload = ip_buffer state\<rparr>),
                                     self\<lparr>ca_current := None\<rparr>)
                               else (Ok None, self\<lparr>ca_current := Some state\<rparr>))))"

text \<open>The firmware parses each report and feeds the packet.\<close>

definition ctap_step :: "CtapAssembler \<Rightarrow> bytes \<Rightarrow> Message option CoreResult \<times> CtapAssembler" where
  "ctap_step self report =
     (case ctap_parse_report report of Err e \<Rightarrow> (Err e, self) | Ok packet \<Rightarrow> ctap_accept self packet)"

section \<open>The sender\<close>

function ctap_send_conts :: "u32 \<Rightarrow> u8 \<Rightarrow> nat \<Rightarrow> bytes \<Rightarrow> bytes list" where
  "ctap_send_conts channel sq offset payload =
     (if offset < length payload then
        let fin = min (offset + CONT_DATA_LEN) (length payload)
        in (case ctap_cont_report channel sq (sub_slice offset fin payload) of
              Err _ \<Rightarrow> []
            | Ok report \<Rightarrow>
                report # ctap_send_conts channel (saturating_add sq 1 AND 0x7F) fin payload)
      else [])"
  by pat_completeness auto
termination by (relation "measure (\<lambda>(c, s, offset, payload). length payload - offset)") auto

definition send_ctaphid :: "u32 \<Rightarrow> CtapHidCommand \<Rightarrow> bytes \<Rightarrow> bytes list" where
  "send_ctaphid channel command payload =
     (let first = min (length payload) INIT_DATA_LEN
      in case ctap_init_report channel command (of_nat (length payload)) (take first payload) of
           Err _ \<Rightarrow> []
         | Ok report \<Rightarrow> report # ctap_send_conts channel 0 first payload)"

declare ctap_send_conts.simps [simp del]

section \<open>The layout of a report\<close>

lemma bit_0x80: "bit (0x80 :: u8) n \<longleftrightarrow> n = 7"
  using bit_exp_iff [where 'a = "8 word", of 7 n] by auto

lemma bit_0x7F: "bit (0x7F :: u8) n \<longleftrightarrow> n < 7"
proof -
  have "(0x7F :: u8) = mask 7" by (simp add: mask_eq_exp_minus_1)
  then show ?thesis by (simp only: bit_mask_iff) auto
qed

lemma init_byte [simp]:
  "(0x80 OR (c AND 0x7F)) AND 0x80 = (0x80 :: u8)"
  "(0x80 OR (c AND 0x7F)) AND 0x7F = (c AND 0x7F :: u8)"
  "(c AND 0x7F) AND 0x80 = (0 :: u8)"
  by (rule bit_word_eqI, simp only: bit_or_iff bit_and_iff bit_0x80 bit_0x7F bit_0_eq, fastforce)+

lemma be_bytes_4: "\<exists>a b c d. be_bytes 4 (w :: u32) = [a, b, c, d]"
  by (simp add: be_bytes_def le_bytes_def numeral_eq_Suc)

lemma ctap_be_bytes_2: "\<exists>a b. be_bytes 2 (w :: u16) = [a, b]"
  by (simp add: be_bytes_def le_bytes_def numeral_eq_Suc)

lemma zeros_64:
  "replicate 64 (0 :: u8) = [0, 0, 0, 0, 0] @ replicate 59 0"
  "replicate 64 (0 :: u8) = [0, 0, 0, 0, 0, 0, 0] @ replicate 57 0"
  by code_simp+

lemma ctap_init_report_eq:
  assumes "length d \<le> INIT_DATA_LEN"
  shows "ctap_init_report ch cmd len d =
    Ok (be_bytes 4 ch @ [INIT_FLAG OR (ctap_code cmd AND 0x7F)] @ be_bytes 2 len @ pad 57 d)"
proof -
  obtain a b c e where ch: "be_bytes 4 ch = [a, b, c, e]" using be_bytes_4 by blast
  obtain x y where len: "be_bytes 2 len = [x, y]" using ctap_be_bytes_2 by blast
  have "copy_at 7 d ([a, b, c, e, f, x, y] @ replicate 57 0) = [a, b, c, e, f, x, y] @ pad 57 d" for f
    by (rule copy_at_zeros) simp
  then show ?thesis
    using assms by (simp add: ctap_init_report_def ch len zeros_64(2) copy_at_def [of 5])
qed

lemma ctap_cont_report_eq:
  assumes "length d \<le> CONT_DATA_LEN" and "sq \<le> 127"
  shows "ctap_cont_report ch sq d = Ok (be_bytes 4 ch @ [sq] @ pad 59 d)"
proof -
  obtain a b c e where ch: "be_bytes 4 ch = [a, b, c, e]" using be_bytes_4 by blast
  have "copy_at 5 d ([a, b, c, e, f] @ replicate 59 0) = [a, b, c, e, f] @ pad 59 d" for f
    by (rule copy_at_zeros) simp
  then show ?thesis
    using assms by (simp add: ctap_cont_report_def ch zeros_64(1) not_less)
qed

lemma parse_init:
  "ctap_parse_report (be_bytes 4 ch @ [0x80 OR (c AND 0x7F)] @ be_bytes 2 len @ d) =
     Ok (PacketInit ch (ctap_from_code (c AND 0x7F)) len d)"
proof -
  obtain a b e f where ch: "be_bytes 4 ch = [a, b, e, f]" using be_bytes_4 by blast
  obtain x y where len: "be_bytes 2 len = [x, y]" using ctap_be_bytes_2 by blast
  have "of_be_bytes [a, b, e, f] = ch" "of_be_bytes [x, y] = len"
    unfolding ch [symmetric] len [symmetric] by simp_all
  then show ?thesis by (simp add: ctap_parse_report_def ch len)
qed

lemma parse_cont:
  assumes "sq \<le> 127"
  shows "ctap_parse_report (be_bytes 4 ch @ [sq] @ d) = Ok (PacketCont ch sq d)"
proof -
  obtain a b e f where ch: "be_bytes 4 ch = [a, b, e, f]" using be_bytes_4 by blast
  have "of_be_bytes [a, b, e, f] = ch" unfolding ch [symmetric] by simp
  moreover have "sq AND 0x7F = sq"
    using assms less_mask_eq [of sq 7] by (simp add: mask_eq_exp_minus_1 word_le_nat_alt word_less_nat_alt)
  moreover from this have "sq AND 0x80 = 0" by (metis init_byte(3))
  ultimately show ?thesis by (simp add: ctap_parse_report_def ch)
qed

section \<open>Fragmentation and reassembly\<close>

definition seq_of :: "nat \<Rightarrow> u8" where
  "seq_of i = of_nat (i mod 128)"

lemma seq_of_le: "seq_of i \<le> 127"
  by (simp add: seq_of_def word_le_nat_alt)

lemma seq_of_0 [simp]: "seq_of 0 = 0"
  by (simp add: seq_of_def)

lemma of_nat_and_7F: "of_nat m AND (0x7F :: u8) = of_nat (m mod 128)"
proof -
  have "of_nat m AND (0x7F :: u8) = take_bit 7 (of_nat m)"
    by (simp add: take_bit_eq_mask mask_eq_exp_minus_1)
  also have "\<dots> = of_nat (m mod 128)" by (simp only: take_bit_of_nat) (simp add: take_bit_eq_mod)
  finally show ?thesis .
qed

lemma seq_of_Suc: "(seq_of i + 1) AND 0x7F = seq_of (Suc i)"
proof -
  have "seq_of i + 1 = of_nat (i mod 128 + 1)" by (simp add: seq_of_def)
  then show ?thesis by (simp only: of_nat_and_7F seq_of_def) (simp add: mod_Suc_eq)
qed

lemma seq_of_saturating: "saturating_add (seq_of i) 1 = seq_of i + 1"
proof -
  have "unat (seq_of i) \<le> 127" using seq_of_le [of i] by (simp add: word_le_nat_alt)
  then show ?thesis by (simp add: saturating_add_def word_le_nat_alt)
qed

definition ctap_first :: "u32 \<Rightarrow> CtapHidCommand \<Rightarrow> nat \<Rightarrow> bytes \<Rightarrow> bytes" where
  "ctap_first ch cmd n d =
     be_bytes 4 ch @ [INIT_FLAG OR (ctap_code cmd AND 0x7F)] @ be_bytes 2 (of_nat n :: u16) @ pad 57 d"

definition ctap_cont :: "u32 \<Rightarrow> nat \<Rightarrow> bytes \<Rightarrow> bytes" where
  "ctap_cont ch i d = be_bytes 4 ch @ [seq_of i] @ pad 59 d"

definition ctap_progress ::
  "u32 \<Rightarrow> CtapHidCommand \<Rightarrow> CtapAssembler \<Rightarrow> nat \<Rightarrow> bytes \<Rightarrow> nat \<Rightarrow> bool" where
  "ctap_progress ch cmd s n buf i \<longleftrightarrow> length buf < n \<and> ca_current s = Some
     \<lparr>ip_channel = ch, ip_command = cmd, ip_expected = n, ip_received = length buf,
      ip_next_sequence = seq_of i, ip_buffer = buf\<rparr>"

lemma ctap_step_first:
  "ctap_step s (ctap_first ch cmd n d) =
     ctap_accept s (PacketInit ch (ctap_from_code (ctap_code cmd AND 0x7F)) (of_nat n) (pad 57 d))"
  unfolding ctap_step_def ctap_first_def parse_init by simp

lemma ctap_step_cont: "ctap_step s (ctap_cont ch i d) = ctap_accept s (PacketCont ch (seq_of i) (pad 59 d))"
  unfolding ctap_step_def ctap_cont_def parse_cont [OF seq_of_le] by simp

text \<open>The command as the receiver sees it: the code without the flag bit. The nine known
  commands survive the wire.\<close>

definition wire_command :: "CtapHidCommand \<Rightarrow> CtapHidCommand" where
  "wire_command cmd = ctap_from_code (ctap_code cmd AND 0x7F)"

lemma wire_known:
  "cmd \<in> {Ping, Msg, Lock, Init, Wink, Cbor, Cancel, Keepalive, CmdError} \<Longrightarrow> wire_command cmd = cmd"
  by (auto simp: wire_command_def ctap_from_code_def)

interpretation ctap: hid_framing ctap_step "ctap_first ch cmd" "ctap_cont ch" INIT_DATA_LEN
  CONT_DATA_LEN CTAP_MAX_MESSAGE
  "\<lambda>p. \<lparr>msg_channel = ch, msg_command = wire_command cmd, msg_payload = p\<rparr>"
  "ctap_progress ch (wire_command cmd)" "\<lambda>s. ca_current s = None"
  for ch cmd
proof
  note accept_defs = ctap_accept_def Let_def take_pad vec_extend_def ctap_progress_def
    ctap_step_first ctap_step_cont wire_command_def seq_of_Suc
  show "0 < CONT_DATA_LEN" by simp
  show "\<exists>s'. ctap_step s (ctap_first ch cmd (length p) p) =
      (Ok (Some \<lparr>msg_channel = ch, msg_command = wire_command cmd, msg_payload = p\<rparr>), s') \<and>
      ca_current s' = None"
    if "length p \<le> INIT_DATA_LEN" "length p \<le> CTAP_MAX_MESSAGE" for p s
    using that by (simp add: accept_defs)
  show "\<exists>s'. ctap_step s (ctap_first ch cmd n d) = (Ok None, s') \<and>
      ctap_progress ch (wire_command cmd) s' n d 0"
    if "INIT_DATA_LEN < n" "n \<le> CTAP_MAX_MESSAGE" "length d = INIT_DATA_LEN" for n d s
    using that by (simp add: accept_defs)
  show "\<exists>s'. ctap_step s (ctap_cont ch i d) = (Ok None, s') \<and>
      ctap_progress ch (wire_command cmd) s' n (buf @ d) (Suc i)"
    if "ctap_progress ch (wire_command cmd) s n buf i" "n \<le> CTAP_MAX_MESSAGE"
      "length d = CONT_DATA_LEN" "length buf + CONT_DATA_LEN < n" for s n buf i d
    using that by (simp add: accept_defs)
  show "\<exists>s'. ctap_step s (ctap_cont ch i d) =
      (Ok (Some \<lparr>msg_channel = ch, msg_command = wire_command cmd, msg_payload = buf @ d\<rparr>), s') \<and>
      ca_current s' = None"
    if "ctap_progress ch (wire_command cmd) s n buf i" "n \<le> CTAP_MAX_MESSAGE"
      "length d \<le> CONT_DATA_LEN" "d \<noteq> []" "length buf + length d = n" for s n buf i d
  proof -
    from that have "n - length buf = length d" by simp
    with that show ?thesis by (simp add: accept_defs)
  qed
qed

text \<open>The firmware's sender is the fragmentation of the contract.\<close>

lemma ctap_send_conts_eq:
  "ctap_send_conts ch (seq_of i) off p = frag_conts CONT_DATA_LEN (ctap_cont ch) i (drop off p)"
proof (induction "length p - off" arbitrary: i off rule: less_induct)
  case less
  show ?case
  proof (cases "off < length p")
    case True
    let ?fin = "min (off + CONT_DATA_LEN) (length p)"
    have "ctap_cont_report ch (seq_of i) (sub_slice off ?fin p) =
        Ok (ctap_cont ch i (take CONT_DATA_LEN (drop off p)))"
      unfolding sub_slice_min ctap_cont_def by (rule ctap_cont_report_eq [OF _ seq_of_le]) simp
    moreover have "ctap_send_conts ch (saturating_add (seq_of i) 1 AND 0x7F) ?fin p =
        frag_conts CONT_DATA_LEN (ctap_cont ch) (Suc i) (drop ?fin p)"
      unfolding seq_of_saturating seq_of_Suc using True by (intro less) simp
    moreover have "drop ?fin p = drop CONT_DATA_LEN (drop off p)" by (simp add: min_def add.commute)
    ultimately show ?thesis
      using True by (subst ctap_send_conts.simps, subst frag_conts.simps) (simp add: Let_def)
  next
    case False
    then show ?thesis by (subst ctap_send_conts.simps) simp
  qed
qed

lemma send_ctaphid_eq:
  "send_ctaphid ch cmd p = fragment INIT_DATA_LEN CONT_DATA_LEN (ctap_first ch cmd) (ctap_cont ch) p"
proof -
  have "take (min (length p) INIT_DATA_LEN) p = take INIT_DATA_LEN p"
    "drop (min (length p) INIT_DATA_LEN) p = drop INIT_DATA_LEN p" by (simp_all add: min_def)
  moreover have "ctap_init_report ch cmd (of_nat (length p)) (take INIT_DATA_LEN p) =
      Ok (ctap_first ch cmd (length p) (take INIT_DATA_LEN p))"
    by (subst ctap_init_report_eq) (simp_all add: ctap_first_def)
  ultimately show ?thesis
    using ctap_send_conts_eq [of ch 0 "min (length p) INIT_DATA_LEN" p]
    by (simp add: send_ctaphid_def fragment_def Let_def)
qed

section \<open>What a reassembled message is made of\<close>

text \<open>The packets since the last initialization packet, and the state they lead to.\<close>

definition conts :: "u32 \<Rightarrow> bytes list \<Rightarrow> Packet list" where
  "conts ch ds = map (\<lambda>i. PacketCont ch (seq_of i) (ds ! i)) [0..<length ds]"

lemma conts_snoc: "conts ch (ds @ [d]) = conts ch ds @ [PacketCont ch (seq_of (length ds)) d]"
  by (simp add: conts_def nth_append)

text \<open>The state after a list of packets: the message in progress is the payload of the last
  initialization packet and of all continuations since, all on its channel and in order.\<close>

definition ctap_trace_inv :: "Packet list \<Rightarrow> CtapAssembler \<Rightarrow> bool" where
  "ctap_trace_inv ps s \<longleftrightarrow>
     (case ca_current s of None \<Rightarrow> True
      | Some ip \<Rightarrow> \<exists>pre len d ds.
          ps = pre @ PacketInit (ip_channel ip) (ip_command ip) len d # conts (ip_channel ip) ds \<and>
          ip_expected ip = unat len \<and> unat len \<le> CTAP_MAX_MESSAGE \<and>
          ip_buffer ip = d @ concat ds \<and> ip_received ip = length (ip_buffer ip) \<and>
          ip_received ip < ip_expected ip \<and> ip_next_sequence ip = seq_of (length ds))"

definition ctap_message_of :: "Packet list \<Rightarrow> Message \<Rightarrow> bool" where
  "ctap_message_of ps m \<longleftrightarrow>
     (\<exists>pre len d ds. ps = pre @ PacketInit (msg_channel m) (msg_command m) len d # conts (msg_channel m) ds \<and>
        unat len \<le> CTAP_MAX_MESSAGE \<and> unat len \<le> length (d @ concat ds) \<and>
        msg_payload m = take (unat len) (d @ concat ds))"

lemma ctap_trace_inv_None: "ca_current s = None \<Longrightarrow> ctap_trace_inv ps s"
  by (simp add: ctap_trace_inv_def)

lemma ctap_trace_invI:
  assumes "ps = pre @ PacketInit ch cmd len d # conts ch ds" and "unat len \<le> CTAP_MAX_MESSAGE"
    and "length (d @ concat ds) < unat len"
    and "ca_current s = Some \<lparr>ip_channel = ch, ip_command = cmd, ip_expected = unat len,
      ip_received = length (d @ concat ds), ip_next_sequence = seq_of (length ds),
      ip_buffer = d @ concat ds\<rparr>"
  shows "ctap_trace_inv ps s"
  unfolding ctap_trace_inv_def assms(4) option.case InProgress.simps
  using assms(1-3) by blast

lemma ctap_message_ofI:
  assumes "ps = pre @ PacketInit ch cmd len d # conts ch ds" and "unat len \<le> CTAP_MAX_MESSAGE"
    and "unat len \<le> length (d @ concat ds)" and "pl = take (unat len) (d @ concat ds)"
  shows "ctap_message_of ps \<lparr>msg_channel = ch, msg_command = cmd, msg_payload = pl\<rparr>"
  unfolding ctap_message_of_def Message.simps using assms by blast

lemma ctap_accept_init_trace:
  assumes "ctap_accept s (PacketInit ch cmd len d) = (r, s')"
  shows "ctap_trace_inv (ps @ [PacketInit ch cmd len d]) s' \<and>
    (\<forall>m. r = Ok (Some m) \<longrightarrow> ctap_message_of (ps @ [PacketInit ch cmd len d]) m)"
proof -
  have e: "ps @ [PacketInit ch cmd len d] = ps @ PacketInit ch cmd len d # conts ch []"
    by (simp add: conts_def)
  consider "unat len > CTAP_MAX_MESSAGE"
    | "unat len \<le> CTAP_MAX_MESSAGE" "unat len \<le> length d"
    | "unat len \<le> CTAP_MAX_MESSAGE" "length d < unat len" by linarith
  then show ?thesis
  proof cases
    case 1
    with assms show ?thesis by (auto simp: ctap_accept_def intro: ctap_trace_inv_None)
  next
    case 2
    with assms have "ca_current s' = None"
      and "r = Ok (Some \<lparr>msg_channel = ch, msg_command = cmd, msg_payload = take (unat len) d\<rparr>)"
      by (auto simp: ctap_accept_def Let_def vec_extend_def)
    with 2 ctap_message_ofI [OF e 2(1)] show ?thesis by (auto intro: ctap_trace_inv_None)
  next
    case 3
    with assms have "r = Ok None" and "ca_current s' = Some \<lparr>ip_channel = ch,
        ip_command = cmd, ip_expected = unat len, ip_received = length d, ip_next_sequence = 0,
        ip_buffer = d\<rparr>"
      by (auto simp: ctap_accept_def Let_def vec_extend_def)
    with 3 ctap_trace_invI [OF e 3(1)] show ?thesis by simp
  qed
qed

text \<open>What a matching continuation does to the message in progress.\<close>

lemma ctap_accept_cont:
  assumes "ca_current s = Some \<lparr>ip_channel = ch, ip_command = cmd, ip_expected = n,
      ip_received = length buf, ip_next_sequence = sq, ip_buffer = buf\<rparr>"
    and "n \<le> CTAP_MAX_MESSAGE" and "length buf < n"
  shows "ctap_accept s (PacketCont ch sq d) =
    (if n \<le> length buf + length d
     then (Ok (Some \<lparr>msg_channel = ch, msg_command = cmd, msg_payload = take n (buf @ d)\<rparr>),
           s\<lparr>ca_current := None\<rparr>)
     else (Ok None, s\<lparr>ca_current := Some \<lparr>ip_channel = ch, ip_command = cmd, ip_expected = n,
             ip_received = length (buf @ d), ip_next_sequence = (sq + 1) AND 0x7F,
             ip_buffer = buf @ d\<rparr>\<rparr>))"
  using assms by (auto simp: ctap_accept_def Let_def vec_extend_def min_def)

lemma ctap_accept_trace:
  assumes inv: "ctap_trace_inv ps s" and acc: "ctap_accept s p = (r, s')"
  shows "ctap_trace_inv (ps @ [p]) s' \<and> (\<forall>m. r = Ok (Some m) \<longrightarrow> ctap_message_of (ps @ [p]) m)"
proof (cases p)
  case (PacketInit ch cmd len d)
  with acc ctap_accept_init_trace show ?thesis by blast
next
  case (PacketCont ch sq d)
  show ?thesis
  proof (cases "\<exists>ip. ca_current s = Some ip \<and> ip_channel ip = ch \<and> sq = ip_next_sequence ip")
    case False
    with acc PacketCont have "ca_current s' = None" "\<forall>m. r \<noteq> Ok (Some m)"
      by (auto simp: ctap_accept_def split: option.splits)
    then show ?thesis by (auto intro: ctap_trace_inv_None)
  next
    case True
    then obtain ip where ip: "ca_current s = Some ip" "ip_channel ip = ch" "sq = ip_next_sequence ip"
      by blast
    with inv obtain pre len d0 ds where
      ps: "ps = pre @ PacketInit ch (ip_command ip) len d0 # conts ch ds"
      and st: "ip_expected ip = unat len" "unat len \<le> CTAP_MAX_MESSAGE" "ip_buffer ip = d0 @ concat ds"
        "ip_received ip = length (d0 @ concat ds)" "length (d0 @ concat ds) < unat len"
        "ip_next_sequence ip = seq_of (length ds)"
      by (auto simp: ctap_trace_inv_def)
    have e: "ps @ [p] = pre @ PacketInit ch (ip_command ip) len d0 # conts ch (ds @ [d])"
      using ps PacketCont ip(3) st(6) by (simp add: conts_snoc)
    have cur: "ca_current s = Some \<lparr>ip_channel = ch, ip_command = ip_command ip,
        ip_expected = unat len, ip_received = length (d0 @ concat ds), ip_next_sequence = sq,
        ip_buffer = d0 @ concat ds\<rparr>"
      using ip st by (cases ip) simp
    note a = ctap_accept_cont [OF cur st(2,5), of d] acc [unfolded PacketCont]
    show ?thesis
    proof (cases "unat len \<le> length (d0 @ concat ds) + length d")
      case full: True
      with a have "ca_current s' = None" and r: "r = Ok (Some \<lparr>msg_channel = ch,
          msg_command = ip_command ip, msg_payload = take (unat len) ((d0 @ concat ds) @ d)\<rparr>)"
        by auto
      moreover have "ctap_message_of (ps @ [p]) \<lparr>msg_channel = ch, msg_command = ip_command ip,
          msg_payload = take (unat len) ((d0 @ concat ds) @ d)\<rparr>"
        using full by (intro ctap_message_ofI [OF e st(2)]) simp_all
      ultimately show ?thesis by (auto intro: ctap_trace_inv_None)
    next
      case more: False
      have "(sq + 1) AND 0x7F = seq_of (length (ds @ [d]))" using ip(3) st(6) by (simp add: seq_of_Suc)
      with a more have "r = Ok None" "ctap_trace_inv (ps @ [p]) s'"
        by (auto intro!: ctap_trace_invI [OF e st(2)])
      then show ?thesis by simp
    qed
  qed
qed

lemma ctap_feed_trace:
  assumes "ctap_trace_inv ps s" and "feed_all ctap_accept s qs = (rs, s')"
  shows "ctap_trace_inv (ps @ qs) s' \<and> length rs = length qs \<and>
    (\<forall>i < length qs. \<forall>m. rs ! i = Ok (Some m) \<longrightarrow> ctap_message_of (ps @ take (Suc i) qs) m)"
  using assms
proof (induction qs arbitrary: ps s rs)
  case Nil
  then show ?case by simp
next
  case (Cons q qs)
  obtain r s1 where a: "ctap_accept s q = (r, s1)" by force
  obtain rs1 s2 where f: "feed_all ctap_accept s1 qs = (rs1, s2)" by force
  with a Cons.prems(2) have rs: "rs = r # rs1" "s' = s2" by auto
  note step = ctap_accept_trace [OF Cons.prems(1) a]
  with Cons.IH [of "ps @ [q]" s1 rs1] f rs show ?case
    by (auto simp: less_Suc_eq_0_disj)
qed

section \<open>Properties\<close>

text \<open>CTAPHID round trip. A message of up to 2048 bytes sent by the firmware's sender on
  any channel is reassembled from its reports exactly once, at the last report, with the
  same channel, command and payload, whatever partial message the receiver held before,
  and leaves the receiver idle.\<close>

theorem ctaphid_roundtrip:
  assumes "length payload \<le> CTAP_MAX_MESSAGE" and "wire_command cmd = cmd"
  shows "\<exists>s'. feed_all ctap_step s (send_ctaphid ch cmd payload) =
      (replicate (length (send_ctaphid ch cmd payload) - 1) (Ok None) @
       [Ok (Some \<lparr>msg_channel = ch, msg_command = cmd, msg_payload = payload\<rparr>)], s') \<and>
    ca_current s' = None"
  using ctap.fragment_reassembles [OF assms(1), of s ch cmd] assms(2)
  unfolding send_ctaphid_eq by simp

theorem ctaphid_roundtrip_witness:
  "\<exists>s'. feed_all ctap_step ctap_assembler_new (send_ctaphid 1 Cbor (replicate 100 7)) =
      (replicate (length (send_ctaphid 1 Cbor (replicate 100 7)) - 1) (Ok None) @
       [Ok (Some \<lparr>msg_channel = 1, msg_command = Cbor, msg_payload = replicate 100 7\<rparr>)], s') \<and>
    ca_current s' = None"
  by (rule ctaphid_roundtrip) (simp_all add: wire_known)

text \<open>C30: no mixing of channels. Feed the reassembler any packets, from any channels, in any
  order: whenever it completes a message, that message is the payload, cut to its declared
  length, of one initialization packet of its channel and command and of all packets since,
  which are continuations of the same channel numbered from zero without a gap.\<close>

theorem ctaphid_no_mixing:
  assumes "feed_all ctap_accept ctap_assembler_new packets = (results, s')"
    and "i < length packets" and "results ! i = Ok (Some m)"
  shows "ctap_message_of (take (Suc i) packets) m"
proof -
  have "ctap_trace_inv [] ctap_assembler_new"
    by (rule ctap_trace_inv_None) (simp add: ctap_assembler_new_def)
  from ctap_feed_trace [OF this assms(1)] assms(2,3) show ?thesis by simp
qed

theorem ctaphid_no_mixing_witness:
  "ctap_message_of [PacketInit 9 Ping 3 [1], PacketCont 9 0 [2, 3, 0]]
     \<lparr>msg_channel = 9, msg_command = Ping, msg_payload = [1, 2, 3]\<rparr>"
proof -
  let ?ps = "[PacketInit 9 Ping 3 [1], PacketCont 9 0 [2, 3, 0]]"
  have "feed_all ctap_accept ctap_assembler_new ?ps =
    ([Ok None, Ok (Some \<lparr>msg_channel = 9, msg_command = Ping, msg_payload = [1, 2, 3]\<rparr>)],
     \<lparr>ca_current = None\<rparr>)"
    by (simp add: ctap_accept_def ctap_assembler_new_def vec_extend_def)
  from ctaphid_no_mixing [OF this, of 1] show ?thesis by simp
qed

text \<open>Channel allocation. An INIT with an eight-byte nonce on the broadcast channel gets
  a channel that no earlier INIT has been given, neither zero nor the broadcast channel, and
  every channel allocated before stays allocated; on an allocated channel it only
  resynchronises, and on any other it is refused and allocates nothing. The nonce is
  echoed.\<close>

theorem init_allocates_fresh:
  assumes "length nonce = 8" and "init_response channel nonce next caps = (r, next')"
  shows "(\<forall>c. allocated_channel c next \<longrightarrow> allocated_channel c next') \<and>
    (\<forall>resp. r = Ok resp \<longrightarrow> take 8 resp = nonce \<and>
       (let assigned = of_be_bytes (sub_slice 8 12 resp)
        in allocated_channel assigned next' \<and>
           (if channel = BROADCAST_CHANNEL then \<not> allocated_channel assigned next
            else assigned = channel \<and> next' = next))) \<and>
    (channel \<noteq> BROADCAST_CHANNEL \<and> \<not> allocated_channel channel next \<longrightarrow>
       r = Err InvalidChannel \<and> next' = next)"
proof -
  have slice: "take 8 (nonce @ be_bytes 4 a @ tl5) = nonce"
    "of_be_bytes (sub_slice 8 12 (nonce @ be_bytes 4 a @ tl5)) = a" for a :: u32 and tl5
    using assms(1) by (simp_all add: sub_slice_def)
  have inc: "c < next + 1 \<longleftrightarrow> c \<le> next" if "next \<noteq> BROADCAST_CHANNEL" for c
  proof -
    have "(0xFFFFFFFF :: u32) = - 1" by simp
    with that have "1 + next \<noteq> 0" by (metis add.commute add_eq_0_iff)
    from unatSuc [OF this] show ?thesis
      by (simp add: word_less_nat_alt word_le_nat_alt less_Suc_eq_le add.commute)
  qed
  show ?thesis
    using assms slice
    by (auto simp: init_response_def allocated_channel_def Let_def inc split: if_splits)
qed

theorem init_allocates_fresh_witness:
  "\<exists>resp. init_response BROADCAST_CHANNEL [1, 2, 3, 4, 5, 6, 7, 8] 5 4 = (Ok resp, 6) \<and>
     take 8 resp = [1, 2, 3, 4, 5, 6, 7, 8] \<and>
     allocated_channel (of_be_bytes (sub_slice 8 12 resp)) 6 \<and>
     \<not> allocated_channel (of_be_bytes (sub_slice 8 12 resp)) 5"
proof -
  have nonce: "length ([1, 2, 3, 4, 5, 6, 7, 8] :: bytes) = 8" by simp
  obtain resp where i: "init_response BROADCAST_CHANNEL [1, 2, 3, 4, 5, 6, 7, 8] 5 4 = (Ok resp, 6)"
    by (simp add: init_response_def Let_def)
  from init_allocates_fresh [OF nonce i] have "take 8 resp = [1, 2, 3, 4, 5, 6, 7, 8] \<and>
     allocated_channel (of_be_bytes (sub_slice 8 12 resp)) 6 \<and>
     \<not> allocated_channel (of_be_bytes (sub_slice 8 12 resp)) 5" by (simp add: Let_def)
  with i show ?thesis by blast
qed

end
