(* ===== verification/Management_Hid.thy ===== *)
theory Management_Hid
  imports Hid_Framing Core_Error
begin

unbundle bit_operations_syntax

text \<open>
  Management HID framing, both ends: the reports and the reassembler of
  \<open>crates/aegis-core/src/management.rs\<close>, the device's sender \<open>send_management\<close>, and the
  host's \<open>encode\<close> and \<open>ResponseAssembler\<close> of \<open>crates/aegistoken-host/src/framing.rs\<close>.
\<close>

abbreviation (input) "MGMT_REPORT_SIZE \<equiv> 64 :: nat"
abbreviation (input) "MGMT_HEADER_LEN \<equiv> 5 :: nat"
abbreviation (input) "PAYLOAD_PER_REPORT \<equiv> 59 :: nat"
abbreviation (input) "MGMT_PROTOCOL_VERSION \<equiv> 1 :: u8"
abbreviation (input) "MGMT_MAX_MESSAGE \<equiv> 2048 :: nat"
abbreviation (input) "FLAG_CONTINUATION \<equiv> 1 :: u8"

datatype Frame =
    FrameInit u8 u16 bytes
  | FrameCont u8 u16 bytes

definition mgmt_init_report :: "u8 \<Rightarrow> u16 \<Rightarrow> bytes \<Rightarrow> bytes CoreResult" where
  "mgmt_init_report command total_length data =
     (if length data > PAYLOAD_PER_REPORT then Err ProtocolError
      else let report = (replicate MGMT_REPORT_SIZE 0)[0 := MGMT_PROTOCOL_VERSION, 1 := command];
               report = copy_at 2 (le_bytes 2 total_length) report;
               report = report[4 := 0]
           in Ok (copy_at MGMT_HEADER_LEN data report))"

definition mgmt_cont_report :: "u8 \<Rightarrow> u16 \<Rightarrow> bytes \<Rightarrow> bytes CoreResult" where
  "mgmt_cont_report command sq data =
     (if length data > PAYLOAD_PER_REPORT then Err ProtocolError
      else let report = (replicate MGMT_REPORT_SIZE 0)[0 := MGMT_PROTOCOL_VERSION, 1 := command];
               report = copy_at 2 (le_bytes 2 sq) report;
               report = report[4 := FLAG_CONTINUATION]
           in Ok (copy_at MGMT_HEADER_LEN data report))"

definition mgmt_parse_report :: "bytes \<Rightarrow> Frame CoreResult" where
  "mgmt_parse_report report =
     (if report ! 0 \<noteq> MGMT_PROTOCOL_VERSION then Err ProtocolError
      else let command = report ! 1;
               word = of_le_bytes [report ! 2, report ! 3];
               data = drop MGMT_HEADER_LEN report
           in if report ! 4 AND FLAG_CONTINUATION \<noteq> 0 then Ok (FrameCont command word data)
              else Ok (FrameInit command word data))"

record MgmtMessage =
  mm_command :: u8
  mm_payload :: bytes

record MgmtInProgress =
  mp_command :: u8
  mp_expected :: nat
  mp_received :: nat
  mp_next_sequence :: u16
  mp_buffer :: bytes

record MgmtAssembler =
  ma_current :: "MgmtInProgress option"

definition mgmt_assembler_new :: MgmtAssembler where
  "mgmt_assembler_new = \<lparr>ma_current = None\<rparr>"

definition mgmt_assembler_reset :: "MgmtAssembler \<Rightarrow> MgmtAssembler" where
  "mgmt_assembler_reset self = self\<lparr>ma_current := None\<rparr>"

definition mgmt_accept ::
  "MgmtAssembler \<Rightarrow> Frame \<Rightarrow> MgmtMessage option CoreResult \<times> MgmtAssembler" where
  "mgmt_accept self frame =
     (case frame of
        FrameInit command total_length data \<Rightarrow>
          let self = self\<lparr>ma_current := None\<rparr>; expected = unat total_length
          in if expected > MGMT_MAX_MESSAGE then (Err ProtocolError, self)
             else let n = min expected (length data)
                  in (case vec_extend MGMT_MAX_MESSAGE [] (take n data) of
                        Err e \<Rightarrow> (Err e, self)
                      | Ok buffer \<Rightarrow>
                          if length buffer \<ge> expected
                          then (Ok (Some \<lparr>mm_command = command, mm_payload = buffer\<rparr>), self)
                          else (Ok None, self\<lparr>ma_current := Some
                                  \<lparr>mp_command = command, mp_expected = expected, mp_received = n,
                                   mp_next_sequence = 0, mp_buffer = buffer\<rparr>\<rparr>))
      | FrameCont command sq data \<Rightarrow>
          (case ma_current self of
             None \<Rightarrow> (Err ProtocolError, self)
           | Some state \<Rightarrow>
               if mp_command state \<noteq> command \<or> sq \<noteq> mp_next_sequence state
               then (Err ProtocolError, self\<lparr>ma_current := None\<rparr>)
               else let remaining = mp_expected state - mp_received state;
                        n = min remaining (length data)
                    in (case vec_extend MGMT_MAX_MESSAGE (mp_buffer state) (take n data) of
                          Err e \<Rightarrow> (Err e, self)
                        | Ok buffer \<Rightarrow>
                            let state = state\<lparr>mp_buffer := buffer,
                                  mp_received := mp_received state + n,
                                  mp_next_sequence := mp_next_sequence state + 1\<rparr>
                            in if mp_received state \<ge> mp_expected state
                               then (Ok (Some \<lparr>mm_command = mp_command state,
                                               mm_payload = mp_buffer state\<rparr>),
                                     self\<lparr>ma_current := None\<rparr>)
                               else (Ok None, self\<lparr>ma_current := Some state\<rparr>))))"

definition mgmt_step :: "MgmtAssembler \<Rightarrow> bytes \<Rightarrow> MgmtMessage option CoreResult \<times> MgmtAssembler" where
  "mgmt_step self report =
     (case mgmt_parse_report report of Err e \<Rightarrow> (Err e, self) | Ok frame \<Rightarrow> mgmt_accept self frame)"

section \<open>Senders\<close>

text \<open>The device's sender gives up when a report cannot be built; the host's \<open>encode\<close> has an
  \<open>expect\<close> there, so it is \<open>None\<close> on a panic. Both add one to a \<open>u16\<close> sequence.\<close>

function mgmt_send_conts :: "u8 \<Rightarrow> u16 \<Rightarrow> nat \<Rightarrow> bytes \<Rightarrow> bytes list" where
  "mgmt_send_conts command sq offset payload =
     (if offset < length payload then
        let fin = min (offset + PAYLOAD_PER_REPORT) (length payload)
        in (case mgmt_cont_report command sq (sub_slice offset fin payload) of
              Err _ \<Rightarrow> []
            | Ok report \<Rightarrow> report # mgmt_send_conts command (sq + 1) fin payload)
      else [])"
  by pat_completeness auto
termination by (relation "measure (\<lambda>(c, s, offset, payload). length payload - offset)") auto

definition send_management :: "u8 \<Rightarrow> bytes \<Rightarrow> bytes list" where
  "send_management command payload =
     (let first = min (length payload) PAYLOAD_PER_REPORT
      in case mgmt_init_report command (of_nat (length payload)) (take first payload) of
           Err _ \<Rightarrow> []
         | Ok report \<Rightarrow> report # mgmt_send_conts command 0 first payload)"

function host_encode_conts :: "u8 \<Rightarrow> u16 \<Rightarrow> nat \<Rightarrow> bytes \<Rightarrow> bytes list option" where
  "host_encode_conts command sq offset payload =
     (if offset < length payload then
        let fin = min (offset + PAYLOAD_PER_REPORT) (length payload)
        in (case mgmt_cont_report command sq (sub_slice offset fin payload) of
              Err _ \<Rightarrow> None
            | Ok cont \<Rightarrow> map_option (\<lambda>reports. cont # reports)
                           (host_encode_conts command (sq + 1) fin payload))
      else Some [])"
  by pat_completeness auto
termination by (relation "measure (\<lambda>(c, s, offset, payload). length payload - offset)") auto

definition host_encode :: "u8 \<Rightarrow> bytes \<Rightarrow> bytes list option" where
  "host_encode command payload =
     (let first = min (length payload) PAYLOAD_PER_REPORT
      in case mgmt_init_report command (of_nat (length payload)) (take first payload) of
           Err _ \<Rightarrow> None
         | Ok init \<Rightarrow> map_option (\<lambda>reports. init # reports) (host_encode_conts command 0 first payload))"

declare mgmt_send_conts.simps [simp del] host_encode_conts.simps [simp del]

section \<open>The host's response assembler\<close>

record HostResponse =
  hr_command :: u8
  hr_status :: u8
  hr_body :: bytes

datatype FramingError = FramingProtocol | EmptyResponse

definition host_from_message :: "MgmtMessage \<Rightarrow> (HostResponse, FramingError) result" where
  "host_from_message message =
     (case mm_payload message of
        [] \<Rightarrow> Err EmptyResponse
      | status # body \<Rightarrow> Ok \<lparr>hr_command = mm_command message, hr_status = status, hr_body = body\<rparr>)"

definition host_accept ::
  "MgmtAssembler \<Rightarrow> bytes \<Rightarrow> (HostResponse option, FramingError) result \<times> MgmtAssembler" where
  "host_accept self report =
     (case mgmt_parse_report report of
        Err _ \<Rightarrow> (Err FramingProtocol, self)
      | Ok frame \<Rightarrow>
          (case mgmt_accept self frame of
             (Err _, self) \<Rightarrow> (Err FramingProtocol, self)
           | (Ok None, self) \<Rightarrow> (Ok None, self)
           | (Ok (Some message), self) \<Rightarrow>
               (and_then (host_from_message message) (\<lambda>r. Ok (Some r)), self)))"

section \<open>The layout of a report\<close>

lemma le_bytes_2: "\<exists>a b. le_bytes 2 (w :: u16) = [a, b]"
  by (simp add: le_bytes_def numeral_eq_Suc)

definition mgmt_report :: "u8 \<Rightarrow> u16 \<Rightarrow> u8 \<Rightarrow> bytes \<Rightarrow> bytes" where
  "mgmt_report command word flags data =
     [MGMT_PROTOCOL_VERSION, command] @ le_bytes 2 word @ [flags] @ pad 59 data"

lemma mgmt_zeros: "replicate 64 (0 :: u8) = [0, 0, 0, 0, 0] @ replicate 59 0"
  by code_simp

lemma mgmt_report_writes:
  "copy_at 5 d ((copy_at 2 (le_bytes 2 (w :: u16)) ((replicate 64 0)[0 := v, 1 := cmd]))[4 := f]) =
     [v, cmd] @ le_bytes 2 w @ [f] @ pad 59 d"
proof -
  obtain x y where w: "le_bytes 2 w = [x, y]" using le_bytes_2 by blast
  have "copy_at 5 d ([v, cmd, x, y, f] @ replicate 59 0) = [v, cmd, x, y, f] @ pad 59 d"
    by (rule copy_at_zeros) simp
  then show ?thesis by (simp add: w mgmt_zeros copy_at_def [of 2])
qed

lemma mgmt_reports_eq:
  assumes "length d \<le> PAYLOAD_PER_REPORT"
  shows "mgmt_init_report cmd w d = Ok (mgmt_report cmd w 0 d)"
    and "mgmt_cont_report cmd w d = Ok (mgmt_report cmd w FLAG_CONTINUATION d)"
  using assms
  unfolding mgmt_init_report_def mgmt_cont_report_def Let_def mgmt_report_writes mgmt_report_def
  by simp_all

lemma mgmt_parse_report_eq:
  "mgmt_parse_report (mgmt_report cmd w f d) =
     Ok (if f AND 1 \<noteq> 0 then FrameCont cmd w (pad 59 d) else FrameInit cmd w (pad 59 d))"
proof -
  obtain x y where w: "le_bytes 2 w = [x, y]" using le_bytes_2 by blast
  have "of_le_bytes [x, y] = w" unfolding w [symmetric] by simp
  then show ?thesis by (simp add: mgmt_parse_report_def mgmt_report_def w del: of_le_bytes.simps)
qed

section \<open>Fragmentation and reassembly\<close>

definition mgmt_progress :: "u8 \<Rightarrow> MgmtAssembler \<Rightarrow> nat \<Rightarrow> bytes \<Rightarrow> nat \<Rightarrow> bool" where
  "mgmt_progress cmd s n buf i \<longleftrightarrow> length buf < n \<and> ma_current s = Some
     \<lparr>mp_command = cmd, mp_expected = n, mp_received = length buf, mp_next_sequence = of_nat i,
      mp_buffer = buf\<rparr>"

abbreviation mgmt_first :: "u8 \<Rightarrow> nat \<Rightarrow> bytes \<Rightarrow> bytes" where
  "mgmt_first cmd n d \<equiv> mgmt_report cmd (of_nat n) 0 d"

abbreviation mgmt_cont :: "u8 \<Rightarrow> nat \<Rightarrow> bytes \<Rightarrow> bytes" where
  "mgmt_cont cmd i d \<equiv> mgmt_report cmd (of_nat i) FLAG_CONTINUATION d"

interpretation mgmt: hid_framing mgmt_step "mgmt_first cmd" "mgmt_cont cmd" PAYLOAD_PER_REPORT
  PAYLOAD_PER_REPORT MGMT_MAX_MESSAGE "\<lambda>p. \<lparr>mm_command = cmd, mm_payload = p\<rparr>"
  "mgmt_progress cmd" "\<lambda>s. ma_current s = None"
  for cmd
proof
  note accept_defs = mgmt_step_def mgmt_parse_report_eq mgmt_accept_def Let_def take_pad
    vec_extend_def mgmt_progress_def
  show "0 < PAYLOAD_PER_REPORT" by simp
  show "\<exists>s'. mgmt_step s (mgmt_first cmd (length p) p) =
      (Ok (Some \<lparr>mm_command = cmd, mm_payload = p\<rparr>), s') \<and> ma_current s' = None"
    if "length p \<le> PAYLOAD_PER_REPORT" "length p \<le> MGMT_MAX_MESSAGE" for p s
    using that by (simp add: accept_defs)
  show "\<exists>s'. mgmt_step s (mgmt_first cmd n d) = (Ok None, s') \<and> mgmt_progress cmd s' n d 0"
    if "PAYLOAD_PER_REPORT < n" "n \<le> MGMT_MAX_MESSAGE" "length d = PAYLOAD_PER_REPORT" for n d s
    using that by (simp add: accept_defs)
  show "\<exists>s'. mgmt_step s (mgmt_cont cmd i d) = (Ok None, s') \<and> mgmt_progress cmd s' n (buf @ d) (Suc i)"
    if "mgmt_progress cmd s n buf i" "n \<le> MGMT_MAX_MESSAGE" "length d = PAYLOAD_PER_REPORT"
      "length buf + PAYLOAD_PER_REPORT < n" for s n buf i d
    using that by (simp add: accept_defs add.commute)
  show "\<exists>s'. mgmt_step s (mgmt_cont cmd i d) =
      (Ok (Some \<lparr>mm_command = cmd, mm_payload = buf @ d\<rparr>), s') \<and> ma_current s' = None"
    if "mgmt_progress cmd s n buf i" "n \<le> MGMT_MAX_MESSAGE" "length d \<le> PAYLOAD_PER_REPORT"
      "d \<noteq> []" "length buf + length d = n" for s n buf i d
  proof -
    from that have "n - length buf = length d" by simp
    with that show ?thesis by (simp add: accept_defs)
  qed
qed

text \<open>Both senders are the fragmentation of the contract.\<close>

lemma mgmt_conts_eq:
  "mgmt_send_conts cmd (of_nat i) off p = frag_conts PAYLOAD_PER_REPORT (mgmt_cont cmd) i (drop off p) \<and>
   host_encode_conts cmd (of_nat i) off p = Some (frag_conts PAYLOAD_PER_REPORT (mgmt_cont cmd) i (drop off p))"
proof (induction "length p - off" arbitrary: i off rule: less_induct)
  case less
  show ?case
  proof (cases "off < length p")
    case True
    let ?fin = "min (off + PAYLOAD_PER_REPORT) (length p)"
    have "mgmt_cont_report cmd (of_nat i) (sub_slice off ?fin p) =
        Ok (mgmt_cont cmd i (take PAYLOAD_PER_REPORT (drop off p)))"
      unfolding sub_slice_min by (rule mgmt_reports_eq(2)) simp
    moreover have "mgmt_send_conts cmd (of_nat i + 1) ?fin p =
          frag_conts PAYLOAD_PER_REPORT (mgmt_cont cmd) (Suc i) (drop ?fin p) \<and>
        host_encode_conts cmd (of_nat i + 1) ?fin p =
          Some (frag_conts PAYLOAD_PER_REPORT (mgmt_cont cmd) (Suc i) (drop ?fin p))"
      using less [of ?fin "Suc i"] True by (simp add: add.commute)
    moreover have "drop ?fin p = drop PAYLOAD_PER_REPORT (drop off p)" by (simp add: min_def add.commute)
    ultimately show ?thesis using True
      by (subst mgmt_send_conts.simps, subst host_encode_conts.simps, subst (1 2) frag_conts.simps)
         (simp add: Let_def)
  next
    case False
    then show ?thesis by (subst mgmt_send_conts.simps, subst host_encode_conts.simps) simp
  qed
qed

lemma mgmt_send_eq:
  "send_management cmd p = fragment PAYLOAD_PER_REPORT PAYLOAD_PER_REPORT (mgmt_first cmd) (mgmt_cont cmd) p"
  "host_encode cmd p = Some (fragment PAYLOAD_PER_REPORT PAYLOAD_PER_REPORT (mgmt_first cmd) (mgmt_cont cmd) p)"
proof -
  have "take (min (length p) PAYLOAD_PER_REPORT) p = take PAYLOAD_PER_REPORT p"
    "drop (min (length p) PAYLOAD_PER_REPORT) p = drop PAYLOAD_PER_REPORT p" by (simp_all add: min_def)
  moreover have "mgmt_init_report cmd (of_nat (length p)) (take PAYLOAD_PER_REPORT p) =
      Ok (mgmt_first cmd (length p) (take PAYLOAD_PER_REPORT p))"
    by (rule mgmt_reports_eq(1)) simp
  moreover note mgmt_conts_eq [of cmd 0 "min (length p) PAYLOAD_PER_REPORT" p]
  ultimately show "send_management cmd p =
      fragment PAYLOAD_PER_REPORT PAYLOAD_PER_REPORT (mgmt_first cmd) (mgmt_cont cmd) p"
    "host_encode cmd p = Some (fragment PAYLOAD_PER_REPORT PAYLOAD_PER_REPORT (mgmt_first cmd) (mgmt_cont cmd) p)"
    by (simp_all add: send_management_def host_encode_def fragment_def Let_def)
qed

text \<open>The host's assembler is the device's with its results translated.\<close>

definition host_result ::
  "MgmtMessage option CoreResult \<Rightarrow> (HostResponse option, FramingError) result" where
  "host_result r = (case r of Err _ \<Rightarrow> Err FramingProtocol | Ok None \<Rightarrow> Ok None
     | Ok (Some m) \<Rightarrow> and_then (host_from_message m) (\<lambda>x. Ok (Some x)))"

lemma host_accept_eq: "host_accept s r = (let (x, s) = mgmt_step s r in (host_result x, s))"
  by (auto simp: host_accept_def mgmt_step_def host_result_def split: result.splits option.splits prod.splits)

lemma host_feed_all: "feed_all host_accept s rs = (let (xs, s) = feed_all mgmt_step s rs in (map host_result xs, s))"
  by (induction rs arbitrary: s) (simp_all add: host_accept_eq case_prod_unfold Let_def)

section \<open>Properties\<close>

text \<open>Management HID round trip in both directions. A command the host encodes (up to
  2048 bytes; the encoder does not panic) is reassembled by the device exactly once, at the
  last report; a response the device sends, a status byte and a body, is delivered by the
  host's response assembler with the same command, status and body, exactly once and at
  the last report; whatever either side held before.\<close>

theorem management_roundtrip:
  assumes "length payload \<le> MGMT_MAX_MESSAGE" and "length body < MGMT_MAX_MESSAGE"
  shows "(\<exists>reports s'. host_encode cmd payload = Some reports \<and>
      feed_all mgmt_step s reports =
        (replicate (length reports - 1) (Ok None) @
         [Ok (Some \<lparr>mm_command = cmd, mm_payload = payload\<rparr>)], s') \<and> ma_current s' = None) \<and>
    (\<exists>s'. feed_all host_accept s (send_management cmd (status # body)) =
        (replicate (length (send_management cmd (status # body)) - 1) (Ok None) @
         [Ok (Some \<lparr>hr_command = cmd, hr_status = status, hr_body = body\<rparr>)], s') \<and> ma_current s' = None)"
proof
  show "\<exists>reports s'. host_encode cmd payload = Some reports \<and>
      feed_all mgmt_step s reports =
        (replicate (length reports - 1) (Ok None) @
         [Ok (Some \<lparr>mm_command = cmd, mm_payload = payload\<rparr>)], s') \<and> ma_current s' = None"
    using mgmt.fragment_reassembles [OF assms(1), of s cmd] unfolding mgmt_send_eq by blast
  have "length (status # body) \<le> MGMT_MAX_MESSAGE" using assms(2) by simp
  from mgmt.fragment_reassembles [OF this, of s cmd]
  show "\<exists>s'. feed_all host_accept s (send_management cmd (status # body)) =
        (replicate (length (send_management cmd (status # body)) - 1) (Ok None) @
         [Ok (Some \<lparr>hr_command = cmd, hr_status = status, hr_body = body\<rparr>)], s') \<and> ma_current s' = None"
    unfolding mgmt_send_eq host_feed_all by (auto simp: host_result_def host_from_message_def)
qed

theorem management_roundtrip_witness:
  "\<exists>reports s'. host_encode 0x10 (replicate 200 5) = Some reports \<and>
      feed_all mgmt_step mgmt_assembler_new reports =
        (replicate (length reports - 1) (Ok None) @
         [Ok (Some \<lparr>mm_command = 0x10, mm_payload = replicate 200 5\<rparr>)], s') \<and> ma_current s' = None"
  using management_roundtrip [of "replicate 200 5" "[]" "0x10" mgmt_assembler_new 0] by simp

end
