(* ===== verification/Presence.thy ===== *)
theory Presence
  imports Exec_State
begin

text \<open>
  User presence, \<open>crates/aegis-core/src/presence.rs\<close>: the debouncing controller, the waiter
  that drives it one sample per millisecond, and the gate that ties it to the execution
  state. Clocks are \<open>u64\<close> milliseconds.
\<close>

datatype PresenceError = PresenceTimeout | PresenceCancelled | AlreadyArmed | NotArmed

fun presence_error_core :: "PresenceError \<Rightarrow> CoreError" where
  "presence_error_core PresenceCancelled = Unauthorized"
| "presence_error_core PresenceTimeout = InvalidState"
| "presence_error_core AlreadyArmed = InvalidState"
| "presence_error_core NotArmed = InvalidState"

record PresenceTiming =
  debounce_ms :: u16
  timeout_ms :: u16

datatype PresenceOutcome = Confirmed u32 | TimedOut u32

record Armed =
  arm_operation_id :: u32
  arm_deadline_ms :: u64

record PresenceController =
  pc_timing :: PresenceTiming
  pc_armed :: "Armed option"
  pc_raw_pressed :: bool
  pc_debounced_pressed :: bool
  pc_raw_change_ms :: u64
  pc_awaiting_release :: bool

definition presence_new :: "PresenceTiming \<Rightarrow> PresenceController" where
  "presence_new timing = \<lparr>pc_timing = timing, pc_armed = None, pc_raw_pressed = False,
     pc_debounced_pressed = False, pc_raw_change_ms = 0, pc_awaiting_release = False\<rparr>"

definition presence_arm ::
  "PresenceController \<Rightarrow> u32 \<Rightarrow> u64 \<Rightarrow> (unit, PresenceError) result \<times> PresenceController" where
  "presence_arm self operation_id now_ms =
     (if pc_armed self \<noteq> None then (Err AlreadyArmed, self)
      else (Ok (), self\<lparr>
        pc_armed := Some \<lparr>arm_operation_id = operation_id,
          arm_deadline_ms = now_ms + ucast (timeout_ms (pc_timing self))\<rparr>,
        pc_awaiting_release := pc_raw_pressed self \<or> pc_debounced_pressed self\<rparr>))"

definition presence_disarm :: "PresenceController \<Rightarrow> PresenceController" where
  "presence_disarm self = self\<lparr>pc_armed := None, pc_awaiting_release := False\<rparr>"

definition is_armed :: "PresenceController \<Rightarrow> bool" where
  "is_armed self \<longleftrightarrow> pc_armed self \<noteq> None"

definition armed_operation :: "PresenceController \<Rightarrow> u32 option" where
  "armed_operation self = map_option arm_operation_id (pc_armed self)"

text \<open>The deadline check at the end of \<open>settle\<close>.\<close>

definition settle_deadline ::
  "PresenceController \<Rightarrow> u64 \<Rightarrow> PresenceOutcome option \<times> PresenceController" where
  "settle_deadline self now_ms =
     (case pc_armed self of
        None \<Rightarrow> (None, self)
      | Some armed \<Rightarrow>
          if now_ms \<ge> arm_deadline_ms armed
          then (Some (TimedOut (arm_operation_id armed)),
                self\<lparr>pc_armed := None, pc_awaiting_release := False\<rparr>)
          else (None, self))"

definition settle ::
  "PresenceController \<Rightarrow> u64 \<Rightarrow> PresenceOutcome option \<times> PresenceController" where
  "settle self now_ms =
     (if pc_raw_pressed self \<noteq> pc_debounced_pressed self \<and>
         saturating_sub now_ms (pc_raw_change_ms self) \<ge> ucast (debounce_ms (pc_timing self))
      then let self = self\<lparr>pc_debounced_pressed := pc_raw_pressed self\<rparr>
           in if pc_debounced_pressed self
              then if pc_awaiting_release self then settle_deadline self now_ms
                   else (case pc_armed self of
                           Some armed \<Rightarrow> (Some (Confirmed (arm_operation_id armed)),
                                          self\<lparr>pc_armed := None\<rparr>)
                         | None \<Rightarrow> settle_deadline self now_ms)
              else settle_deadline (self\<lparr>pc_awaiting_release := False\<rparr>) now_ms
      else settle_deadline self now_ms)"

definition presence_update ::
  "PresenceController \<Rightarrow> bool \<Rightarrow> u64 \<Rightarrow> PresenceOutcome option \<times> PresenceController" where
  "presence_update self pressed now_ms =
     settle (if pressed \<noteq> pc_raw_pressed self
             then self\<lparr>pc_raw_pressed := pressed, pc_raw_change_ms := now_ms\<rparr> else self) now_ms"

definition presence_poll ::
  "PresenceController \<Rightarrow> u64 \<Rightarrow> PresenceOutcome option \<times> PresenceController" where
  "presence_poll self now_ms = settle self now_ms"

section \<open>The waiter\<close>

record PresenceWaiter =
  pw_controller :: PresenceController
  pw_operation_counter :: u32
  pw_now_ms :: u64
  pw_armed :: bool

definition waiter_new :: "PresenceTiming \<Rightarrow> PresenceWaiter" where
  "waiter_new timing = \<lparr>pw_controller = presence_new timing, pw_operation_counter = 0,
     pw_now_ms = 0, pw_armed = False\<rparr>"

definition waiter_begin :: "PresenceWaiter \<Rightarrow> (unit, PresenceError) result \<times> PresenceWaiter" where
  "waiter_begin self =
     (let self = self\<lparr>pw_operation_counter := pw_operation_counter self + 1,
                      pw_controller := presence_disarm (pw_controller self)\<rparr>
      in case presence_arm (pw_controller self) (pw_operation_counter self) 0 of
           (Err e, c) \<Rightarrow> (Err e, self\<lparr>pw_controller := c\<rparr>)
         | (Ok _, c) \<Rightarrow> (Ok (), self\<lparr>pw_controller := c, pw_now_ms := 0, pw_armed := True\<rparr>))"

definition waiter_poll :: "PresenceWaiter \<Rightarrow> bool \<Rightarrow> (bool, PresenceError) result \<times> PresenceWaiter" where
  "waiter_poll self pressed =
     (case (if \<not> pw_armed self then waiter_begin self else (Ok (), self)) of
        (Err e, self) \<Rightarrow> (Err e, self)
      | (Ok _, self) \<Rightarrow>
          let (outcome, c) = presence_update (pw_controller self) pressed (pw_now_ms self);
              self = self\<lparr>pw_controller := c, pw_now_ms := saturating_add (pw_now_ms self) 1\<rparr>
          in (case outcome of
                Some (Confirmed _) \<Rightarrow> (Ok True, self\<lparr>pw_armed := False\<rparr>)
              | Some (TimedOut _) \<Rightarrow> (Err PresenceTimeout, self\<lparr>pw_armed := False\<rparr>)
              | None \<Rightarrow> (Ok False, self)))"

section \<open>The contextual gate\<close>

record ContextualPresence =
  cp_controller :: PresenceController

definition contextual_new :: "PresenceTiming \<Rightarrow> ContextualPresence" where
  "contextual_new timing = \<lparr>cp_controller = presence_new timing\<rparr>"

definition contextual_arm ::
  "ContextualPresence \<Rightarrow> ExecutionState \<Rightarrow> u32 \<Rightarrow> u64 \<Rightarrow>
     (unit, PresenceError) result \<times> ContextualPresence" where
  "contextual_arm self state operation_id now_ms =
     (if \<not> bootsel_allowed_as_presence state then (Err NotArmed, self)
      else let (r, c) = presence_arm (cp_controller self) operation_id now_ms
           in (r, self\<lparr>cp_controller := c\<rparr>))"

definition contextual_disarm :: "ContextualPresence \<Rightarrow> ContextualPresence" where
  "contextual_disarm self = self\<lparr>cp_controller := presence_disarm (cp_controller self)\<rparr>"

definition contextual_update ::
  "ContextualPresence \<Rightarrow> ExecutionState \<Rightarrow> bool \<Rightarrow> u64 \<Rightarrow>
     PresenceOutcome option \<times> ContextualPresence" where
  "contextual_update self state pressed now_ms =
     (if \<not> bootsel_allowed_as_presence state
      then (None, self\<lparr>cp_controller := presence_disarm (cp_controller self)\<rparr>)
      else let (r, c) = presence_update (cp_controller self) pressed now_ms
           in (r, self\<lparr>cp_controller := c\<rparr>))"

definition contextual_poll ::
  "ContextualPresence \<Rightarrow> ExecutionState \<Rightarrow> u64 \<Rightarrow> PresenceOutcome option \<times> ContextualPresence" where
  "contextual_poll self state now_ms =
     (if \<not> bootsel_allowed_as_presence state
      then (None, self\<lparr>cp_controller := presence_disarm (cp_controller self)\<rparr>)
      else let (r, c) = presence_poll (cp_controller self) now_ms
           in (r, self\<lparr>cp_controller := c\<rparr>))"

section \<open>Runs and what was seen\<close>

text \<open>What happened to a controller, the latest first, and what it says about the button: its
  level at the last sample, when the press in progress began, and whether that press was
  seen to begin after the latest arming.\<close>

datatype PresenceEvent = EvArm u32 u64 | EvDisarm | EvUpdate bool u64 | EvPoll u64

fun presence_event :: "PresenceEvent \<Rightarrow> PresenceController \<Rightarrow> PresenceOutcome option \<times> PresenceController" where
  "presence_event (EvArm op t) c = (None, snd (presence_arm c op t))"
| "presence_event EvDisarm c = (None, presence_disarm c)"
| "presence_event (EvUpdate b t) c = presence_update c b t"
| "presence_event (EvPoll t) c = presence_poll c t"

fun level :: "PresenceEvent list \<Rightarrow> bool" where
  "level [] = False"
| "level (EvUpdate b t # h) = b"
| "level (_ # h) = level h"

fun press_time :: "PresenceEvent list \<Rightarrow> u64" where
  "press_time [] = 0"
| "press_time (EvUpdate b t # h) = (if level h then press_time h else t)"
| "press_time (_ # h) = press_time h"

fun pressed_since_arm :: "PresenceEvent list \<Rightarrow> bool" where
  "pressed_since_arm [] = False"
| "pressed_since_arm (EvArm op t # h) = False"
| "pressed_since_arm (EvUpdate b t # h) = (b \<and> (\<not> level h \<or> pressed_since_arm h))"
| "pressed_since_arm (_ # h) = pressed_since_arm h"

fun event_time :: "PresenceEvent \<Rightarrow> u64" where
  "event_time (EvArm op t) = t"
| "event_time EvDisarm = 0"
| "event_time (EvUpdate b t) = t"
| "event_time (EvPoll t) = t"

text \<open>Runs of a controller. An arming that is refused because one is pending changes
  nothing and is not part of the history.\<close>

inductive presence_run :: "PresenceTiming \<Rightarrow> PresenceEvent list \<Rightarrow> PresenceController \<Rightarrow> bool"
  for timing where
  pr_new: "presence_run timing [] (presence_new timing)"
| pr_event: "presence_run timing h c \<Longrightarrow> (\<forall>op t. ev = EvArm op t \<longrightarrow> \<not> is_armed c) \<Longrightarrow>
    presence_run timing (ev # h) (snd (presence_event ev c))"

lemmas presence_defs = presence_arm_def presence_disarm_def presence_update_def presence_poll_def
  is_armed_def presence_new_def

lemma settle_keeps:
  "pc_timing (snd (settle c t)) = pc_timing c" "pc_raw_pressed (snd (settle c t)) = pc_raw_pressed c"
  "pc_raw_change_ms (snd (settle c t)) = pc_raw_change_ms c"
  by (simp_all add: settle_def settle_deadline_def Let_def split: option.splits)

lemma settle_confirmed:
  assumes "settle c t = (Some (Confirmed op), c')"
  shows "pc_raw_pressed c" and "\<not> pc_awaiting_release c" and "armed_operation c = Some op"
    and "ucast (debounce_ms (pc_timing c)) \<le> saturating_sub t (pc_raw_change_ms c)"
    and "pc_armed c' = None"
  using assms
  by (auto simp: settle_def settle_deadline_def armed_operation_def Let_def split: if_splits option.splits)

lemma settle_timed_out:
  assumes "settle c t = (Some (TimedOut op), c')"
  shows "armed_operation c = Some op" and "pc_armed c' = None"
    and "\<exists>a. pc_armed c = Some a \<and> arm_deadline_ms a \<le> t"
  using assms
  by (auto simp: settle_def settle_deadline_def armed_operation_def Let_def split: if_splits option.splits)

lemma settle_armed:
  assumes "pc_armed (snd (settle c t)) \<noteq> None"
  shows "pc_armed c \<noteq> None"
    and "pc_raw_pressed c \<Longrightarrow> \<not> pc_awaiting_release (snd (settle c t)) \<Longrightarrow> \<not> pc_awaiting_release c"
  using assms
  by (auto simp: settle_def settle_deadline_def Let_def split: if_splits option.splits)

lemma settle_unarmed:
  "pc_armed c = None \<Longrightarrow> fst (settle c t) = None \<and> pc_armed (snd (settle c t)) = None"
  by (simp add: settle_def settle_deadline_def Let_def)

definition history_inv :: "PresenceTiming \<Rightarrow> PresenceEvent list \<Rightarrow> PresenceController \<Rightarrow> bool" where
  "history_inv timing h c \<longleftrightarrow> pc_timing c = timing \<and> pc_raw_pressed c = level h \<and>
     (level h \<longrightarrow> pc_raw_change_ms c = press_time h) \<and>
     (pc_armed c \<noteq> None \<and> level h \<and> \<not> pc_awaiting_release c \<longrightarrow> pressed_since_arm h)"

text \<open>The state a sample settles from, and its invariant.\<close>

definition sampled :: "PresenceEvent \<Rightarrow> PresenceController \<Rightarrow> PresenceController" where
  "sampled ev c = (case ev of
      EvUpdate b t \<Rightarrow> if b \<noteq> pc_raw_pressed c then c\<lparr>pc_raw_pressed := b, pc_raw_change_ms := t\<rparr> else c
    | _ \<Rightarrow> c)"

lemma sampled_inv:
  assumes "history_inv timing h c" and "ev = EvUpdate b t \<or> ev = EvPoll t"
  shows "history_inv timing (ev # h) (sampled ev c)" and "presence_event ev c = settle (sampled ev c) t"
    and "pc_armed (sampled ev c) = pc_armed c"
  using assms by (auto simp: history_inv_def sampled_def presence_defs split: if_splits)

lemma history_inv_settle: "history_inv timing h c \<Longrightarrow> history_inv timing h (snd (settle c t))"
  using settle_armed [of c t] by (auto simp: history_inv_def settle_keeps)

lemma presence_run_inv: "presence_run timing h c \<Longrightarrow> history_inv timing h c"
proof (induction rule: presence_run.induct)
  case pr_new
  show ?case by (simp add: history_inv_def presence_new_def)
next
  case (pr_event h c ev)
  show ?case
  proof (cases ev)
    case (EvUpdate b t)
    with pr_event sampled_inv [of timing h c ev b t] history_inv_settle show ?thesis by auto
  next
    case (EvPoll t)
    with pr_event sampled_inv [of timing h c ev b t] history_inv_settle show ?thesis by auto
  qed (use pr_event in \<open>auto simp: history_inv_def presence_defs\<close>)
qed

section \<open>Properties\<close>

text \<open>C13: no replayed and no phantom presence. Whatever a controller went through, when an
  event confirms presence it confirms the operation that is armed, the button is held, that
  press was seen to begin after the operation was armed, it has lasted the debounce
  interval, and the operation is consumed: it is no longer armed.\<close>

theorem presence_no_replay:
  assumes "presence_run timing h c" and "presence_event ev c = (Some (Confirmed op), c')"
  shows "armed_operation c = Some op \<and> level (ev # h) \<and> pressed_since_arm (ev # h) \<and>
    unat (debounce_ms timing) \<le> unat (event_time ev) - unat (press_time (ev # h)) \<and>
    \<not> is_armed c'"
proof -
  note inv = presence_run_inv [OF assms(1)]
  from assms(2) obtain b t where ev: "ev = EvUpdate b t \<or> ev = EvPoll t" by (cases ev) auto
  note s = sampled_inv [OF inv ev]
  from assms(2) have "settle (sampled ev c) t = (Some (Confirmed op), c')" by (simp add: s(2))
  note conf = settle_confirmed [OF this]
  have "unat (debounce_ms timing) = unat (ucast (debounce_ms timing) :: u64)"
    by (simp add: unat_ucast_widen)
  also have "\<dots> \<le> unat t - unat (pc_raw_change_ms (sampled ev c))"
    using conf(4) s(1) by (simp add: word_le_nat_alt unat_saturating_sub history_inv_def)
  finally show ?thesis
    using conf s(1,3) ev by (auto simp: history_inv_def armed_operation_def is_armed_def)
qed

definition demo_timing :: PresenceTiming where
  "demo_timing = \<lparr>debounce_ms = 2, timeout_ms = 100\<rparr>"

definition demo_history :: "PresenceEvent list" where
  "demo_history = [EvUpdate True 6, EvUpdate True 5, EvUpdate False 4, EvArm 9 3]"

lemma demo_history_run:
  "presence_run demo_timing demo_history
     \<lparr>pc_timing = demo_timing, pc_armed = Some \<lparr>arm_operation_id = 9, arm_deadline_ms = 103\<rparr>,
      pc_raw_pressed = True, pc_debounced_pressed = False, pc_raw_change_ms = 5,
      pc_awaiting_release = False\<rparr>"
proof -
  let ?c = "presence_new demo_timing"
  let ?run = "\<lambda>evs. foldr (\<lambda>ev c. snd (presence_event ev c)) evs ?c"
  have "presence_run demo_timing demo_history (?run demo_history)"
    unfolding demo_history_def foldr.simps o_apply id_apply
    by (intro pr_event pr_new) (simp_all add: presence_new_def is_armed_def)
  moreover have "?run demo_history = \<lparr>pc_timing = demo_timing,
      pc_armed = Some \<lparr>arm_operation_id = 9, arm_deadline_ms = 103\<rparr>,
      pc_raw_pressed = True, pc_debounced_pressed = False, pc_raw_change_ms = 5,
      pc_awaiting_release = False\<rparr>"
    by code_simp
  ultimately show ?thesis by simp
qed

theorem presence_no_replay_witness:
  "pressed_since_arm (EvUpdate True 7 # demo_history) \<and>
   press_time (EvUpdate True 7 # demo_history) = 5"
proof -
  obtain c' where "presence_event (EvUpdate True 7) \<lparr>pc_timing = demo_timing,
      pc_armed = Some \<lparr>arm_operation_id = 9, arm_deadline_ms = 103\<rparr>,
      pc_raw_pressed = True, pc_debounced_pressed = False, pc_raw_change_ms = 5,
      pc_awaiting_release = False\<rparr> = (Some (Confirmed 9), c')"
    by (simp add: presence_update_def settle_def demo_timing_def saturating_sub_def Let_def)
  from presence_no_replay [OF demo_history_run this] show ?thesis by (simp add: demo_history_def)
qed

text \<open>Samples through the gate, each with the execution state it was taken in.\<close>

fun contextual_run ::
  "ContextualPresence \<Rightarrow> (ExecutionState \<times> bool \<times> u64) list \<Rightarrow>
     PresenceOutcome option list \<times> ContextualPresence" where
  "contextual_run g [] = ([], g)"
| "contextual_run g ((st, b, t) # xs) =
     (let (r, g) = contextual_update g st b t; (rs, g) = contextual_run g xs in (r # rs, g))"

lemma contextual_update_unarmed:
  "pc_armed (cp_controller g) = None \<Longrightarrow>
     fst (contextual_update g st b t) = None \<and>
     pc_armed (cp_controller (snd (contextual_update g st b t))) = None"
  using settle_unarmed
  by (auto simp: contextual_update_def presence_update_def presence_disarm_def case_prod_unfold Let_def)

lemma contextual_run_unarmed:
  "pc_armed (cp_controller g) = None \<Longrightarrow>
     set (fst (contextual_run g xs)) \<subseteq> {None} \<and> pc_armed (cp_controller (snd (contextual_run g xs))) = None"
proof (induction xs arbitrary: g)
  case (Cons x xs)
  obtain st b t where x: "x = (st, b, t)" by (metis prod_cases3)
  with contextual_update_unarmed [OF Cons.prems, of st b t] Cons.IH [of "snd (contextual_update g st b t)"]
  show ?case by (simp add: case_prod_unfold Let_def)
qed simp

lemma length_contextual_run: "length (fst (contextual_run g xs)) = length xs"
proof (induction xs arbitrary: g)
  case (Cons x xs)
  then show ?case by (cases x) (simp add: case_prod_unfold Let_def)
qed simp

lemma contextual_run_append:
  "contextual_run g (xs @ ys) =
     (let (rs, g) = contextual_run g xs; (qs, g) = contextual_run g ys in (rs @ qs, g))"
proof (induction xs arbitrary: g)
  case (Cons x xs)
  then show ?case by (cases x) (simp add: case_prod_unfold Let_def)
qed (simp add: case_prod_unfold)

text \<open>The contextual rule. Arming is refused outside \<open>X_FidoWaitPresence\<close>; and as soon
  as one sample is taken in any other state, the pending operation is gone: neither that
  sample nor any later one, whatever the button does and whatever the states, yields an
  outcome until an operation is armed again.\<close>

theorem contextual_presence_gate:
  assumes "st \<noteq> X_FidoWaitPresence"
    and "contextual_run g (before @ (st, b, t) # after) = (outcomes, g')"
  shows "contextual_arm g st op now = (Err NotArmed, g) \<and>
    set (drop (length before) outcomes) \<subseteq> {None} \<and> \<not> is_armed (cp_controller g')"
proof -
  obtain os g1 where r: "contextual_run g before = (os, g1)" by force
  have "length os = length before" using length_contextual_run [of g before] r by simp
  moreover have u: "contextual_update g1 st b t = (None, g1\<lparr>cp_controller := presence_disarm (cp_controller g1)\<rparr>)"
    using assms(1) by (simp add: contextual_update_def bootsel_allowed_as_presence_def)
  moreover note contextual_run_unarmed [of "g1\<lparr>cp_controller := presence_disarm (cp_controller g1)\<rparr>" after]
  ultimately show ?thesis
    using assms r
    by (auto simp: contextual_run_append contextual_arm_def bootsel_allowed_as_presence_def
        presence_disarm_def is_armed_def case_prod_unfold Let_def)
qed

theorem contextual_presence_gate_witness:
  "\<not> is_armed (cp_controller (snd (contextual_run
      (snd (contextual_arm (contextual_new demo_timing) X_FidoWaitPresence 1 0))
      [(X_FidoWaitPresence, True, 1), (X_Active, True, 2), (X_FidoWaitPresence, True, 3)])))"
proof -
  let ?g = "snd (contextual_arm (contextual_new demo_timing) X_FidoWaitPresence 1 0)"
  obtain os g' where "contextual_run ?g ([(X_FidoWaitPresence, True, 1)] @ (X_Active, True, 2) #
      [(X_FidoWaitPresence, True, 3)]) = (os, g')" by force
  with contextual_presence_gate [OF _ this] show ?thesis by simp
qed

section \<open>Waiting ends\<close>

text \<open>Feeding samples to the waiter until it answers.\<close>

fun waiter_wait :: "PresenceWaiter \<Rightarrow> bool list \<Rightarrow> ((bool, PresenceError) result \<times> PresenceWaiter) option" where
  "waiter_wait w [] = None"
| "waiter_wait w (b # bs) =
     (case waiter_poll w b of (Ok False, w) \<Rightarrow> waiter_wait w bs | (r, w) \<Rightarrow> Some (r, w))"

text \<open>A waiter that has been waiting for \<open>k\<close> samples.\<close>

definition waiting :: "nat \<Rightarrow> PresenceWaiter \<Rightarrow> bool" where
  "waiting k w \<longleftrightarrow> pw_armed w \<and> pw_now_ms w = of_nat k \<and>
     (\<exists>op. pc_armed (pw_controller w) = Some \<lparr>arm_operation_id = op,
        arm_deadline_ms = ucast (timeout_ms (pc_timing (pw_controller w)))\<rparr>)"

lemma waiter_begin_waiting:
  "fst (waiter_begin w) = Ok () \<and> waiting 0 (snd (waiter_begin w)) \<and>
   pc_timing (pw_controller (snd (waiter_begin w))) = pc_timing (pw_controller w)"
  by (simp add: waiter_begin_def waiting_def presence_arm_def presence_disarm_def Let_def)

lemma settle_None:
  assumes "pc_armed c = Some a" and "settle c t = (None, c')"
  shows "pc_armed c' = Some a \<and> \<not> arm_deadline_ms a \<le> t"
  using assms by (auto simp: settle_def settle_deadline_def Let_def split: if_splits option.splits)

lemma waiter_poll_waiting:
  assumes w: "waiting k w" and k: "k \<le> unat (timeout_ms (pc_timing (pw_controller w)))"
    and p: "waiter_poll w b = (r, w')"
  shows "r = Ok True \<or> r = Err PresenceTimeout \<or>
    (r = Ok False \<and> waiting (Suc k) w' \<and> pc_timing (pw_controller w') = pc_timing (pw_controller w) \<and>
     k < unat (timeout_ms (pc_timing (pw_controller w))))"
proof -
  let ?c = "pw_controller w" and ?t = "unat (timeout_ms (pc_timing (pw_controller w)))"
  obtain o1 c1 where u: "presence_update ?c b (of_nat k) = (o1, c1)" by force
  have small: "?t < 65536" by simp
  have "k < 18446744073709551615" using k small by linarith
  then have kk: "unat (of_nat k :: u64) = k" and "k + 1 < 18446744073709551616" by simp_all
  then have now: "saturating_add (of_nat k :: u64) 1 = of_nat (Suc k)"
    by (simp add: saturating_add_def)
  from w p u now have r: "r = (case o1 of Some (Confirmed _) \<Rightarrow> Ok True
        | Some (TimedOut _) \<Rightarrow> Err PresenceTimeout | None \<Rightarrow> Ok False)"
    and w': "o1 = None \<Longrightarrow> w' = w\<lparr>pw_controller := c1, pw_now_ms := of_nat (Suc k)\<rparr>"
    by (auto simp: waiter_poll_def waiting_def split: option.splits PresenceOutcome.splits)
  show ?thesis
  proof (cases o1)
    case None
    define c0 where "c0 = (if b \<noteq> pc_raw_pressed ?c
      then ?c\<lparr>pc_raw_pressed := b, pc_raw_change_ms := of_nat k\<rparr> else ?c)"
    have s: "settle c0 (of_nat k) = (None, c1)" using u None by (simp add: presence_update_def c0_def)
    have "pc_armed c0 = pc_armed ?c" by (simp add: c0_def)
    with w obtain op where a: "pc_armed c0 = Some \<lparr>arm_operation_id = op,
        arm_deadline_ms = ucast (timeout_ms (pc_timing ?c))\<rparr>" by (auto simp: waiting_def)
    from settle_None [OF a s] have "k < ?t"
      by (simp add: word_le_nat_alt unat_ucast_widen kk)
    moreover have "pc_timing c1 = pc_timing ?c"
      using settle_keeps(1) [of c0 "of_nat k"] s by (simp add: c0_def)
    ultimately show ?thesis
      using r None w' [OF None] w settle_None [OF a s] by (simp add: waiting_def)
  qed (use r in \<open>auto split: PresenceOutcome.splits\<close>)
qed

lemma waiter_wait_ends:
  assumes "waiting k w" and "k \<le> unat (timeout_ms (pc_timing (pw_controller w)))"
    and "unat (timeout_ms (pc_timing (pw_controller w))) < k + length bs"
  shows "\<exists>r w'. waiter_wait w bs = Some (r, w') \<and> (r = Ok True \<or> r = Err PresenceTimeout)"
  using assms
proof (induction bs arbitrary: k w)
  case (Cons b bs)
  obtain r w1 where p: "waiter_poll w b = (r, w1)" by force
  from waiter_poll_waiting [OF Cons.prems(1,2) p] Cons.IH [of "Suc k" w1] Cons.prems p
  show ?case by (auto split: result.splits bool.splits)
qed simp

text \<open>C40: waiting always ends. Once an operation is begun, whatever the button does, the
  waiter answers within \<open>timeout_ms + 1\<close> samples, either with presence or with a timeout.\<close>

theorem waiter_terminates:
  assumes "unat (timeout_ms (pc_timing (pw_controller w))) < length samples"
  shows "\<exists>r w'. waiter_wait (snd (waiter_begin w)) samples = Some (r, w') \<and>
    (r = Ok True \<or> r = Err PresenceTimeout)"
  using waiter_wait_ends [of 0 "snd (waiter_begin w)" samples] waiter_begin_waiting [of w] assms by simp

theorem waiter_terminates_witness:
  "\<exists>r w'. waiter_wait (snd (waiter_begin (waiter_new demo_timing))) (replicate 101 False) = Some (r, w') \<and>
    (r = Ok True \<or> r = Err PresenceTimeout)"
  by (rule waiter_terminates) (simp add: waiter_new_def presence_new_def demo_timing_def)

text \<open>A waiting controller whose button has been up, and one whose button went down at
  sample \<open>n\<close>.\<close>

definition button_up :: "PresenceController \<Rightarrow> bool" where
  "button_up c \<longleftrightarrow> \<not> pc_raw_pressed c \<and> \<not> pc_debounced_pressed c \<and> \<not> pc_awaiting_release c"

definition button_down :: "nat \<Rightarrow> PresenceController \<Rightarrow> bool" where
  "button_down n c \<longleftrightarrow> pc_raw_pressed c \<and> \<not> pc_debounced_pressed c \<and> \<not> pc_awaiting_release c \<and>
     pc_raw_change_ms c = of_nat n"

lemma waiter_poll_up:
  assumes w: "waiting k w" "button_up (pw_controller w)"
    and k: "k < unat (timeout_ms (pc_timing (pw_controller w)))"
  shows "\<exists>w'. waiter_poll w False = (Ok False, w') \<and> button_up (pw_controller w')"
proof -
  have small: "k < 65536" using k unat_u16_less [of "timeout_ms (pc_timing (pw_controller w))"] by linarith
  from w k have "presence_update (pw_controller w) False (of_nat k) = (None, pw_controller w)"
    using small by (auto simp: waiting_def button_up_def presence_update_def settle_def
        settle_deadline_def word_le_nat_alt unat_ucast_widen)
  with w show ?thesis by (auto simp: waiter_poll_def waiting_def)
qed

lemma waiter_poll_down:
  assumes w: "waiting k w" "button_up (pw_controller w) \<and> n = k \<or> button_down n (pw_controller w)"
    and k: "k < unat (timeout_ms (pc_timing (pw_controller w)))" and n: "n \<le> k"
  shows "\<exists>w'. waiter_poll w True =
     (Ok (unat (debounce_ms (pc_timing (pw_controller w))) \<le> k - n), w') \<and>
     (k - n < unat (debounce_ms (pc_timing (pw_controller w))) \<longrightarrow> button_down n (pw_controller w'))"
proof -
  let ?c = "pw_controller w"
  define c0 where "c0 = (if \<not> pc_raw_pressed ?c
    then ?c\<lparr>pc_raw_pressed := True, pc_raw_change_ms := of_nat k\<rparr> else ?c)"
  have small: "k < 65536" using k unat_u16_less [of "timeout_ms (pc_timing ?c)"] by linarith
  have c0: "button_down n c0" "pc_timing c0 = pc_timing ?c" "pc_armed c0 = pc_armed ?c"
    using w(2) by (auto simp: c0_def button_up_def button_down_def)
  have held: "unat (saturating_sub (of_nat k :: u64) (of_nat n)) = k - n"
    using small n by (simp add: unat_saturating_sub)
  have u: "presence_update ?c True (of_nat k) = settle c0 (of_nat k)"
    by (simp add: presence_update_def c0_def)
  have "settle c0 (of_nat k) =
      (if unat (debounce_ms (pc_timing ?c)) \<le> k - n
       then (map_option (\<lambda>a. Confirmed (arm_operation_id a)) (pc_armed ?c),
             c0\<lparr>pc_debounced_pressed := True, pc_armed := None\<rparr>)
       else (None, c0))"
    using w(1) c0 held small k
    by (auto simp: settle_def settle_deadline_def button_down_def waiting_def Let_def
        word_le_nat_alt unat_ucast_widen)
  with u w(1) c0(1) show ?thesis by (auto simp: waiter_poll_def waiting_def)
qed

lemma waiter_wait_down:
  assumes "waiting k w" "button_up (pw_controller w) \<and> n = k \<or> button_down n (pw_controller w)"
    and "n + unat (debounce_ms (pc_timing (pw_controller w))) <
         unat (timeout_ms (pc_timing (pw_controller w)))" and "n \<le> k"
    and "k \<le> n + unat (debounce_ms (pc_timing (pw_controller w)))"
    and "n + unat (debounce_ms (pc_timing (pw_controller w))) < k + m"
  shows "\<exists>w'. waiter_wait w (replicate m True @ rest) = Some (Ok True, w')"
  using assms
proof (induction m arbitrary: k w)
  case (Suc m)
  have k: "k < unat (timeout_ms (pc_timing (pw_controller w)))" using Suc.prems by linarith
  from waiter_poll_down [OF Suc.prems(1,2) k Suc.prems(4)] obtain w1 where
    p: "waiter_poll w True = (Ok (unat (debounce_ms (pc_timing (pw_controller w))) \<le> k - n), w1)"
    and d: "k - n < unat (debounce_ms (pc_timing (pw_controller w))) \<longrightarrow> button_down n (pw_controller w1)"
    by blast
  show ?case
  proof (cases "unat (debounce_ms (pc_timing (pw_controller w))) \<le> k - n")
    case True
    with p show ?thesis by simp
  next
    case False
    with waiter_poll_waiting [OF Suc.prems(1) less_imp_le [OF k] p]
    have "waiting (Suc k) w1" "pc_timing (pw_controller w1) = pc_timing (pw_controller w)" by auto
    with Suc.IH [of "Suc k" w1] Suc.prems d False p show ?thesis by simp
  qed
qed simp

lemma waiter_wait_up:
  assumes "waiting k w" "button_up (pw_controller w)"
    and "k + j < unat (timeout_ms (pc_timing (pw_controller w)))"
  shows "\<exists>w'. waiter_wait w (replicate j False @ rest) = waiter_wait w' rest \<and> waiting (k + j) w' \<and>
    button_up (pw_controller w') \<and> pc_timing (pw_controller w') = pc_timing (pw_controller w)"
  using assms
proof (induction j arbitrary: k w)
  case 0
  then show ?case by auto
next
  case (Suc j)
  have k: "k < unat (timeout_ms (pc_timing (pw_controller w)))" using Suc.prems by linarith
  from waiter_poll_up [OF Suc.prems(1,2) k] obtain w1 where
    p: "waiter_poll w False = (Ok False, w1)" "button_up (pw_controller w1)" by blast
  with waiter_poll_waiting [OF Suc.prems(1) less_imp_le [OF k] p(1)]
  have "waiting (Suc k) w1" "pc_timing (pw_controller w1) = pc_timing (pw_controller w)" by auto
  with Suc.IH [of "Suc k" w1] Suc.prems p show ?case by simp
qed

text \<open>A real press is honoured. If the button is up when an operation begins, stays up
  for any number of samples and is then held for \<open>debounce_ms + 1\<close> samples before the
  timeout, the waiter answers that presence is confirmed.\<close>

theorem waiter_press_confirms:
  assumes "\<not> pc_raw_pressed (pw_controller w)" and "\<not> pc_debounced_pressed (pw_controller w)"
    and "j + unat (debounce_ms (pc_timing (pw_controller w))) <
         unat (timeout_ms (pc_timing (pw_controller w)))"
    and "unat (debounce_ms (pc_timing (pw_controller w))) < m"
  shows "\<exists>w'. waiter_wait (snd (waiter_begin w)) (replicate j False @ replicate m True) =
    Some (Ok True, w')"
proof -
  let ?w = "snd (waiter_begin w)"
  have b: "waiting 0 ?w" "pc_timing (pw_controller ?w) = pc_timing (pw_controller w)"
    using waiter_begin_waiting by auto
  have "button_up (pw_controller ?w)"
    using assms(1,2) by (simp add: waiter_begin_def presence_arm_def presence_disarm_def button_up_def Let_def)
  from waiter_wait_up [OF b(1) this, of j "replicate m True"] b(2) assms(3) obtain w' where
    w': "waiter_wait ?w (replicate j False @ replicate m True) = waiter_wait w' (replicate m True)"
    "waiting j w'" "button_up (pw_controller w')"
    "pc_timing (pw_controller w') = pc_timing (pw_controller w)" by auto
  from waiter_wait_down [OF w'(2), of j m "[]"] w' assms(3,4) show ?thesis by simp
qed

theorem waiter_press_confirms_witness:
  "\<exists>w'. waiter_wait (snd (waiter_begin (waiter_new demo_timing))) (replicate 4 False @ replicate 3 True) =
    Some (Ok True, w')"
  by (rule waiter_press_confirms) (simp_all add: waiter_new_def presence_new_def demo_timing_def)

text \<open>The release of a press that was not yet debounced when the operation was armed does
  not clear \<open>awaiting_release\<close>, so the next full press is ignored: with a debounce of two
  samples, a one-sample press before arming, ten samples of release and fifty of a fresh
  press leave the operation unconfirmed.\<close>

lemma undebounced_release_ignored:
  "fst (presence_update
     (snd (presence_update
        (snd (presence_update
           (snd (presence_arm (snd (presence_update (presence_new demo_timing) True 1)) 1 2))
           False 3))
        True 13))
     True 63) = None"
  by code_simp

end
