(* ===== verification/Slot_Storage.thy ===== *)
theory Slot_Storage
  imports Core_Error
begin

unbundle bit_operations_syntax

text \<open>
  Power-fail-safe storage: the \<open>Storage\<close> trait of \<open>crates/aegis-core/src/traits.rs\<close>, the
  two-slot record store of \<open>storage.rs\<close> with \<open>crc32\<close> of \<open>configuration.rs\<close>, the flash
  adapters of \<open>crates/board-generic-rp2350/src/flash.rs\<close>, and the RAM device of the
  storage tests. The trait is a record of operations on a device state \<open>'d\<close>; the flash
  driver is third-party code and appears as a record of its three blocking calls.
\<close>

section \<open>Devices\<close>

record 'd StorageOps =
  st_read :: "'d \<Rightarrow> u32 \<Rightarrow> nat \<Rightarrow> bytes CoreResult \<times> 'd"
  st_write :: "'d \<Rightarrow> u32 \<Rightarrow> bytes \<Rightarrow> unit CoreResult \<times> 'd"
  st_erase :: "'d \<Rightarrow> u32 \<Rightarrow> u32 \<Rightarrow> unit CoreResult \<times> 'd"

text \<open>The RAM device of the tests.\<close>

record RamStorage =
  ram_data :: bytes

definition ram_read :: "RamStorage \<Rightarrow> u32 \<Rightarrow> nat \<Rightarrow> bytes CoreResult \<times> RamStorage" where
  "ram_read self offset n =
     (let start = unat offset; fin = start + n
      in if fin > length (ram_data self) then (Err StorageError, self)
         else (Ok (sub_slice start fin (ram_data self)), self))"

definition ram_write :: "RamStorage \<Rightarrow> u32 \<Rightarrow> bytes \<Rightarrow> unit CoreResult \<times> RamStorage" where
  "ram_write self offset data =
     (let start = unat offset; fin = start + length data
      in if fin > length (ram_data self) then (Err StorageError, self)
         else (Ok (), self\<lparr>ram_data := copy_at start data (ram_data self)\<rparr>))"

definition ram_erase :: "RamStorage \<Rightarrow> u32 \<Rightarrow> u32 \<Rightarrow> unit CoreResult \<times> RamStorage" where
  "ram_erase self offset len =
     (let start = unat offset; fin = start + unat len
      in if fin > length (ram_data self) then (Err StorageError, self)
         else (Ok (), self\<lparr>ram_data := copy_at start (replicate (unat len) 0xFF) (ram_data self)\<rparr>))"

definition ram_ops :: "RamStorage StorageOps" where
  "ram_ops = \<lparr>st_read = ram_read, st_write = ram_write, st_erase = ram_erase\<rparr>"

text \<open>The flash adapter: every driver error becomes \<open>StorageError\<close>, and the driver takes the
  end address of an erase.\<close>

record ('d, 'e) FlashDriver =
  blocking_read :: "'d \<Rightarrow> u32 \<Rightarrow> nat \<Rightarrow> (bytes, 'e) result \<times> 'd"
  blocking_write :: "'d \<Rightarrow> u32 \<Rightarrow> bytes \<Rightarrow> (unit, 'e) result \<times> 'd"
  blocking_erase :: "'d \<Rightarrow> u32 \<Rightarrow> u32 \<Rightarrow> (unit, 'e) result \<times> 'd"

definition flash_read :: "('d, 'e) FlashDriver \<Rightarrow> 'd \<Rightarrow> u32 \<Rightarrow> nat \<Rightarrow> bytes CoreResult \<times> 'd" where
  "flash_read drv self offset n =
     (let (r, self) = blocking_read drv self offset n in (map_err (\<lambda>_. StorageError) r, self))"

definition flash_write :: "('d, 'e) FlashDriver \<Rightarrow> 'd \<Rightarrow> u32 \<Rightarrow> bytes \<Rightarrow> unit CoreResult \<times> 'd" where
  "flash_write drv self offset data =
     (let (r, self) = blocking_write drv self offset data in (map_err (\<lambda>_. StorageError) r, self))"

definition flash_erase :: "('d, 'e) FlashDriver \<Rightarrow> 'd \<Rightarrow> u32 \<Rightarrow> u32 \<Rightarrow> unit CoreResult \<times> 'd" where
  "flash_erase drv self offset len =
     (let (r, self) = blocking_erase drv self offset (offset + len)
      in (map_err (\<lambda>_. StorageError) r, self))"

definition flash_ops :: "('d, 'e) FlashDriver \<Rightarrow> 'd StorageOps" where
  "flash_ops drv = \<lparr>st_read = flash_read drv, st_write = flash_write drv, st_erase = flash_erase drv\<rparr>"

text \<open>A window into a device. The lock around each call is the device state itself.\<close>

definition region_at :: "u32 \<Rightarrow> u32 \<Rightarrow> u32" where
  "region_at base offset = base + offset"

definition region_read :: "'d StorageOps \<Rightarrow> u32 \<Rightarrow> 'd \<Rightarrow> u32 \<Rightarrow> nat \<Rightarrow> bytes CoreResult \<times> 'd" where
  "region_read ops base self offset n =
     (case checked_add base offset of None \<Rightarrow> (Err StorageError, self)
      | Some base \<Rightarrow> st_read ops self base n)"

definition region_write :: "'d StorageOps \<Rightarrow> u32 \<Rightarrow> 'd \<Rightarrow> u32 \<Rightarrow> bytes \<Rightarrow> unit CoreResult \<times> 'd" where
  "region_write ops base self offset data =
     (case checked_add base offset of None \<Rightarrow> (Err StorageError, self)
      | Some base \<Rightarrow> st_write ops self base data)"

definition region_erase :: "'d StorageOps \<Rightarrow> u32 \<Rightarrow> 'd \<Rightarrow> u32 \<Rightarrow> u32 \<Rightarrow> unit CoreResult \<times> 'd" where
  "region_erase ops base self offset len =
     (case checked_add base offset of None \<Rightarrow> (Err StorageError, self)
      | Some base \<Rightarrow> st_erase ops self base len)"

definition region_ops :: "'d StorageOps \<Rightarrow> u32 \<Rightarrow> 'd StorageOps" where
  "region_ops ops base = \<lparr>st_read = region_read ops base, st_write = region_write ops base,
     st_erase = region_erase ops base\<rparr>"

section \<open>The record store\<close>

abbreviation (input) "SLOT_HEADER_LEN \<equiv> 16 :: nat"
abbreviation (input) "RECORD_VERSION \<equiv> 1 :: u16"
abbreviation (input) "MAX_PAYLOAD_BYTES \<equiv> 2304 :: nat"

definition SLOT_MAGIC :: bytes where
  "SLOT_MAGIC = [0x41, 0x47, 0x53, 0x4C]"

definition crc32_bit :: "u32 \<Rightarrow> u32" where
  "crc32_bit crc = (let mask = - (crc AND 1) in drop_bit 1 crc XOR (0xEDB88320 AND mask))"

definition crc32 :: "bytes \<Rightarrow> u32" where
  "crc32 data = NOT (fold (\<lambda>byte crc. (crc32_bit ^^ 8) (crc XOR ucast byte)) data 0xFFFFFFFF)"

record SlotStore =
  ss_base :: u32
  ss_slot_size :: u32

definition slot_offset :: "SlotStore \<Rightarrow> u32 \<Rightarrow> u32" where
  "slot_offset self index = ss_base self + index * ss_slot_size self"

text \<open>\<open>read_slot\<close> fills the caller's buffer; the model returns it.\<close>

definition read_slot ::
  "'d StorageOps \<Rightarrow> SlotStore \<Rightarrow> 'd \<Rightarrow> u32 \<Rightarrow> bytes \<Rightarrow> (u32 \<times> nat) option CoreResult \<times> 'd \<times> bytes" where
  "read_slot ops self d index out =
     (let offset = slot_offset self index
      in case st_read ops d offset SLOT_HEADER_LEN of
           (Err e, d) \<Rightarrow> (Err e, d, out)
         | (Ok header, d) \<Rightarrow>
             if take 4 header \<noteq> SLOT_MAGIC then (Ok None, d, out)
             else if of_le_bytes (sub_slice 8 10 header) \<noteq> RECORD_VERSION then (Ok None, d, out)
             else let sq = of_le_bytes (sub_slice 4 8 header);
                      len = unat (of_le_bytes (sub_slice 10 12 header) :: u16);
                      expected_crc = of_le_bytes (sub_slice 12 16 header)
                  in if len > length out \<or> len > MAX_PAYLOAD_BYTES then (Ok None, d, out)
                     else case st_read ops d (offset + of_nat SLOT_HEADER_LEN) len of
                            (Err e, d) \<Rightarrow> (Err e, d, out)
                          | (Ok data, d) \<Rightarrow>
                              let out = copy_at 0 data out
                              in if crc32 (take len out) \<noteq> expected_crc then (Ok None, d, out)
                                 else (Ok (Some (sq, len)), d, out))"

definition newer :: "u32 \<Rightarrow> (u32 \<times> 'a) option \<Rightarrow> bool" where
  "newer sq best = (case best of None \<Rightarrow> True | Some (best_sq, _) \<Rightarrow> sq > best_sq)"

fun scan_loop ::
  "'d StorageOps \<Rightarrow> SlotStore \<Rightarrow> 'd \<Rightarrow> bytes \<Rightarrow> (u32 \<times> u32) option \<Rightarrow> u32 list \<Rightarrow>
     (u32 \<times> u32) option CoreResult \<times> 'd" where
  "scan_loop ops self d scratch best [] = (Ok best, d)"
| "scan_loop ops self d scratch best (index # rest) =
     (case read_slot ops self d index scratch of
        (Err e, d, _) \<Rightarrow> (Err e, d)
      | (Ok None, d, scratch) \<Rightarrow> scan_loop ops self d scratch best rest
      | (Ok (Some (sq, _)), d, scratch) \<Rightarrow>
          scan_loop ops self d scratch (if newer sq best then Some (sq, index) else best) rest)"

definition scan :: "'d StorageOps \<Rightarrow> SlotStore \<Rightarrow> 'd \<Rightarrow> bytes \<Rightarrow> (u32 \<times> u32) option CoreResult \<times> 'd" where
  "scan ops self d scratch = scan_loop ops self d scratch None [0, 1]"

definition load_slot ::
  "'d StorageOps \<Rightarrow> SlotStore \<Rightarrow> 'd \<Rightarrow> u32 \<Rightarrow> bytes \<Rightarrow> (u32 \<times> nat) option CoreResult \<times> 'd \<times> bytes" where
  "load_slot ops self d index out =
     (if index \<ge> 2 then (Err StorageError, d, out) else read_slot ops self d index out)"

text \<open>\<open>load\<close> copies the newest record into the caller's buffer; a buffer shorter than that
  record is a panic of the slice, the value \<open>None\<close>.\<close>

fun load_loop ::
  "'d StorageOps \<Rightarrow> SlotStore \<Rightarrow> 'd \<Rightarrow> bytes \<Rightarrow> (u32 \<times> nat) option \<Rightarrow> bytes \<Rightarrow> u32 list \<Rightarrow>
     ((u32 \<times> nat) option CoreResult \<times> 'd \<times> bytes) option" where
  "load_loop ops self d scratch best out [] = Some (Ok best, d, out)"
| "load_loop ops self d scratch best out (index # rest) =
     (case read_slot ops self d index scratch of
        (Err e, d, _) \<Rightarrow> Some (Err e, d, out)
      | (Ok None, d, scratch) \<Rightarrow> load_loop ops self d scratch best out rest
      | (Ok (Some (sq, len)), d, scratch) \<Rightarrow>
          if newer sq best
          then if len \<le> length out
               then load_loop ops self d scratch (Some (sq, len))
                      (copy_at 0 (take len scratch) out) rest
               else None
          else load_loop ops self d scratch best out rest)"

definition slot_load ::
  "'d StorageOps \<Rightarrow> SlotStore \<Rightarrow> 'd \<Rightarrow> bytes \<Rightarrow> ((u32 \<times> nat) option CoreResult \<times> 'd \<times> bytes) option" where
  "slot_load ops self d out = load_loop ops self d (replicate MAX_PAYLOAD_BYTES 0) None out [0, 1]"

definition record_header :: "u32 \<Rightarrow> bytes \<Rightarrow> bytes" where
  "record_header next_sequence payload =
     SLOT_MAGIC @ le_bytes 4 next_sequence @ le_bytes 2 RECORD_VERSION @
     le_bytes 2 (of_nat (length payload) :: u16) @ le_bytes 4 (crc32 payload)"

definition slot_store ::
  "'d StorageOps \<Rightarrow> SlotStore \<Rightarrow> 'd \<Rightarrow> bytes \<Rightarrow> u32 CoreResult \<times> 'd" where
  "slot_store ops self d payload =
     (if length payload > MAX_PAYLOAD_BYTES then (Err StorageError, d)
      else case scan ops self d (replicate MAX_PAYLOAD_BYTES 0) of
             (Err e, d) \<Rightarrow> (Err e, d)
           | (Ok best, d) \<Rightarrow>
               let (next_sequence, inactive) =
                     (case best of Some (sq, index) \<Rightarrow> (sq + 1, 1 - index) | None \<Rightarrow> (1, 0));
                   offset = slot_offset self inactive
               in case st_erase ops d offset (ss_slot_size self) of
                    (Err e, d) \<Rightarrow> (Err e, d)
                  | (Ok _, d) \<Rightarrow>
                      (case st_write ops d offset (record_header next_sequence payload) of
                         (Err e, d) \<Rightarrow> (Err e, d)
                       | (Ok _, d) \<Rightarrow>
                           (case st_write ops d (offset + of_nat SLOT_HEADER_LEN) payload of
                              (Err e, d) \<Rightarrow> (Err e, d)
                            | (Ok _, d) \<Rightarrow> (Ok next_sequence, d))))"

section \<open>What a device promises\<close>

definition same_outside :: "nat \<Rightarrow> nat \<Rightarrow> bytes \<Rightarrow> bytes \<Rightarrow> bool" where
  "same_outside a n xs ys \<longleftrightarrow> length ys = length xs \<and> take a ys = take a xs \<and> drop (a + n) ys = drop (a + n) xs"

text \<open>A device that may fail at any operation, by losing power for instance: what a read
  returns is what is stored, a write or erase, failed or not, damages nothing outside its own
  range, and a write that succeeds lies inside the device.\<close>

locale faulty_storage =
  fixes ops :: "'d StorageOps" and valid :: "'d \<Rightarrow> bool" and content :: "'d \<Rightarrow> bytes" and dsize :: nat
  assumes content_size: "valid d \<Longrightarrow> length (content d) = dsize"
    and read_truth: "valid d \<Longrightarrow> st_read ops d off n = (r, d') \<Longrightarrow>
      valid d' \<and> content d' = content d \<and>
      (\<forall>bs. r = Ok bs \<longrightarrow> unat off + n \<le> dsize \<and> bs = take n (drop (unat off) (content d)))"
    and write_range: "valid d \<Longrightarrow> st_write ops d off data = (w, d') \<Longrightarrow>
      valid d' \<and> same_outside (unat off) (length data) (content d) (content d')"
    and write_bounds: "valid d \<Longrightarrow> st_write ops d off data = (Ok (), d') \<Longrightarrow> unat off + length data \<le> dsize"
    and erase_range: "valid d \<Longrightarrow> st_erase ops d off len = (w, d') \<Longrightarrow>
      valid d' \<and> same_outside (unat off) (unat len) (content d) (content d')"

text \<open>A working device: operations inside the device succeed; an erase sets a range to
  \<open>FF\<close>, and a write into an erased range stores the data.\<close>

locale storage_device = faulty_storage +
  fixes erasable :: "u32 \<Rightarrow> u32 \<Rightarrow> bool"
  assumes read_ok: "valid d \<Longrightarrow> unat off + n \<le> dsize \<Longrightarrow> \<exists>bs. fst (st_read ops d off n) = Ok bs"
    and write_ok: "valid d \<Longrightarrow> unat off + length data \<le> dsize \<Longrightarrow>
      take (length data) (drop (unat off) (content d)) = replicate (length data) 0xFF \<Longrightarrow>
      fst (st_write ops d off data) = Ok () \<and>
      content (snd (st_write ops d off data)) = copy_at (unat off) data (content d)"
    and erase_ok: "valid d \<Longrightarrow> unat off + unat len \<le> dsize \<Longrightarrow> erasable off len \<Longrightarrow>
      fst (st_erase ops d off len) = Ok () \<and>
      content (snd (st_erase ops d off len)) = copy_at (unat off) (replicate (unat len) 0xFF) (content d)"

lemma same_outside_copy_at: "a + length ys \<le> length xs \<Longrightarrow> same_outside a (length ys) xs (copy_at a ys xs)"
  by (simp add: same_outside_def copy_at_def)

lemma same_outside_refl [simp]: "same_outside a n xs xs"
  by (simp add: same_outside_def)

interpretation ram: storage_device ram_ops "\<lambda>d. length (ram_data d) = dsize" ram_data dsize
  "\<lambda>off len. True" for dsize
  by unfold_locales
     (auto simp: ram_ops_def ram_read_def ram_write_def ram_erase_def sub_slice_def Let_def
       same_outside_copy_at same_outside_copy_at [where ys = "replicate (unat len) x" for len x, simplified]
       split: if_splits)

section \<open>The records on a device\<close>

text \<open>The record a slot's bytes hold, for a buffer of \<open>cap\<close> bytes.\<close>

definition slot_record :: "nat \<Rightarrow> bytes \<Rightarrow> (u32 \<times> bytes) option" where
  "slot_record cap s =
     (let len = unat (of_le_bytes (sub_slice 10 12 s) :: u16); p = take len (drop SLOT_HEADER_LEN s)
      in if take 4 s = SLOT_MAGIC \<and> of_le_bytes (sub_slice 8 10 s) = RECORD_VERSION \<and>
            len \<le> cap \<and> len \<le> MAX_PAYLOAD_BYTES \<and> crc32 p = of_le_bytes (sub_slice 12 16 s)
         then Some (of_le_bytes (sub_slice 4 8 s), p) else None)"

definition slot_start :: "SlotStore \<Rightarrow> nat \<Rightarrow> nat" where
  "slot_start st i = unat (ss_base st) + i * unat (ss_slot_size st)"

definition slot_bytes :: "SlotStore \<Rightarrow> bytes \<Rightarrow> nat \<Rightarrow> bytes" where
  "slot_bytes st c i = take (unat (ss_slot_size st)) (drop (slot_start st i) c)"

text \<open>The two slots lie inside the device and have room for the largest record.\<close>

definition slots_fit :: "SlotStore \<Rightarrow> nat \<Rightarrow> bool" where
  "slots_fit st dsize \<longleftrightarrow> unat (ss_base st) + 2 * unat (ss_slot_size st) \<le> dsize \<and> dsize \<le> 2 ^ 32 \<and>
     SLOT_HEADER_LEN + MAX_PAYLOAD_BYTES \<le> unat (ss_slot_size st)"

definition newest :: "(u32 \<times> 'a) option \<Rightarrow> (u32 \<times> 'a) option \<Rightarrow> (u32 \<times> 'a) option" where
  "newest r0 r1 = (case r1 of None \<Rightarrow> r0 | Some (sq, p) \<Rightarrow> if newer sq r0 then r1 else r0)"

definition store_record :: "SlotStore \<Rightarrow> bytes \<Rightarrow> (u32 \<times> bytes) option" where
  "store_record st c =
     newest (slot_record MAX_PAYLOAD_BYTES (slot_bytes st c 0))
            (slot_record MAX_PAYLOAD_BYTES (slot_bytes st c 1))"

lemma slot_offset_unat:
  assumes "slots_fit st dsize" and "i = 0 \<or> i = 1"
  shows "unat (slot_offset st i) = slot_start st (unat i)"
    and "unat (slot_offset st i + 16) = slot_start st (unat i) + 16"
proof -
  have bound: "slot_start st (unat i) + 16 < 2 ^ 32"
    using assms by (auto simp: slots_fit_def slot_start_def)
  have "unat (i * ss_slot_size st) = unat i * unat (ss_slot_size st)"
    using assms(2) by auto
  with bound show "unat (slot_offset st i) = slot_start st (unat i)"
    by (simp add: slot_offset_def slot_start_def unat_word_ariths)
  with bound show "unat (slot_offset st i + 16) = slot_start st (unat i) + 16"
    by (simp add: unat_word_ariths)
qed

definition found :: "(u32 \<times> bytes) option \<Rightarrow> (u32 \<times> nat) option" where
  "found r = map_option (\<lambda>(sq, p). (sq, length p)) r"

lemma slot_header:
  assumes "slots_fit st dsize"
  shows "take SLOT_HEADER_LEN (slot_bytes st c i) = take SLOT_HEADER_LEN (drop (slot_start st i) c)"
    and "len \<le> MAX_PAYLOAD_BYTES \<Longrightarrow>
      take len (drop SLOT_HEADER_LEN (slot_bytes st c i)) = take len (drop (slot_start st i + SLOT_HEADER_LEN) c)"
  using assms by (auto simp: slot_bytes_def slots_fit_def drop_take min_def add.commute)

lemma same_outside_sub:
  "same_outside a n xs ys \<Longrightarrow> b \<le> a \<Longrightarrow> a + n \<le> b + m \<Longrightarrow> same_outside b m xs ys"
proof -
  assume eq: "same_outside a n xs ys" and le: "b \<le> a" "a + n \<le> b + m"
  have split: "take b zs = take b (take a zs)" "drop (b + m) zs = drop (b + m - (a + n)) (drop (a + n) zs)"
    for zs :: bytes using le by (simp_all add: min_def)
  show ?thesis
    using eq unfolding same_outside_def split [of xs] split [of ys] by (simp only: simp_thms)
qed

lemma same_outside_trans: "same_outside a n xs ys \<Longrightarrow> same_outside a n ys zs \<Longrightarrow> same_outside a n xs zs"
  by (simp add: same_outside_def)

definition inactive_slot :: "SlotStore \<Rightarrow> bytes \<Rightarrow> nat" where
  "inactive_slot st c =
     (case newest (map_option (\<lambda>(sq, p). (sq, 0 :: nat)) (slot_record MAX_PAYLOAD_BYTES (slot_bytes st c 0)))
                  (map_option (\<lambda>(sq, p). (sq, 1)) (slot_record MAX_PAYLOAD_BYTES (slot_bytes st c 1))) of
        None \<Rightarrow> 0 | Some (_, i) \<Rightarrow> 1 - i)"

context faulty_storage
begin

lemma read_slot_truth:
  assumes valid: "valid d" and fit: "slots_fit st dsize" and i: "i = 0 \<or> i = 1"
    and r: "read_slot ops st d i out = (r, d', out')"
  shows "valid d' \<and> content d' = content d \<and> length out' = length out \<and>
    (\<forall>x. r = Ok x \<longrightarrow> x = found (slot_record (length out) (slot_bytes st (content d) (unat i))) \<and>
       (\<forall>sq p. slot_record (length out) (slot_bytes st (content d) (unat i)) = Some (sq, p) \<longrightarrow>
          take (length p) out' = p))"
proof -
  let ?s = "slot_bytes st (content d) (unat i)"
  let ?len = "unat (of_le_bytes (sub_slice 10 12 ?s) :: u16)"
  obtain h d1 where h: "st_read ops d (slot_offset st i) SLOT_HEADER_LEN = (h, d1)" by force
  note t1 = read_truth [OF valid h]
  show ?thesis
  proof (cases h)
    case (Err e)
    with r h t1 show ?thesis by (auto simp: read_slot_def)
  next
    case (Ok header)
    with t1 have header: "header = take SLOT_HEADER_LEN ?s"
      unfolding slot_header(1) [OF fit] slot_offset_unat(1) [OF fit i] by simp
    have fields: "take 4 header = take 4 ?s" "sub_slice 8 10 header = sub_slice 8 10 ?s"
      "sub_slice 4 8 header = sub_slice 4 8 ?s" "sub_slice 10 12 header = sub_slice 10 12 ?s"
      "sub_slice 12 16 header = sub_slice 12 16 ?s"
      by (simp_all add: header sub_slice_take del: sub_slice_full)
    obtain q d2 where q: "st_read ops d1 (slot_offset st i + of_nat SLOT_HEADER_LEN) ?len = (q, d2)" by force
    have "valid d1" using t1 by blast
    note t2 = read_truth [OF this q]
    have q_ok: "length p = ?len" "p = take ?len (drop SLOT_HEADER_LEN ?s)"
      if "q = Ok p" "?len \<le> MAX_PAYLOAD_BYTES" for p
      using t1 t2 that content_size [of d1] slot_offset_unat(2) [OF fit i] slot_header(2) [OF fit that(2)]
      by (auto simp: min_def)
    define ok where "ok \<longleftrightarrow> take 4 ?s = SLOT_MAGIC \<and> of_le_bytes (sub_slice 8 10 ?s) = RECORD_VERSION \<and>
      ?len \<le> length out \<and> ?len \<le> MAX_PAYLOAD_BYTES"
    note read = r [unfolded read_slot_def Let_def h Ok prod.case result.case fields q]
    show ?thesis
    proof (cases ok)
      case False
      then have "r = Ok None" "d' = d1" "out' = out" "slot_record (length out) ?s = None"
        using read by (auto simp: ok_def slot_record_def Let_def split: if_splits)
      with t1 show ?thesis by (simp add: found_def)
    next
      case True
      show ?thesis
      proof (cases q)
        case (Err e)
        with read True t1 t2 show ?thesis by (auto simp: ok_def)
      next
        case q: (Ok p)
        have okd: "take 4 ?s = SLOT_MAGIC" "of_le_bytes (sub_slice 8 10 ?s) = RECORD_VERSION"
          "?len \<le> length out" "?len \<le> MAX_PAYLOAD_BYTES" using True by (simp_all add: ok_def)
        note p = q_ok [OF q okd(4)]
        have rec: "slot_record (length out) ?s =
            (if crc32 p = of_le_bytes (sub_slice 12 16 ?s) then Some (of_le_bytes (sub_slice 4 8 ?s), p) else None)"
          unfolding slot_record_def Let_def p(2) [symmetric] using okd by simp
        have out: "take ?len (copy_at 0 p out) = p" "length (copy_at 0 p out) = length out"
          using p(1) okd(3) by simp_all
        have "(r, d', out') = (if crc32 p = of_le_bytes (sub_slice 12 16 ?s)
            then (Ok (Some (of_le_bytes (sub_slice 4 8 ?s), ?len)), d2, copy_at 0 p out)
            else (Ok None, d2, copy_at 0 p out))"
          unfolding read [symmetric] q result.case out(1) using okd by simp
        then show ?thesis unfolding rec using t1 t2 out p(1) by (auto simp: found_def split: if_splits)
      qed
    qed
  qed
qed

lemma scan_truth:
  assumes valid: "valid d" and fit: "slots_fit st dsize" and len: "length scratch = MAX_PAYLOAD_BYTES"
    and r: "scan ops st d scratch = (r, d')"
  shows "valid d' \<and> content d' = content d \<and>
    (\<forall>best. r = Ok best \<longrightarrow>
      best = newest (map_option (\<lambda>(sq, p). (sq, 0)) (slot_record MAX_PAYLOAD_BYTES (slot_bytes st (content d) 0)))
                    (map_option (\<lambda>(sq, p). (sq, 1)) (slot_record MAX_PAYLOAD_BYTES (slot_bytes st (content d) 1))))"
proof -
  obtain r0 d0 o0 where r0: "read_slot ops st d 0 scratch = (r0, d0, o0)" by (metis prod_cases3)
  note t0 = read_slot_truth [OF valid fit _ r0, simplified]
  then have valid0: "valid d0" by blast
  obtain r1 d1 o1 where r1: "read_slot ops st d0 1 o0 = (r1, d1, o1)" by (metis prod_cases3)
  note t1 = read_slot_truth [OF valid0 fit _ r1, simplified]
  show ?thesis
    using r r0 r1 t0 t1 len
    by (auto simp: scan_def found_def newest_def newer_def split: result.splits option.splits)
qed

text \<open>However it ends, a store touches nothing outside the inactive slot.\<close>

lemma slot_store_range:
  assumes valid: "valid d" and fit: "slots_fit st dsize"
    and r: "slot_store ops st d payload = (r, d')"
  shows "valid d' \<and> same_outside (slot_start st (inactive_slot st (content d)))
    (unat (ss_slot_size st)) (content d) (content d')"
proof (cases "length payload \<le> MAX_PAYLOAD_BYTES")
  case False
  with r valid show ?thesis by (auto simp: slot_store_def)
next
  case True
  obtain b d1 where sc: "scan ops st d (replicate MAX_PAYLOAD_BYTES 0) = (b, d1)" by force
  note t1 = scan_truth [OF valid fit _ sc, simplified]
  show ?thesis
  proof (cases b)
    case (Err e)
    with r sc t1 True show ?thesis by (auto simp: slot_store_def)
  next
    case (Ok best)
    define q where "q = (case best of Some (sq, index) \<Rightarrow> (sq + 1, 1 - index) | None \<Rightarrow> (1, 0 :: u32))"
    let ?i = "snd q" and ?k = "inactive_slot st (content d)"
    have i: "?i = 0 \<or> ?i = 1" "unat ?i = ?k"
      using t1 Ok by (auto simp: q_def inactive_slot_def newest_def newer_def split: option.splits)
    note off = slot_offset_unat [OF fit i(1), unfolded i(2)]
    obtain e d2 where e: "st_erase ops d1 (slot_offset st ?i) (ss_slot_size st) = (e, d2)" by force
    have "valid d1" "content d1 = content d" using t1 by blast+
    note t2 = erase_range [OF this(1) e, unfolded this(2) off]
    obtain w d3 where w: "st_write ops d2 (slot_offset st ?i) (record_header (fst q) payload) = (w, d3)" by force
    have "length (record_header (fst q) payload) = SLOT_HEADER_LEN"
      by (simp add: record_header_def SLOT_MAGIC_def)
    then have t3: "valid d3 \<and> same_outside (slot_start st ?k) (unat (ss_slot_size st)) (content d2) (content d3)"
      using write_range [OF conjunct1 [OF t2] w, unfolded off] fit
      by (auto simp: slots_fit_def elim: same_outside_sub)
    obtain v d4 where v: "st_write ops d3 (slot_offset st ?i + of_nat SLOT_HEADER_LEN) payload = (v, d4)" by force
    have t4: "valid d4 \<and> same_outside (slot_start st ?k) (unat (ss_slot_size st)) (content d3) (content d4)"
      using write_range [OF conjunct1 [OF t3] v] off(2) fit True
      by (auto simp: slots_fit_def elim: same_outside_sub)
    have "d' \<in> {d2, d3, d4}"
      using r sc Ok True e w v
      by (auto simp: slot_store_def q_def [symmetric] case_prod_unfold Let_def split: result.splits)
    with t2 t3 t4 show ?thesis by (auto intro: same_outside_trans)
  qed
qed

end

text \<open>So the active record survives.\<close>

lemma slot_bytes_kept:
  assumes "same_outside (slot_start st k) (unat (ss_slot_size st)) c c'" and "k = 0 \<or> k = 1"
  shows "slot_bytes st c' (1 - k) = slot_bytes st c (1 - k)"
proof (cases "k = 0")
  case True
  with assms(1) show ?thesis by (simp add: slot_bytes_def slot_start_def same_outside_def)
next
  case False
  then have k: "k = 1" using assms(2) by simp
  have "slot_bytes st z 0 = drop (unat (ss_base st)) (take (slot_start st 1) z)" for z
    by (simp add: slot_bytes_def slot_start_def drop_take)
  with assms(1) k show ?thesis by (simp add: same_outside_def)
qed

lemma slot_record_of_record:
  assumes "length p \<le> MAX_PAYLOAD_BYTES"
  shows "slot_record MAX_PAYLOAD_BYTES (record_header sq p @ p @ rest) = Some (sq, p)"
proof -
  have len: "length SLOT_MAGIC = 4" by (simp add: SLOT_MAGIC_def)
  have "unat (of_nat (length p) :: u16) = length p" using assms by simp
  then show ?thesis
    using assms len
    by (simp add: slot_record_def record_header_def sub_slice_def Let_def)
qed

lemma inactive_slot_01: "inactive_slot st c = 0 \<or> inactive_slot st c = 1"
  by (auto simp: inactive_slot_def split: option.splits prod.splits)

text \<open>Where the newest record is, in terms of the slot a store would leave alone.\<close>

lemma store_record_active:
  assumes "store_record st c = Some (sq, p)"
  shows "slot_record MAX_PAYLOAD_BYTES (slot_bytes st c (1 - inactive_slot st c)) = Some (sq, p)"
  using assms
  by (auto simp: store_record_def inactive_slot_def newest_def newer_def split: option.splits if_splits)

lemma store_record_cases:
  assumes "k = 0 \<or> k = 1"
    and "slot_record MAX_PAYLOAD_BYTES (slot_bytes st c (1 - k)) = Some (sq, p)"
  shows "store_record st c = Some (sq, p) \<or>
    (\<exists>sq' p'. slot_record MAX_PAYLOAD_BYTES (slot_bytes st c k) = Some (sq', p') \<and> sq \<le> sq' \<and>
       store_record st c = Some (sq', p'))"
  using assms by (auto simp: store_record_def newest_def newer_def split: option.splits if_splits)

lemma store_record_newer:
  assumes "k = 0 \<or> k = 1"
    and "slot_record MAX_PAYLOAD_BYTES (slot_bytes st c k) = Some (sq, p)"
    and "\<forall>sq' p'. slot_record MAX_PAYLOAD_BYTES (slot_bytes st c (1 - k)) = Some (sq', p') \<longrightarrow> sq' < sq"
  shows "store_record st c = Some (sq, p)"
  using assms by (auto simp: store_record_def newest_def newer_def split: option.splits)

context storage_device
begin

lemma read_slot_ok:
  assumes "valid d" and fit: "slots_fit st dsize" and i: "i = 0 \<or> i = 1"
  shows "\<exists>x. fst (read_slot ops st d i out) = Ok x"
proof -
  have off: "unat (slot_offset st i) + 16 \<le> dsize" "unat (slot_offset st i + 16) + 2304 \<le> dsize"
    using slot_offset_unat [OF fit i] fit i by (auto simp: slots_fit_def slot_start_def)
  obtain h d1 where h: "st_read ops d (slot_offset st i) 16 = (Ok h, d1)"
    using read_ok [OF assms(1) off(1)] by (metis prod.collapse)
  have "valid d1" using read_truth [OF assms(1) h] by blast
  note ok1 = read_ok [OF this, of "slot_offset st i + 16"]
  let ?len = "unat (of_le_bytes (sub_slice 10 12 h) :: u16)"
  show ?thesis
  proof (cases "?len \<le> 2304")
    case True
    with off(2) have "unat (slot_offset st i + 16) + ?len \<le> dsize" by linarith
    from ok1 [OF this] obtain bs d2 where "st_read ops d1 (slot_offset st i + 16) ?len = (Ok bs, d2)"
      by (cases "st_read ops d1 (slot_offset st i + 16) ?len") auto
    with h True show ?thesis by (simp add: read_slot_def Let_def)
  next
    case False
    with h show ?thesis by (simp add: read_slot_def Let_def)
  qed
qed

lemma slot_record_len: "slot_record cap s = Some (sq, p) \<Longrightarrow> length p \<le> MAX_PAYLOAD_BYTES"
  by (auto simp: slot_record_def Let_def split: if_splits)

lemma slot_load_eq:
  assumes valid: "valid d" and fit: "slots_fit st dsize" and out: "MAX_PAYLOAD_BYTES \<le> length out"
  shows "\<exists>d' out'. slot_load ops st d out = Some (Ok (found (store_record st (content d))), d', out') \<and>
    valid d' \<and> content d' = content d \<and>
    (\<forall>sq p. store_record st (content d) = Some (sq, p) \<longrightarrow> take (length p) out' = p)"
proof -
  let ?z = "replicate MAX_PAYLOAD_BYTES 0 :: bytes"
  obtain x0 d0 o0 where r0: "read_slot ops st d 0 ?z = (Ok x0, d0, o0)"
    using read_slot_ok [OF valid fit, of 0 ?z] by (metis prod.collapse)
  note t0 = read_slot_truth [OF valid fit _ r0, simplified]
  then have valid0: "valid d0" by blast
  obtain x1 d1 o1 where r1: "read_slot ops st d0 1 o0 = (Ok x1, d1, o1)"
    using read_slot_ok [OF valid0 fit, of 1 o0] by (metis prod.collapse)
  note t1 = read_slot_truth [OF valid0 fit _ r1, simplified]
  define a b where "a = slot_record MAX_PAYLOAD_BYTES (slot_bytes st (content d) 0)"
    and "b = slot_record MAX_PAYLOAD_BYTES (slot_bytes st (content d) 1)"
  have x0: "x0 = found a" "\<forall>sq p. a = Some (sq, p) \<longrightarrow> take (length p) o0 = p \<and> length p \<le> length out"
    and x1: "x1 = found b" "\<forall>sq p. b = Some (sq, p) \<longrightarrow> take (length p) o1 = p \<and> length p \<le> length out"
    and d1: "valid d1" "content d1 = content d"
    using t0 t1 out by (auto simp: a_def b_def dest!: slot_record_len)
  have rec: "store_record st (content d) = newest a b" by (simp add: store_record_def a_def b_def)
  show ?thesis
    unfolding rec slot_load_def load_loop.simps r0 r1 x0(1) x1(1) prod.case result.case
    using x0(2) x1(2) d1
    by (cases a; cases b) (auto simp: found_def newest_def newer_def r1 x1(1) split: prod.splits if_splits)
qed

lemma scan_ok:
  assumes valid: "valid d" and fit: "slots_fit st dsize"
  shows "\<exists>best d1. scan ops st d (replicate MAX_PAYLOAD_BYTES 0) = (Ok best, d1) \<and>
    valid d1 \<and> content d1 = content d"
proof -
  let ?z = "replicate MAX_PAYLOAD_BYTES 0 :: bytes"
  obtain x0 d0 o0 where r0: "read_slot ops st d 0 ?z = (Ok x0, d0, o0)"
    using read_slot_ok [OF valid fit, of 0 ?z] by (metis prod.collapse)
  have "valid d0" using read_slot_truth [OF valid fit _ r0, simplified] by blast
  then obtain x1 d1 o1 where r1: "read_slot ops st d0 1 o0 = (Ok x1, d1, o1)"
    using read_slot_ok [OF _ fit, of d0 1 o0] by (metis prod.collapse)
  obtain best where "scan ops st d ?z = (Ok best, d1)"
    using r0 r1 by (cases x0; cases x1) (auto simp: scan_def)
  with scan_truth [OF valid fit _ this] show ?thesis by auto
qed

lemma erase_done:
  assumes "valid d" and "unat off + unat len \<le> dsize" and "erasable off len"
  obtains d' where "st_erase ops d off len = (Ok (), d')" and "valid d'"
    and "content d' = copy_at (unat off) (replicate (unat len) 0xFF) (content d)"
  using erase_ok [OF assms] erase_range [OF assms(1), of off len]
  by (cases "st_erase ops d off len") auto

lemma write_done:
  assumes "valid d" and "unat off + length data \<le> dsize"
    and "take (length data) (drop (unat off) (content d)) = replicate (length data) 0xFF"
  obtains d' where "st_write ops d off data = (Ok (), d')" and "valid d'"
    and "content d' = copy_at (unat off) data (content d)"
  using write_ok [OF assms] write_range [OF assms(1), of off data]
  by (cases "st_write ops d off data") auto

lemma slot_store_ok:
  assumes valid: "valid d" and fit: "slots_fit st dsize" and len: "length payload \<le> MAX_PAYLOAD_BYTES"
    and erasable: "erasable (slot_offset st 0) (ss_slot_size st)" "erasable (slot_offset st 1) (ss_slot_size st)"
  defines "k \<equiv> inactive_slot st (content d)"
    and "sq \<equiv> (case store_record st (content d) of Some (sq, p) \<Rightarrow> sq + 1 | None \<Rightarrow> 1)"
  shows "\<exists>d' rest. slot_store ops st d payload = (Ok sq, d') \<and> valid d' \<and>
    slot_bytes st (content d') k = record_header sq payload @ payload @ rest \<and>
    slot_bytes st (content d') (1 - k) = slot_bytes st (content d) (1 - k)"
proof -
  obtain best d1 where sc: "scan ops st d (replicate MAX_PAYLOAD_BYTES 0) = (Ok best, d1)"
    and d1: "valid d1" "content d1 = content d" using scan_ok [OF valid fit] by blast
  define q where "q = (case best of Some (s, index) \<Rightarrow> (s + 1, 1 - index) | None \<Rightarrow> (1, 0 :: u32))"
  have i: "snd q = 0 \<or> snd q = 1" "unat (snd q) = k" "fst q = sq"
    using scan_truth [OF valid fit _ sc]
    by (auto simp: q_def k_def sq_def inactive_slot_def store_record_def newest_def newer_def split: option.splits)
  let ?o = "slot_start st k" and ?z = "unat (ss_slot_size st)" and ?h = "record_header sq payload"
  note off = slot_offset_unat [OF fit i(1), unfolded i(2)]
  have hl: "length ?h = 16" by (simp add: record_header_def SLOT_MAGIC_def)
  have geo: "?o + ?z \<le> dsize" "16 + length payload \<le> ?z"
    using fit len i(1,2) by (auto simp: slots_fit_def slot_start_def)
  have er: "erasable (slot_offset st (snd q)) (ss_slot_size st)" using erasable i(1) by auto
  obtain d2 where e: "st_erase ops d1 (slot_offset st (snd q)) (ss_slot_size st) = (Ok (), d2)"
    and v2: "valid d2" and c2: "content d2 = copy_at ?o (replicate ?z 0xFF) (content d)"
    using erase_done [OF d1(1) _ er] off geo d1(2) by auto
  have size: "length (content d) = dsize" by (rule content_size [OF valid])
  have "take 16 (drop ?o (content d2)) = replicate 16 0xFF"
    using geo size by (simp add: c2 copy_at_def)
  then obtain d3 where w: "st_write ops d2 (slot_offset st (snd q)) ?h = (Ok (), d3)"
    and v3: "valid d3" and c3: "content d3 = copy_at ?o ?h (content d2)"
    using write_done [OF v2, of "slot_offset st (snd q)" ?h] off geo hl by auto
  have "take (length payload) (drop (?o + 16) (content d3)) = replicate (length payload) 0xFF"
    using geo size hl by (simp add: c2 c3 copy_at_def)
  then obtain d4 where x: "st_write ops d3 (slot_offset st (snd q) + of_nat SLOT_HEADER_LEN) payload = (Ok (), d4)"
    and v4: "valid d4" and c4: "content d4 = copy_at (?o + 16) payload (content d3)"
    using write_done [OF v3, of "slot_offset st (snd q) + 16" payload] off geo by auto
  have "slot_store ops st d payload = (Ok sq, d4)"
    using sc e w x len i(3) by (simp add: slot_store_def q_def [symmetric] case_prod_unfold Let_def)
  moreover have "slot_bytes st (content d4) k =
      ?h @ payload @ drop (16 + length payload) (replicate ?z 0xFF)"
    using geo size hl by (simp add: slot_bytes_def c4 c3 c2 copy_at_def)
  moreover have "slot_bytes st (content d4) (1 - k) = slot_bytes st (content d) (1 - k)"
    using slot_store_range [OF valid fit \<open>slot_store ops st d payload = (Ok sq, d4)\<close>] i(1,2)
    unfolding k_def [symmetric] by (intro slot_bytes_kept) auto
  ultimately show ?thesis using v4 by blast
qed

end

section \<open>The firmware's devices keep the contract\<close>

text \<open>What the adapter relies on of the flash driver: reads return what is stored, writes and
  erases stay in their range, and inside the device reads succeed, writes into erased
  flash store the data, and sector-aligned erases set the range to \<open>FF\<close>. The driver
  takes the end address of an erase.\<close>

definition sector_range :: "u32 \<Rightarrow> u32 \<Rightarrow> bool" where
  "sector_range off len \<longleftrightarrow> unat off mod 4096 = 0 \<and> unat len mod 4096 = 0 \<and> unat off + unat len < 2 ^ 32"

locale flash_driver =
  fixes drv :: "('d, 'e) FlashDriver" and valid :: "'d \<Rightarrow> bool" and content :: "'d \<Rightarrow> bytes" and dsize :: nat
  assumes drv_size: "valid d \<Longrightarrow> length (content d) = dsize"
    and drv_read: "valid d \<Longrightarrow> blocking_read drv d off n = (r, d') \<Longrightarrow>
      valid d' \<and> content d' = content d \<and>
      (\<forall>bs. r = Ok bs \<longrightarrow> unat off + n \<le> dsize \<and> bs = take n (drop (unat off) (content d)))"
    and drv_write: "valid d \<Longrightarrow> blocking_write drv d off data = (w, d') \<Longrightarrow>
      valid d' \<and> same_outside (unat off) (length data) (content d) (content d')"
    and drv_bounds: "valid d \<Longrightarrow> blocking_write drv d off data = (Ok (), d') \<Longrightarrow> unat off + length data \<le> dsize"
    and drv_erase: "valid d \<Longrightarrow> blocking_erase drv d off fin = (w, d') \<Longrightarrow>
      valid d' \<and> same_outside (unat off) (unat (fin - off)) (content d) (content d')"
    and drv_read_ok: "valid d \<Longrightarrow> unat off + n \<le> dsize \<Longrightarrow> \<exists>bs. fst (blocking_read drv d off n) = Ok bs"
    and drv_write_ok: "valid d \<Longrightarrow> unat off + length data \<le> dsize \<Longrightarrow>
      take (length data) (drop (unat off) (content d)) = replicate (length data) 0xFF \<Longrightarrow>
      fst (blocking_write drv d off data) = Ok () \<and>
      content (snd (blocking_write drv d off data)) = copy_at (unat off) data (content d)"
    and drv_erase_ok: "valid d \<Longrightarrow> off \<le> fin \<Longrightarrow> unat fin \<le> dsize \<Longrightarrow> unat off mod 4096 = 0 \<Longrightarrow>
      unat (fin - off) mod 4096 = 0 \<Longrightarrow>
      fst (blocking_erase drv d off fin) = Ok () \<and>
      content (snd (blocking_erase drv d off fin)) =
        copy_at (unat off) (replicate (unat (fin - off)) 0xFF) (content d)"

sublocale flash_driver \<subseteq> flash: storage_device "flash_ops drv" valid content dsize sector_range
proof
  show "length (content d) = dsize" if "valid d" for d using drv_size [OF that] .
  show "valid d' \<and> content d' = content d \<and>
      (\<forall>bs. r = Ok bs \<longrightarrow> unat off + n \<le> dsize \<and> bs = take n (drop (unat off) (content d)))"
    if "valid d" "st_read (flash_ops drv) d off n = (r, d')" for d off n r d'
    using that drv_read [OF that(1), of off n]
    by (cases "blocking_read drv d off n"; cases "fst (blocking_read drv d off n)")
       (auto simp: flash_ops_def flash_read_def)
  show "valid d' \<and> same_outside (unat off) (length data) (content d) (content d')"
    if "valid d" "st_write (flash_ops drv) d off data = (w, d')" for d off data w d'
    using that drv_write [OF that(1), of off data]
    by (cases "blocking_write drv d off data") (auto simp: flash_ops_def flash_write_def)
  show "unat off + length data \<le> dsize" if "valid d" "st_write (flash_ops drv) d off data = (Ok (), d')" for d off data d'
    using that drv_bounds [OF that(1), of off data]
    by (cases "blocking_write drv d off data"; cases "fst (blocking_write drv d off data)")
       (auto simp: flash_ops_def flash_write_def)
  show "valid d' \<and> same_outside (unat off) (unat len) (content d) (content d')"
    if "valid d" "st_erase (flash_ops drv) d off len = (w, d')" for d off len w d'
    using that drv_erase [OF that(1), of off "off + len"]
    by (cases "blocking_erase drv d off (off + len)") (auto simp: flash_ops_def flash_erase_def)
  show "\<exists>bs. fst (st_read (flash_ops drv) d off n) = Ok bs" if "valid d" "unat off + n \<le> dsize" for d off n
    using drv_read_ok [OF that] by (cases "blocking_read drv d off n") (auto simp: flash_ops_def flash_read_def)
  show "fst (st_write (flash_ops drv) d off data) = Ok () \<and>
      content (snd (st_write (flash_ops drv) d off data)) = copy_at (unat off) data (content d)"
    if "valid d" "unat off + length data \<le> dsize"
      "take (length data) (drop (unat off) (content d)) = replicate (length data) 0xFF" for d off data
    using drv_write_ok [OF that]
    by (cases "blocking_write drv d off data") (auto simp: flash_ops_def flash_write_def)
  show "fst (st_erase (flash_ops drv) d off len) = Ok () \<and>
      content (snd (st_erase (flash_ops drv) d off len)) =
        copy_at (unat off) (replicate (unat len) 0xFF) (content d)"
    if "valid d" "unat off + unat len \<le> dsize" "sector_range off len" for d off len
  proof -
    have "unat (off + len) = unat off + unat len"
      using that(3) by (simp add: sector_range_def unat_word_ariths)
    with that drv_erase_ok [OF that(1), of off "off + len"] show ?thesis
      by (cases "blocking_erase drv d off (off + len)")
         (auto simp: flash_ops_def flash_erase_def sector_range_def word_le_nat_alt)
  qed
qed

text \<open>A driver over RAM, with which these assumptions hold.\<close>

definition ram_driver :: "(RamStorage, CoreError) FlashDriver" where
  "ram_driver = \<lparr>blocking_read = ram_read, blocking_write = ram_write,
     blocking_erase = (\<lambda>d from to. ram_erase d from (to - from))\<rparr>"

interpretation ram_flash: flash_driver ram_driver "\<lambda>d. length (ram_data d) = dsize" ram_data dsize for dsize
  by unfold_locales
     (auto simp: ram_driver_def ram_read_def ram_write_def ram_erase_def sub_slice_def Let_def
       same_outside_copy_at same_outside_copy_at [where ys = "replicate (unat len) x" for len x, simplified]
       unat_sub word_le_nat_alt split: if_splits)

text \<open>A window of a device is a device.\<close>

lemma same_outside_drop:
  assumes "same_outside (a + b) n xs ys"
  shows "same_outside b n (drop a xs) (drop a ys)"
proof -
  have "take b (drop a zs) = drop a (take (a + b) zs)" for zs :: bytes by (simp add: drop_take)
  with assms show ?thesis by (simp add: same_outside_def add.assoc add.commute add.left_commute)
qed

lemma region_target:
  assumes "checked_add base off = Some t"
  shows "unat t = unat base + unat off" and "t = base + off"
  using assms by (auto simp: checked_add_def unat_word_ariths split: if_splits)

context storage_device
begin

lemma region_in_range:
  fixes base off :: u32
  assumes "dsize < 2 ^ 32" and "unat base \<le> dsize" and "unat off + n \<le> dsize - unat base"
  shows "checked_add base off = Some (base + off)" and "unat (base + off) = unat base + unat off"
    and "unat (base + off) + n \<le> dsize"
  using assms by (auto simp: checked_add_def unat_word_ariths)

lemma region_device:
  assumes small: "dsize < 2 ^ 32" and base: "unat base \<le> dsize"
  shows "storage_device (region_ops ops base) valid (\<lambda>d. drop (unat base) (content d))
    (dsize - unat base) (\<lambda>off len. erasable (base + off) len)"
proof
  show "length (drop (unat base) (content d)) = dsize - unat base" if "valid d" for d
    using content_size [OF that] by simp
  show "valid d' \<and> drop (unat base) (content d') = drop (unat base) (content d) \<and>
      (\<forall>bs. r = Ok bs \<longrightarrow> unat off + n \<le> dsize - unat base \<and>
         bs = take n (drop (unat off) (drop (unat base) (content d))))"
    if "valid d" "st_read (region_ops ops base) d off n = (r, d')" for d off n r d'
  proof (cases "checked_add base off")
    case None
    with that show ?thesis by (auto simp: region_ops_def region_read_def)
  next
    case (Some t)
    with that have "st_read ops d t n = (r, d')" by (simp add: region_ops_def region_read_def)
    from read_truth [OF that(1) this] region_target(1) [OF Some] show ?thesis
      by (auto simp: add.commute)
  qed
  show "valid d' \<and> same_outside (unat off) (length data) (drop (unat base) (content d)) (drop (unat base) (content d'))"
    if "valid d" "st_write (region_ops ops base) d off data = (w, d')" for d off data w d'
    using that write_range [OF that(1)]
    by (auto simp: region_ops_def region_write_def region_target(1) [symmetric]
        intro!: same_outside_drop split: option.splits)
  show "unat off + length data \<le> dsize - unat base"
    if "valid d" "st_write (region_ops ops base) d off data = (Ok (), d')" for d off data d'
    using that write_bounds [OF that(1)] region_target(1) [of base off]
    by (fastforce simp: region_ops_def region_write_def split: option.splits)
  show "valid d' \<and> same_outside (unat off) (unat len) (drop (unat base) (content d)) (drop (unat base) (content d'))"
    if "valid d" "st_erase (region_ops ops base) d off len = (w, d')" for d off len w d'
    using that erase_range [OF that(1)]
    by (auto simp: region_ops_def region_erase_def region_target(1) [symmetric]
        intro!: same_outside_drop split: option.splits)
  show "\<exists>bs. fst (st_read (region_ops ops base) d off n) = Ok bs"
    if "valid d" "unat off + n \<le> dsize - unat base" for d off n
    using read_ok [OF that(1)] region_in_range [OF small base that(2)]
    by (simp add: region_ops_def region_read_def)
  show "fst (st_write (region_ops ops base) d off data) = Ok () \<and>
      drop (unat base) (content (snd (st_write (region_ops ops base) d off data))) =
        copy_at (unat off) data (drop (unat base) (content d))"
    if "valid d" "unat off + length data \<le> dsize - unat base"
      "take (length data) (drop (unat off) (drop (unat base) (content d))) = replicate (length data) 0xFF"
    for d off data
    using write_ok [OF that(1), of "base + off" data] region_in_range [OF small base that(2)] that(3)
      content_size [OF that(1)]
    by (simp add: region_ops_def region_write_def copy_at_def drop_take add.commute add.left_commute)
  show "fst (st_erase (region_ops ops base) d off len) = Ok () \<and>
      drop (unat base) (content (snd (st_erase (region_ops ops base) d off len))) =
        copy_at (unat off) (replicate (unat len) 0xFF) (drop (unat base) (content d))"
    if "valid d" "unat off + unat len \<le> dsize - unat base" "erasable (base + off) len" for d off len
    using erase_ok [OF that(1), of "base + off" len] region_in_range [OF small base that(2)] that(3)
      content_size [OF that(1)]
    by (simp add: region_ops_def region_erase_def copy_at_def drop_take add.commute add.left_commute)
qed

end

lemma store_record_None:
  assumes "store_record st c = None" and "k = 0 \<or> k = 1"
  shows "slot_record MAX_PAYLOAD_BYTES (slot_bytes st c k) = None"
  using assms by (auto simp: store_record_def newest_def newer_def split: option.splits if_splits)

lemma u32_less_succ:
  fixes s :: u32
  assumes "s \<noteq> - 1"
  shows "s < s + 1"
proof -
  have "unat (- 1 :: u32) = 4294967295" by (simp add: unsigned_minus_1_eq_mask mask_eq_exp_minus_1)
  moreover have "unat s \<noteq> unat (- 1 :: u32)" using assms by (simp only: word_unat_eq_iff) simp
  moreover have "unat s < 4294967296" using unsigned_less [of s] by simp
  ultimately have "unat s + 1 < 4294967296" by linarith
  then show ?thesis by (simp add: word_less_nat_alt unat_word_ariths)
qed

lemma store_record_next:
  fixes st c k c'
  defines "sq \<equiv> (case store_record st c of Some (s, p) \<Rightarrow> s + 1 | None \<Rightarrow> 1)"
  assumes k: "k = inactive_slot st c" and kept: "slot_bytes st c' (1 - k) = slot_bytes st c (1 - k)"
    and new: "slot_record MAX_PAYLOAD_BYTES (slot_bytes st c' k) = Some (sq, p)"
    and nowrap: "\<forall>q. store_record st c \<noteq> Some (0xFFFFFFFF, q)"
  shows "store_record st c' = Some (sq, p)"
proof (rule store_record_newer [OF _ new])
  show k01: "k = 0 \<or> k = 1" using inactive_slot_01 k by simp
  show "\<forall>s q. slot_record MAX_PAYLOAD_BYTES (slot_bytes st c' (1 - k)) = Some (s, q) \<longrightarrow> s < sq"
  proof (cases "store_record st c")
    case None
    then show ?thesis using store_record_None [of st c "1 - k"] k01 kept by auto
  next
    case (Some x)
    then obtain s q where sq: "store_record st c = Some (s, q)" by (cases x) auto
    with nowrap have "s \<noteq> - 1" by auto
    then have "s < s + 1" by (rule u32_less_succ)
    then show ?thesis using store_record_active [OF sq] k kept sq by (simp add: sq_def)
  qed
qed

lemma store_record_wrap:
  assumes old: "store_record st c = Some (0xFFFFFFFF, q)"
    and k: "k = inactive_slot st c" and kept: "slot_bytes st c' (1 - k) = slot_bytes st c (1 - k)"
    and new: "slot_record MAX_PAYLOAD_BYTES (slot_bytes st c' k) = Some (0, p)"
  shows "store_record st c' = Some (0xFFFFFFFF, q)"
  using store_record_cases [of k st c' "0xFFFFFFFF" q] store_record_active [OF old] inactive_slot_01 k kept new
  by auto

section \<open>Properties\<close>

definition demo_flash :: RamStorage where
  "demo_flash = \<lparr>ram_data = replicate 12288 0xFF\<rparr>"

definition demo_store :: SlotStore where
  "demo_store = \<lparr>ss_base = 0, ss_slot_size = 4096\<rparr>"

lemma demo_region:
  "storage_device (region_ops (flash_ops ram_driver) 4096) (\<lambda>d. length (ram_data d) = 12288)
     (\<lambda>d. drop 4096 (ram_data d)) 8192 (\<lambda>off len. sector_range (4096 + off) len)"
  using ram_flash.flash.region_device [of 12288 4096] by simp

lemma blank_magic: "replicate 4 0xFF \<noteq> SLOT_MAGIC"
  by code_simp

lemma demo_empty: "store_record demo_store (drop 4096 (ram_data demo_flash)) = None"
  by (simp add: store_record_def demo_store_def demo_flash_def slot_bytes_def slot_start_def
      slot_record_def newest_def sub_slice_def blank_magic Let_def)

text \<open>C28: On a working device whose two slots fit, storing a payload of at most the maximum size
  succeeds, and a following load into a large enough buffer returns exactly that payload with the next
  sequence number. The exception is the wrap-around of the 32-bit sequence: once the stored sequence
  is the largest one, the store still reports success (with sequence 0) but the following load
  returns the old record.\<close>

theorem storage_roundtrip:
  assumes dev: "storage_device ops valid content dsize erasable"
    and valid: "valid d" and fit: "slots_fit st dsize"
    and erasable: "erasable (slot_offset st 0) (ss_slot_size st)" "erasable (slot_offset st 1) (ss_slot_size st)"
    and len: "length payload \<le> MAX_PAYLOAD_BYTES" and out: "MAX_PAYLOAD_BYTES \<le> length out"
  defines "old \<equiv> store_record st (content d)"
    and "sq \<equiv> (case store_record st (content d) of Some (s, p) \<Rightarrow> s + 1 | None \<Rightarrow> 1)"
  shows "\<exists>d1. slot_store ops st d payload = (Ok sq, d1) \<and>
    (\<exists>d2 out'. slot_load ops st d1 out =
        Some (Ok (Some (if \<exists>q. old = Some (0xFFFFFFFF, q) then (0xFFFFFFFF, length (snd (the old)))
                        else (sq, length payload))), d2, out') \<and>
      (if \<exists>q. old = Some (0xFFFFFFFF, q) then take (length (snd (the old))) out' = snd (the old)
       else take (length payload) out' = payload))"
proof -
  let ?k = "inactive_slot st (content d)"
  obtain d1 rest where st: "slot_store ops st d payload = (Ok sq, d1)" "valid d1"
    and new: "slot_bytes st (content d1) ?k = record_header sq payload @ payload @ rest"
    and kept: "slot_bytes st (content d1) (1 - ?k) = slot_bytes st (content d) (1 - ?k)"
    using storage_device.slot_store_ok [OF dev valid fit len erasable] unfolding sq_def by blast
  have rec: "slot_record MAX_PAYLOAD_BYTES (slot_bytes st (content d1) ?k) = Some (sq, payload)"
    unfolding new by (rule slot_record_of_record [OF len])
  obtain d2 out' where ld: "slot_load ops st d1 out = Some (Ok (found (store_record st (content d1))), d2, out')"
    and got: "\<forall>s p. store_record st (content d1) = Some (s, p) \<longrightarrow> take (length p) out' = p"
    using storage_device.slot_load_eq [OF dev st(2) fit out] by blast
  have "store_record st (content d1) = (if \<exists>q. old = Some (0xFFFFFFFF, q) then old else Some (sq, payload))"
    using store_record_next [OF refl kept rec [unfolded sq_def]]
      store_record_wrap [OF _ refl kept, of _ payload] rec
    unfolding old_def sq_def by auto
  with st(1) ld got show ?thesis by (auto simp: found_def)
qed

theorem storage_roundtrip_witness:
  "\<exists>d1. slot_store (region_ops (flash_ops ram_driver) 4096) demo_store demo_flash [1, 2, 3] = (Ok 1, d1) \<and>
     (\<exists>d2 out'. slot_load (region_ops (flash_ops ram_driver) 4096) demo_store d1 (replicate 2304 0) =
        Some (Ok (Some (1, 3)), d2, out') \<and> take 3 out' = [1, 2, 3])"
  using storage_roundtrip [OF demo_region, of demo_flash demo_store "[1, 2, 3]" "replicate 2304 0"]
  by (simp add: demo_empty numeral_3_eq_3)
     (simp add: demo_flash_def demo_store_def slots_fit_def sector_range_def slot_offset_def)

text \<open>C9: A store that is cut short or fails at any of its erase and write calls never loses the
  record that was stored: on a device that may fail any call and may leave the erased or written
  range in any state, the newest valid record after the store is the old one, or a record found in
  the slot being rewritten whose sequence is not smaller.\<close>

theorem storage_power_fail:
  assumes dev: "faulty_storage ops valid content dsize"
    and valid: "valid d" and fit: "slots_fit st dsize"
    and old: "store_record st (content d) = Some (sq, p)"
    and run: "slot_store ops st d payload = (r, d')"
  shows "store_record st (content d') = Some (sq, p) \<or>
    (\<exists>sq' p'. slot_record MAX_PAYLOAD_BYTES (slot_bytes st (content d') (inactive_slot st (content d))) =
        Some (sq', p') \<and> sq \<le> sq' \<and> store_record st (content d') = Some (sq', p'))"
proof (rule store_record_cases [OF inactive_slot_01])
  have "same_outside (slot_start st (inactive_slot st (content d))) (unat (ss_slot_size st)) (content d) (content d')"
    using faulty_storage.slot_store_range [OF dev valid fit run] by blast
  from slot_bytes_kept [OF this inactive_slot_01]
  show "slot_record MAX_PAYLOAD_BYTES (slot_bytes st (content d') (1 - inactive_slot st (content d))) = Some (sq, p)"
    using store_record_active [OF old] by simp
qed

definition torn_ops :: "RamStorage StorageOps" where
  "torn_ops = ram_ops\<lparr>st_write := (\<lambda>d off data. (Err StorageError, snd (ram_write d off (take 1 data))))\<rparr>"

definition demo_stored :: RamStorage where
  "demo_stored = \<lparr>ram_data = record_header 1 [7] @ [7] @ replicate 8175 0xFF\<rparr>"

lemma length_demo_stored: "length (ram_data demo_stored) = 8192"
  by (simp add: demo_stored_def record_header_def SLOT_MAGIC_def)

lemma demo_stored_record: "store_record demo_store (ram_data demo_stored) = Some (1, [7])"
proof -
  have len: "length (record_header 1 [7]) = 16" by (simp add: record_header_def SLOT_MAGIC_def)
  have "slot_bytes demo_store (ram_data demo_stored) 0 = record_header 1 [7] @ [7] @ replicate 4079 0xFF"
    using len by (simp add: demo_store_def demo_stored_def slot_bytes_def slot_start_def)
  then have "slot_record MAX_PAYLOAD_BYTES (slot_bytes demo_store (ram_data demo_stored) 0) = Some (1, [7])"
    using slot_record_of_record [of "[7]" 1 "replicate 4079 0xFF"] by simp
  moreover have "slot_bytes demo_store (ram_data demo_stored) 1 = replicate 4096 0xFF"
    using len by (simp add: demo_store_def demo_stored_def slot_bytes_def slot_start_def)
  then have "slot_record MAX_PAYLOAD_BYTES (slot_bytes demo_store (ram_data demo_stored) 1) = None"
    by (simp add: slot_record_def blank_magic Let_def)
  ultimately show ?thesis by (simp add: store_record_def newest_def)
qed

lemma torn_storage: "faulty_storage torn_ops (\<lambda>d. length (ram_data d) = 8192) ram_data 8192"
proof
  fix d off data w d'
  assume "length (ram_data d) = 8192" "st_write torn_ops d off data = (w, d')"
  then show "length (ram_data d') = 8192 \<and> same_outside (unat off) (length data) (ram_data d) (ram_data d')"
    by (cases data)
       (auto simp: torn_ops_def ram_write_def Let_def same_outside_def copy_at_def add.commute split: if_splits)
qed (auto simp: torn_ops_def dest: ram.read_truth ram.write_bounds ram.erase_range)

theorem storage_power_fail_witness:
  "\<exists>r d'. slot_store torn_ops demo_store demo_stored [1, 2] = (r, d') \<and>
     (store_record demo_store (ram_data d') = Some (1, [7]) \<or>
      (\<exists>sq' p'. slot_record MAX_PAYLOAD_BYTES
          (slot_bytes demo_store (ram_data d') (inactive_slot demo_store (ram_data demo_stored))) =
            Some (sq', p') \<and> 1 \<le> sq' \<and> store_record demo_store (ram_data d') = Some (sq', p')))"
proof -
  obtain r d' where run: "slot_store torn_ops demo_store demo_stored [1, 2] = (r, d')" by force
  have "slots_fit demo_store 8192" by (simp add: slots_fit_def demo_store_def)
  from storage_power_fail [OF torn_storage length_demo_stored this demo_stored_record run] run
  show ?thesis by blast
qed

end
