(* ===== verification/Firmware_Update.thy ===== *)
theory Firmware_Update
  imports Slot_Storage
begin

text \<open>Firmware update: package headers, whole-package verification and the chunked session of
  \<open>update.rs\<close>, the flash layout of \<open>hardware_profile.rs\<close>, and the management handler
  \<open>handle_update\<close> of the firmware. SHA-256 and P-256 are third-party code: a record of the
  digest, the two decoders and the verification call. A hasher is the bytes it has been fed,
  which its documentation equates with one digest of their concatenation.

  Shown here: a finished session accepts exactly what whole-package verification accepts, no
  sequence of update commands reports success for anything else, and none touches the flash
  below the staging region.\<close>

section \<open>Flash layout\<close>

record FlashLayout =
  config_offset :: u32
  slot_size :: u32
  applet_offset :: u32
  applet_size :: u32
  staging_offset :: u32

definition STANDARD :: FlashLayout where
  "STANDARD = \<lparr>config_offset = 0x100000, slot_size = 4096, applet_offset = 0x110000,
     applet_size = 0x30000, staging_offset = 0x140000\<rparr>"

definition applet_store_count :: "FlashLayout \<Rightarrow> u32" where
  "applet_store_count self = applet_size self div (slot_size self * 2)"

definition applet_store_offset :: "FlashLayout \<Rightarrow> u32 \<Rightarrow> u32" where
  "applet_store_offset self index = applet_offset self + index * slot_size self * 2"

section \<open>Packages\<close>

abbreviation (input) "FORMAT_VERSION \<equiv> (1 :: u16)"
abbreviation (input) "SIGNED_HEADER_LEN \<equiv> (51 :: nat)"
abbreviation (input) "SIGNATURE_OFFSET \<equiv> (51 :: nat)"
abbreviation (input) "PACKAGE_HEADER_LEN \<equiv> (115 :: nat)"
abbreviation (input) "CMD_BEGIN \<equiv> (0x10 :: u8)"
abbreviation (input) "CMD_WRITE \<equiv> (0x11 :: u8)"
abbreviation (input) "CMD_FINISH \<equiv> (0x12 :: u8)"
abbreviation (input) "CMD_ABORT \<equiv> (0x13 :: u8)"

definition PACKAGE_MAGIC :: bytes where
  "PACKAGE_MAGIC = [0x41, 0x47, 0x46, 0x55]"

record FirmwareVersion =
  v_major :: u8
  v_minor :: u8
  v_patch :: u8

record PackageHeader =
  ph_rollback :: u32
  ph_version :: FirmwareVersion
  ph_image_len :: u32
  ph_image_sha256 :: bytes
  ph_signature :: bytes

record VerifiedImage =
  vi_version :: FirmwareVersion
  vi_rollback :: u32
  vi_image_len :: u32

record ('k, 's) UpdateCrypto =
  sha256_digest :: "bytes \<Rightarrow> bytes"
  from_sec1_bytes :: "bytes \<Rightarrow> 'k option"
  signature_from_slice :: "bytes \<Rightarrow> 's option"
  verify_prehash :: "'k \<Rightarrow> bytes \<Rightarrow> 's \<Rightarrow> bool"

definition package_header_parse :: "bytes \<Rightarrow> PackageHeader CoreResult" where
  "package_header_parse bs =
     (if length bs < PACKAGE_HEADER_LEN then Err FirmwareError
      else if sub_slice 0 4 bs \<noteq> PACKAGE_MAGIC then Err FirmwareError
      else if of_le_bytes (sub_slice 4 6 bs) \<noteq> FORMAT_VERSION then Err FirmwareError
      else if unat (of_le_bytes (sub_slice 6 8 bs) :: u16) \<noteq> PACKAGE_HEADER_LEN then Err FirmwareError
      else Ok \<lparr>ph_rollback = of_le_bytes (sub_slice 8 12 bs),
               ph_version = \<lparr>v_major = bs ! 12, v_minor = bs ! 13, v_patch = bs ! 14\<rparr>,
               ph_image_len = of_le_bytes (sub_slice 15 19 bs),
               ph_image_sha256 = sub_slice 19 51 bs,
               ph_signature = sub_slice SIGNATURE_OFFSET PACKAGE_HEADER_LEN bs\<rparr>)"

definition signed_prefix :: "bytes \<Rightarrow> bytes" where
  "signed_prefix bs = sub_slice 0 SIGNED_HEADER_LEN bs"

definition verify_signature :: "('k, 's) UpdateCrypto \<Rightarrow> bytes \<Rightarrow> bytes \<Rightarrow> bytes \<Rightarrow> bool" where
  "verify_signature cr key_sec1 prehash signature =
     (case from_sec1_bytes cr key_sec1 of
        None \<Rightarrow> False
      | Some key \<Rightarrow>
          (case signature_from_slice cr signature of
             None \<Rightarrow> False
           | Some sg \<Rightarrow> verify_prehash cr key prehash sg))"

text \<open>Lengths are unbounded here. On a 32-bit target the sum of the header and image lengths can wrap for an image of nearly
  \<open>2\<^sup>3\<^sup>2\<close> bytes, and slicing would then panic where the model answers an error; the firmware itself
  verifies by the chunked session below, which does not form this sum.\<close>

definition verify_package ::
    "('k, 's) UpdateCrypto \<Rightarrow> bytes \<Rightarrow> bytes \<Rightarrow> u32 \<Rightarrow> VerifiedImage CoreResult" where
  "verify_package cr package vendor_key_sec1 min_rollback =
     and_then (package_header_parse package) (\<lambda>header.
       let image_len = unat (ph_image_len header)
       in if length package < PACKAGE_HEADER_LEN + image_len then Err FirmwareError
          else let image = sub_slice PACKAGE_HEADER_LEN (PACKAGE_HEADER_LEN + image_len) package
            in if sha256_digest cr image \<noteq> ph_image_sha256 header then Err FirmwareError
               else if ph_rollback header < min_rollback then Err FirmwareError
               else if \<not> verify_signature cr vendor_key_sec1
                          (sha256_digest cr (signed_prefix package @ image)) (ph_signature header)
                    then Err FirmwareError
               else Ok \<lparr>vi_version = ph_version header, vi_rollback = ph_rollback header,
                        vi_image_len = ph_image_len header\<rparr>)"

section \<open>The chunked session\<close>

record UpdateSession =
  us_header :: PackageHeader
  us_signed_prefix :: bytes
  us_key_sec1 :: bytes
  us_min_rollback :: u32
  us_base :: u32
  us_erase_size :: u32
  us_received :: u32

text \<open>\<open>u32::div_ceil\<close>.\<close>

definition div_ceil :: "u32 \<Rightarrow> u32 \<Rightarrow> u32" where
  "div_ceil a b = a div b + (if a mod b > 0 then 1 else 0)"

text \<open>The multiplication and the additions wrap, as in the release build.\<close>

definition session_begin ::
    "('k, 's) UpdateCrypto \<Rightarrow> 'd StorageOps \<Rightarrow> bytes \<Rightarrow> bytes \<Rightarrow> u32 \<Rightarrow> u32 \<Rightarrow> u32 \<Rightarrow> 'd
      \<Rightarrow> UpdateSession CoreResult \<times> 'd" where
  "session_begin cr ops header_bytes vendor_key_sec1 min_rollback base erase_size d =
     (if length vendor_key_sec1 > 65 \<or> erase_size = 0 then (Err FirmwareError, d)
      else case package_header_parse header_bytes of
          Err e \<Rightarrow> (Err e, d)
        | Ok header \<Rightarrow>
            if ph_rollback header < min_rollback then (Err FirmwareError, d)
            else if from_sec1_bytes cr vendor_key_sec1 = None then (Err FirmwareError, d)
            else let erase_len = div_ceil (ph_image_len header) erase_size * erase_size
              in (case st_erase ops d base erase_len of
                    (Err e, d) \<Rightarrow> (Err e, d)
                  | (Ok _, d) \<Rightarrow>
                      (Ok \<lparr>us_header = header, us_signed_prefix = sub_slice 0 SIGNED_HEADER_LEN header_bytes,
                           us_key_sec1 = vendor_key_sec1, us_min_rollback = min_rollback, us_base = base,
                           us_erase_size = erase_size, us_received = 0\<rparr>, d)))"

definition session_write ::
    "'d StorageOps \<Rightarrow> UpdateSession \<Rightarrow> 'd \<Rightarrow> bytes \<Rightarrow> unit CoreResult \<times> UpdateSession \<times> 'd" where
  "session_write ops self d chunk =
     (case checked_add (us_received self) (of_nat (length chunk)) of
        None \<Rightarrow> (Err FirmwareError, self, d)
      | Some fin \<Rightarrow>
          if fin > ph_image_len (us_header self) then (Err FirmwareError, self, d)
          else (case st_write ops d (us_base self + us_received self) chunk of
                  (Err e, d) \<Rightarrow> (Err e, self, d)
                | (Ok _, d) \<Rightarrow> (Ok (), self\<lparr>us_received := fin\<rparr>, d)))"

text \<open>The read-back loop, with what the two hashers have been fed.\<close>

function finish_loop ::
    "'d StorageOps \<Rightarrow> u32 \<Rightarrow> u32 \<Rightarrow> u32 \<Rightarrow> bytes \<Rightarrow> bytes \<Rightarrow> 'd \<Rightarrow> (bytes \<times> bytes) CoreResult \<times> 'd" where
  "finish_loop ops base image_len offset image_hasher signature_hasher d =
     (if offset < image_len then
        let remaining = unat (image_len - offset); n = min remaining 256
        in (case st_read ops d (base + offset) n of
              (Err e, d) \<Rightarrow> (Err e, d)
            | (Ok buffer, d) \<Rightarrow>
                finish_loop ops base image_len (offset + of_nat n)
                  (image_hasher @ buffer) (signature_hasher @ buffer) d)
      else (Ok (image_hasher, signature_hasher), d))"
  by pat_completeness auto

lemma finish_step:
  fixes offset image_len :: u32
  assumes "offset < image_len"
  defines "n \<equiv> min (unat (image_len - offset)) 256"
  shows "unat (offset + of_nat n) = unat offset + n" and "0 < n" and "unat offset + n \<le> unat image_len"
proof -
  have sub: "unat (image_len - offset) = unat image_len - unat offset"
    using assms(1) by (simp add: unat_sub)
  then show "0 < n" and le: "unat offset + n \<le> unat image_len"
    using assms(1) by (auto simp: n_def word_less_nat_alt)
  have "n < 2 ^ 32" by (simp add: n_def)
  then have "unat (of_nat n :: u32) = n" by simp
  moreover have "unat offset + n < 4294967296" using le unat_u32_less [of image_len] by linarith
  ultimately show "unat (offset + of_nat n) = unat offset + n"
    by (simp add: unat_word_ariths)
qed

termination finish_loop
  by (relation "measure (\<lambda>(ops, base, image_len, offset, _). unat image_len - unat offset)")
     (use finish_step in \<open>fastforce simp: word_less_nat_alt\<close>)+

declare finish_loop.simps [simp del]

definition session_finish ::
    "('k, 's) UpdateCrypto \<Rightarrow> 'd StorageOps \<Rightarrow> UpdateSession \<Rightarrow> 'd \<Rightarrow> VerifiedImage CoreResult \<times> 'd" where
  "session_finish cr ops self d =
     (let header = us_header self
      in if us_received self \<noteq> ph_image_len header then (Err FirmwareError, d)
         else case finish_loop ops (us_base self) (ph_image_len header) 0 [] (us_signed_prefix self) d of
             (Err e, d) \<Rightarrow> (Err e, d)
           | (Ok (image_hasher, signature_hasher), d) \<Rightarrow>
               if sha256_digest cr image_hasher \<noteq> ph_image_sha256 header then (Err FirmwareError, d)
               else if ph_rollback header < us_min_rollback self then (Err FirmwareError, d)
               else if \<not> verify_signature cr (us_key_sec1 self) (sha256_digest cr signature_hasher) (ph_signature header)
                    then (Err FirmwareError, d)
               else (Ok \<lparr>vi_version = ph_version header, vi_rollback = ph_rollback header,
                         vi_image_len = ph_image_len header\<rparr>, d))"

section \<open>The firmware's handler\<close>

abbreviation (input) "INSTALLED_ROLLBACK \<equiv> (1 :: u32)"

text \<open>The answer is one status byte. The vendor key is generated by the build.\<close>

definition update_ok :: u8 where
  "update_ok = 0"

definition update_error :: u8 where
  "update_error = core_error_code FirmwareError"

definition handle_update ::
    "('k, 's) UpdateCrypto \<Rightarrow> bytes \<Rightarrow> FlashLayout \<Rightarrow> 'd StorageOps \<Rightarrow> u8 \<Rightarrow> bytes
      \<Rightarrow> UpdateSession option \<Rightarrow> 'd \<Rightarrow> u8 \<times> UpdateSession option \<times> 'd" where
  "handle_update cr vendor_key layout ops command payload handler d =
     (if command = CMD_BEGIN then
        (case session_begin cr ops payload vendor_key INSTALLED_ROLLBACK (staging_offset layout) (slot_size layout) d of
           (Ok session, d) \<Rightarrow> (update_ok, Some session, d)
         | (Err _, d) \<Rightarrow> (update_error, handler, d))
      else if command = CMD_WRITE then
        (case handler of
           None \<Rightarrow> (update_error, handler, d)
         | Some session \<Rightarrow>
             (case session_write ops session d payload of
                (Ok _, session, d) \<Rightarrow> (update_ok, Some session, d)
              | (Err _, session, d) \<Rightarrow> (update_error, Some session, d)))
      else if command = CMD_FINISH then
        (case handler of
           None \<Rightarrow> (update_error, handler, d)
         | Some session \<Rightarrow>
             (case session_finish cr ops session d of
                (Ok _, d) \<Rightarrow> (update_ok, None, d)
              | (Err _, d) \<Rightarrow> (update_error, None, d)))
      else if command = CMD_ABORT then (update_ok, None, d)
      else (update_error, handler, d))"

section \<open>Reading back the staged image\<close>

lemma sub_slice_take_append:
  "b \<le> n \<Longrightarrow> n \<le> length xs \<Longrightarrow> sub_slice a b (take n xs @ ys) = sub_slice a b xs"
  by (cases "a \<le> b") (auto simp: sub_slice_def drop_take min_def)

lemma package_header_parse_take:
  assumes "package_header_parse hb = Ok h"
  shows "package_header_parse (take PACKAGE_HEADER_LEN hb @ img) = Ok h"
  using assms
  by (simp add: package_header_parse_def sub_slice_take_append nth_append split: if_splits)

definition session_for :: "bytes \<Rightarrow> bytes \<Rightarrow> u32 \<Rightarrow> u32 \<Rightarrow> UpdateSession \<Rightarrow> bool" where
  "session_for hb key min_rollback base s \<longleftrightarrow> package_header_parse hb = Ok (us_header s) \<and>
     us_signed_prefix s = sub_slice 0 SIGNED_HEADER_LEN hb \<and> us_key_sec1 s = key \<and>
     us_min_rollback s = min_rollback \<and> us_base s = base"

definition staged :: "UpdateSession \<Rightarrow> bytes \<Rightarrow> bytes" where
  "staged s c = take (unat (ph_image_len (us_header s))) (drop (unat (us_base s)) c)"

lemma finish_is_verify:
  assumes s: "session_for hb key min_rollback base s"
    and loop: "finish_loop ops (us_base s) (ph_image_len (us_header s)) 0 [] (us_signed_prefix s) d =
      (Ok (img, us_signed_prefix s @ img), d')"
    and img: "length img = unat (ph_image_len (us_header s))" and rcv: "us_received s = ph_image_len (us_header s)"
  shows "session_finish cr ops s d = (verify_package cr (take PACKAGE_HEADER_LEN hb @ img) key min_rollback, d')"
proof -
  have hb: "package_header_parse hb = Ok (us_header s)" and fields: "us_signed_prefix s = sub_slice 0 51 hb"
      "us_key_sec1 s = key" "us_min_rollback s = min_rollback"
    using s by (auto simp: session_for_def)
  then have len: "PACKAGE_HEADER_LEN \<le> length hb" by (auto simp: package_header_parse_def split: if_splits)
  then have "sub_slice PACKAGE_HEADER_LEN (PACKAGE_HEADER_LEN + length img) (take PACKAGE_HEADER_LEN hb @ img) = img"
    by (simp add: sub_slice_def)
  moreover have "signed_prefix (take PACKAGE_HEADER_LEN hb @ img) = sub_slice 0 51 hb"
    using len by (simp add: signed_prefix_def sub_slice_take_append)
  ultimately show ?thesis
    using package_header_parse_take [OF hb, of img] loop rcv len
    by (simp add: session_finish_def verify_package_def fields img [symmetric] Let_def)
qed

context faulty_storage
begin

lemma finish_loop_truth:
  assumes "valid d" and "unat base + unat offset < 2 ^ 32" and "dsize < 2 ^ 32" and "offset \<le> image_len"
    and "finish_loop ops base image_len offset ih sh d = (r, d')"
  shows "valid d' \<and> content d' = content d \<and> (\<forall>ih' sh'. r = Ok (ih', sh') \<longrightarrow>
    (\<exists>img. ih' = ih @ img \<and> sh' = sh @ img \<and> length img = unat image_len - unat offset \<and>
       img = take (unat image_len - unat offset) (drop (unat base + unat offset) (content d))))"
  using assms(1,2,4,5)
proof (induction "unat image_len - unat offset" arbitrary: offset ih sh d rule: less_induct)
  case less
  show ?case
  proof (cases "offset < image_len")
    case False
    with less.prems(1,3,4) show ?thesis by (subst (asm) finish_loop.simps) (auto simp: word_less_nat_alt word_le_nat_alt)
  next
    case True
    define n where "n = min (unat (image_len - offset)) 256"
    note step = finish_step [OF True, folded n_def]
    have at: "unat (base + offset) = unat base + unat offset" using less.prems(2) by (simp add: unat_word_ariths)
    obtain b d1 where rd: "st_read ops d (base + offset) n = (b, d1)" by force
    note tr = read_truth [OF less.prems(1) rd, unfolded at]
    show ?thesis
    proof (cases b)
      case (Err e)
      with less.prems(4) True rd tr show ?thesis
        by (subst (asm) finish_loop.simps) (auto simp: n_def [symmetric] Let_def)
    next
      case (Ok buffer)
      with less.prems(4) True rd
      have go: "finish_loop ops base image_len (offset + of_nat n) (ih @ buffer) (sh @ buffer) d1 = (r, d')"
        by (subst (asm) finish_loop.simps) (simp add: n_def [symmetric] Let_def)
      have buf: "buffer = take n (drop (unat base + unat offset) (content d))"
        "unat base + unat offset + n \<le> dsize" "valid d1" "content d1 = content d" using tr Ok by auto
      have "length buffer = n" using buf content_size [OF less.prems(1)] by simp
      moreover have "take (unat image_len - unat offset) xs =
          take n xs @ take (unat image_len - (unat offset + n)) (drop n xs)" for xs :: bytes
        using step(3) take_add [of n "unat image_len - (unat offset + n)" xs] by simp
      moreover have "valid d' \<and> content d' = content d1 \<and> (\<forall>ih' sh'. r = Ok (ih', sh') \<longrightarrow>
          (\<exists>img. ih' = (ih @ buffer) @ img \<and> sh' = (sh @ buffer) @ img \<and>
             length img = unat image_len - (unat offset + n) \<and>
             img = take (unat image_len - (unat offset + n)) (drop (unat base + (unat offset + n)) (content d1))))"
        using less.hyps [of "offset + of_nat n", OF _ buf(3) _ _ go] step buf(2) \<open>dsize < 2 ^ 32\<close>
        by (simp add: word_le_nat_alt)
      moreover have "drop (unat base + (unat offset + n)) xs = drop n (drop (unat base + unat offset) xs)"
        for xs :: bytes by (simp add: ac_simps)
      ultimately show ?thesis using buf step(3) by auto
    qed
  qed
qed

text \<open>Success of a session on any device, however faulty, is success of whole-package
  verification on what is staged.\<close>

lemma session_finish_sound:
  assumes "valid d" and "dsize < 2 ^ 32" and s: "session_for hb key min_rollback base s"
    and r: "session_finish cr ops s d = (r, d')"
  shows "valid d' \<and> content d' = content d \<and>
    (\<forall>img. r = Ok img \<longrightarrow> verify_package cr (take PACKAGE_HEADER_LEN hb @ staged s (content d)) key min_rollback = Ok img)"
proof (cases "us_received s = ph_image_len (us_header s)")
  case False
  with r assms(1) show ?thesis by (auto simp: session_finish_def Let_def)
next
  case True
  obtain l d1 where l: "finish_loop ops (us_base s) (ph_image_len (us_header s)) 0 [] (us_signed_prefix s) d = (l, d1)"
    by force
  have "unat (us_base s) + unat (0 :: u32) < 2 ^ 32" by simp
  note tr = finish_loop_truth [OF assms(1) this assms(2) _ l]
  show ?thesis
  proof (cases l)
    case (Err e)
    with r l True tr show ?thesis by (auto simp: session_finish_def Let_def)
  next
    case (Ok hs)
    then have hs: "hs = (staged s (content d), us_signed_prefix s @ staged s (content d))"
      and len: "length (staged s (content d)) = unat (ph_image_len (us_header s))"
      using tr by (cases hs; fastforce simp: staged_def)+
    have "session_finish cr ops s d =
        (verify_package cr (take PACKAGE_HEADER_LEN hb @ staged s (content d)) key min_rollback, d1)"
      by (rule finish_is_verify [OF s _ len True]) (use l Ok hs in simp)
    with r tr show ?thesis by auto
  qed
qed

end

section \<open>Any sequence of update commands\<close>

fun update_run ::
    "('k, 's) UpdateCrypto \<Rightarrow> bytes \<Rightarrow> FlashLayout \<Rightarrow> 'd StorageOps \<Rightarrow> (u8 \<times> bytes) list
      \<Rightarrow> UpdateSession option \<Rightarrow> 'd \<Rightarrow> UpdateSession option \<times> 'd" where
  "update_run cr key layout ops [] h d = (h, d)"
| "update_run cr key layout ops ((command, payload) # cmds) h d =
     (case handle_update cr key layout ops command payload h d of
        (_, h, d) \<Rightarrow> update_run cr key layout ops cmds h d)"

text \<open>A session in progress comes from a header that was sent, and has not run past the device.\<close>

definition update_inv :: "bytes \<Rightarrow> FlashLayout \<Rightarrow> nat \<Rightarrow> bytes set \<Rightarrow> UpdateSession option \<Rightarrow> bool" where
  "update_inv key layout dsize hbs h \<longleftrightarrow> (\<forall>s. h = Some s \<longrightarrow>
     (\<exists>hb \<in> hbs. session_for hb key INSTALLED_ROLLBACK (staging_offset layout) s) \<and>
     unat (staging_offset layout) + unat (us_received s) \<le> dsize)"

lemma same_outside_take:
  assumes "same_outside a n xs ys" and "b \<le> a"
  shows "take b ys = take b xs"
proof -
  have "take b zs = take b (take a zs)" for zs :: bytes using assms(2) by (simp add: min_def)
  then show ?thesis using assms(1) unfolding same_outside_def by metis
qed

lemma session_begin_cases:
  assumes "session_begin cr ops hb key min_rollback base erase_size d = (r, d')"
  shows "(d' = d \<or> (\<exists>e n. st_erase ops d base n = (e, d'))) \<and>
    (\<forall>s. r = Ok s \<longrightarrow> session_for hb key min_rollback base s \<and> us_received s = 0)"
  using assms
  by (auto simp: session_begin_def session_for_def Let_def split: if_splits result.splits prod.splits)

context faulty_storage
begin

lemma session_write_kept:
  assumes valid: "valid d" and small: "dsize < 2 ^ 32" and s: "unat (us_base s) + unat (us_received s) \<le> dsize"
    and w: "session_write ops s d chunk = (r, s', d')"
  shows "valid d' \<and> take (unat (us_base s)) (content d') = take (unat (us_base s)) (content d) \<and>
    (\<exists>n. s' = s\<lparr>us_received := n\<rparr> \<and> unat (us_base s) + unat n \<le> dsize)"
proof (cases "checked_add (us_received s) (of_nat (length chunk) :: u32)")
  case None
  with w valid s show ?thesis by (auto simp: session_write_def intro: exI [of _ "us_received s"])
next
  case (Some fin)
  have at: "unat (us_base s + us_received s) = unat (us_base s) + unat (us_received s)"
    using s small by (simp add: unat_word_ariths)
  obtain e d1 where e: "st_write ops d (us_base s + us_received s) chunk = (e, d1)" by force
  note tr = write_range [OF valid e, unfolded at]
  have "unat (of_nat (length chunk) :: u32) \<le> length chunk"
    by (simp add: unsigned_of_nat take_bit_eq_mod [where 'a = nat])
  then have "unat (us_base s) + unat fin \<le> dsize" if "e = Ok ()"
    using write_bounds [OF valid e [unfolded that], unfolded at] checked_add_SomeD [OF Some] by linarith
  note bound = this
  have kept: "valid d1" "take (unat (us_base s)) (content d1) = take (unat (us_base s)) (content d)"
    using tr same_outside_take [of _ _ "content d" "content d1" "unat (us_base s)"] by auto
  consider "s' = s" "d' = d" | "s' = s" "d' = d1" | "e = Ok ()" "s' = s\<lparr>us_received := fin\<rparr>" "d' = d1"
    using w e Some by (auto simp: session_write_def split: if_splits result.splits)
  then show ?thesis using valid s kept bound by cases (auto intro: exI [of _ "us_received s"])
qed

lemma handle_update_kept:
  assumes valid: "valid d" and small: "dsize < 2 ^ 32" and fit: "unat (staging_offset layout) \<le> dsize"
    and inv: "update_inv key layout dsize hbs h"
    and r: "handle_update cr key layout ops command payload h d = (st, h', d')"
  shows "valid d' \<and> take (unat (staging_offset layout)) (content d') = take (unat (staging_offset layout)) (content d) \<and>
    update_inv key layout dsize (hbs \<union> (if command = CMD_BEGIN then {payload} else {})) h'"
proof -
  let ?b = "staging_offset layout"
  consider (Begin) "command = CMD_BEGIN" | (Write) s where "command = CMD_WRITE" "h = Some s"
    | (Finish) s where "command = CMD_FINISH" "h = Some s"
    | (Other) "command \<noteq> CMD_BEGIN" "h = None \<or> command \<noteq> CMD_WRITE \<and> command \<noteq> CMD_FINISH"
    by (cases h) auto
  then show ?thesis
  proof cases
    case Begin
    obtain b d1 where b: "session_begin cr ops payload key INSTALLED_ROLLBACK ?b (slot_size layout) d = (b, d1)" by force
    note bc = session_begin_cases [OF b]
    have "valid d1 \<and> take (unat ?b) (content d1) = take (unat ?b) (content d)"
      using bc valid erase_range [OF valid, of ?b] same_outside_take [of "unat ?b" _ "content d" "content d1" "unat ?b"]
      by blast
    moreover have "d' = d1" "h' = (case b of Ok s \<Rightarrow> Some s | Err _ \<Rightarrow> h)"
      using Begin r b by (auto simp: handle_update_def split: result.splits)
    ultimately show ?thesis using Begin bc inv fit by (cases b) (auto simp: update_inv_def)
  next
    case Write
    obtain w s1 d1 where w: "session_write ops s d payload = (w, s1, d1)" by (metis prod_cases3)
    have s: "us_base s = ?b" "unat ?b + unat (us_received s) \<le> dsize"
      using inv Write by (auto simp: update_inv_def session_for_def)
    note k = session_write_kept [OF valid small _ w, unfolded s(1), OF s(2)]
    have "h' = Some s1" "d' = d1" using Write r w by (auto simp: handle_update_def split: result.splits)
    with k inv Write show ?thesis by (auto simp: update_inv_def session_for_def)
  next
    case Finish
    obtain f d1 where f: "session_finish cr ops s d = (f, d1)" by force
    obtain hb where "session_for hb key INSTALLED_ROLLBACK ?b s" using inv Finish by (auto simp: update_inv_def)
    note k = session_finish_sound [OF valid small this f]
    have "h' = None" "d' = d1" using Finish r f by (auto simp: handle_update_def split: result.splits)
    with k Finish show ?thesis by (auto simp: update_inv_def)
  next
    case Other
    then have "d' = d" "h' = h \<or> h' = None" using r by (auto simp: handle_update_def split: if_splits)
    with valid inv Other show ?thesis by (auto simp: update_inv_def)
  qed
qed

lemma update_run_kept:
  assumes "valid d" and "dsize < 2 ^ 32" and "unat (staging_offset layout) \<le> dsize"
    and "update_inv key layout dsize hbs h"
    and "update_run cr key layout ops cmds h d = (h', d')"
  shows "valid d' \<and> take (unat (staging_offset layout)) (content d') = take (unat (staging_offset layout)) (content d) \<and>
    update_inv key layout dsize (hbs \<union> {p. (CMD_BEGIN, p) \<in> set cmds}) h'"
  using assms(1,4,5)
proof (induction cmds arbitrary: hbs h d)
  case (Cons c cmds)
  obtain command payload where c: "c = (command, payload)" by force
  obtain st h1 d1 where r: "handle_update cr key layout ops command payload h d = (st, h1, d1)" by (metis prod_cases3)
  note k = handle_update_kept [OF Cons.prems(1) assms(2,3) Cons.prems(2) r]
  have sent: "hbs \<union> {p. (CMD_BEGIN, p) \<in> set (c # cmds)} =
      (hbs \<union> (if command = CMD_BEGIN then {payload} else {})) \<union> {p. (CMD_BEGIN, p) \<in> set cmds}"
    unfolding c by auto
  have "update_run cr key layout ops cmds h1 d1 = (h', d')" using Cons.prems(3) c r by simp
  from Cons.IH [OF conjunct1 [OF k] conjunct2 [OF conjunct2 [OF k]] this] k
  show ?case unfolding sent by simp
qed auto

end

section \<open>A complete update\<close>

fun write_all ::
    "'d StorageOps \<Rightarrow> UpdateSession \<Rightarrow> 'd \<Rightarrow> bytes list \<Rightarrow> unit CoreResult \<times> UpdateSession \<times> 'd" where
  "write_all ops s d [] = (Ok (), s, d)"
| "write_all ops s d (chunk # chunks) =
     (case session_write ops s d chunk of
        (Ok _, s, d) \<Rightarrow> write_all ops s d chunks
      | (Err e, s, d) \<Rightarrow> (Err e, s, d))"

definition send_update ::
    "('k, 's) UpdateCrypto \<Rightarrow> 'd StorageOps \<Rightarrow> bytes \<Rightarrow> bytes \<Rightarrow> u32 \<Rightarrow> u32 \<Rightarrow> u32 \<Rightarrow> bytes list \<Rightarrow> 'd
      \<Rightarrow> VerifiedImage CoreResult \<times> 'd" where
  "send_update cr ops header_bytes key min_rollback base erase_size chunks d =
     (case session_begin cr ops header_bytes key min_rollback base erase_size d of
        (Err e, d) \<Rightarrow> (Err e, d)
      | (Ok s, d) \<Rightarrow>
          (case write_all ops s d chunks of
             (Err e, s, d) \<Rightarrow> (Err e, d)
           | (Ok _, s, d) \<Rightarrow> session_finish cr ops s d))"

lemma div_ceil_bounds:
  fixes a b :: u32
  assumes "b \<noteq> 0" and "unat a + unat b < 2 ^ 32"
  shows "unat a \<le> unat (div_ceil a b * b)" and "unat (div_ceil a b * b) < unat a + unat b"
proof -
  have pos: "0 < unat b" using assms(1) by (simp add: unat_gt_0)
  define p m where "p = unat a div unat b * unat b" and "m = unat a mod unat b"
  then have pm: "unat a = p + m" "m < unat b" using pos by simp_all
  define q where "q = unat a div unat b + (if unat a mod unat b > 0 then 1 else 0)"
  have nz: "a mod b > 0 \<longleftrightarrow> unat a mod unat b > 0" by (simp add: word_less_nat_alt unat_mod)
  have "q * unat b = p + (if m > 0 then unat b else 0)" by (simp add: q_def p_def m_def add_mult_distrib)
  then have bounds: "unat a \<le> q * unat b" "q * unat b < unat a + unat b" using pm by auto
  then have "q * unat b < 4294967296" using assms(2) by simp
  moreover from this pos have "q < 4294967296" by (metis le_less_trans mult.right_neutral mult_le_mono2 Suc_leI One_nat_def)
  moreover have "unat (div_ceil a b) = q"
    unfolding div_ceil_def q_def nz using \<open>q < 4294967296\<close>
    by (auto simp: unat_word_ariths unat_div q_def)
  ultimately have "unat (div_ceil a b * b) = q * unat b" by (simp add: unat_word_ariths)
  with bounds show "unat a \<le> unat (div_ceil a b * b)" "unat (div_ceil a b * b) < unat a + unat b" by simp_all
qed

context storage_device
begin

lemma finish_loop_ok:
  assumes "valid d" and "unat base + unat image_len \<le> dsize" and "dsize < 2 ^ 32" and "offset \<le> image_len"
  shows "\<exists>hs. fst (finish_loop ops base image_len offset ih sh d) = Ok hs"
  using assms(1,4)
proof (induction "unat image_len - unat offset" arbitrary: offset ih sh d rule: less_induct)
  case less
  show ?case
  proof (cases "offset < image_len")
    case False
    then show ?thesis by (subst finish_loop.simps) simp
  next
    case True
    define n where "n = min (unat (image_len - offset)) 256"
    note step = finish_step [OF True, folded n_def]
    have at: "unat (base + offset) = unat base + unat offset"
      using step assms(2,3) by (simp add: unat_word_ariths)
    then have "unat (base + offset) + n \<le> dsize" using step(3) assms(2) by linarith
    from read_ok [OF less.prems(1) this] obtain buffer d1 where rd: "st_read ops d (base + offset) n = (Ok buffer, d1)"
      by (metis prod.collapse)
    then have "valid d1" using read_truth [OF less.prems(1) rd] by blast
    with less.hyps [of "offset + of_nat n" d1 "ih @ buffer" "sh @ buffer"] step rd True show ?thesis
      by (subst finish_loop.simps) (simp add: n_def [symmetric] word_le_nat_alt Let_def)
  qed
qed

lemma write_all_ok:
  assumes "valid d" and "unat (us_base s) + unat (ph_image_len (us_header s)) \<le> dsize" and "dsize < 2 ^ 32"
    and "unat (us_received s) + length (concat chunks) = unat (ph_image_len (us_header s))"
    and "take (length (concat chunks)) (drop (unat (us_base s) + unat (us_received s)) (content d)) =
      replicate (length (concat chunks)) 0xFF"
  shows "\<exists>d'. write_all ops s d chunks = (Ok (), s\<lparr>us_received := ph_image_len (us_header s)\<rparr>, d') \<and> valid d' \<and>
    content d' = copy_at (unat (us_base s) + unat (us_received s)) (concat chunks) (content d)"
  using assms
proof (induction chunks arbitrary: s d)
  case Nil
  then show ?case by (simp add: copy_at_def word_unat_eq_iff)
next
  case (Cons chunk chunks)
  let ?a = "unat (us_base s) + unat (us_received s)"
  have small: "length chunk < 4294967296" and fit: "?a + length chunk \<le> dsize" using Cons.prems(2,3,4) by auto
  define fin where "fin = us_received s + of_nat (length chunk)"
  have fin: "unat fin = unat (us_received s) + length chunk"
    using Cons.prems(2,3,4) small by (simp add: fin_def unat_word_ariths)
  have add: "checked_add (us_received s) (of_nat (length chunk)) = Some fin"
    using Cons.prems(2,3,4) small by (simp add: checked_add_def fin_def)
  have at: "unat (us_base s + us_received s) = ?a" using fit Cons.prems(3) by (simp add: unat_word_ariths)
  have "take (length chunk) (drop ?a (content d)) = replicate (length chunk) 0xFF"
    using arg_cong [OF Cons.prems(5), of "take (length chunk)"] by (simp add: min_def)
  then obtain d1 where w: "st_write ops d (us_base s + us_received s) chunk = (Ok (), d1)" and v: "valid d1"
    and c: "content d1 = copy_at ?a chunk (content d)"
    using write_done [OF Cons.prems(1), of "us_base s + us_received s" chunk] at fit by auto
  have le: "\<not> fin > ph_image_len (us_header s)" using fin Cons.prems(4) by (simp add: word_less_nat_alt)
  have sw: "session_write ops s d chunk = (Ok (), s\<lparr>us_received := fin\<rparr>, d1)"
    using w add le by (simp add: session_write_def)
  have "drop (length chunk) (take (length chunk + length (concat chunks)) (drop ?a (content d))) =
      replicate (length (concat chunks)) 0xFF" using Cons.prems(5) by simp
  then have "take (length (concat chunks)) (drop (?a + length chunk) (content d1)) = replicate (length (concat chunks)) 0xFF"
    using fit content_size [OF Cons.prems(1)] by (simp add: c copy_at_def drop_take ac_simps)
  then obtain d' where "write_all ops (s\<lparr>us_received := fin\<rparr>) d1 chunks =
        (Ok (), s\<lparr>us_received := ph_image_len (us_header s)\<rparr>, d')" "valid d'"
      "content d' = copy_at (?a + length chunk) (concat chunks) (content d1)"
    using Cons.IH [OF v, of "s\<lparr>us_received := fin\<rparr>"] Cons.prems(2,3,4) fin by (auto simp: ac_simps)
  moreover have "copy_at (?a + length chunk) (concat chunks) (content d1) = copy_at ?a (concat (chunk # chunks)) (content d)"
    using Cons.prems(2,4) content_size [OF Cons.prems(1)] by (simp add: c copy_at_adjacent)
  ultimately show ?case using sw by simp
qed

end

lemma slot_bytes_take:
  "slot_start st i + unat (ss_slot_size st) \<le> n \<Longrightarrow> slot_bytes st (take n c) i = slot_bytes st c i"
  by (simp add: slot_bytes_def drop_take min_def)

lemma store_record_below:
  assumes "take n c' = take n c" and "unat (ss_base st) + 2 * unat (ss_slot_size st) \<le> n"
  shows "store_record st c' = store_record st c"
proof -
  have "slot_bytes st c' i = slot_bytes st c i" if "i = 0 \<or> i = 1" for i
    using slot_bytes_take [of st i n c] slot_bytes_take [of st i n c'] assms that
    by (auto simp: slot_start_def)
  then show ?thesis by (simp add: store_record_def)
qed

lemma verify_package_len:
  "verify_package cr pkg key m = Ok img \<Longrightarrow> package_header_parse pkg = Ok h \<Longrightarrow> vi_image_len img = ph_image_len h"
  by (auto simp: verify_package_def Let_def split: if_splits)

lemma update_ok_not_error: "update_ok \<noteq> update_error"
  using core_error_code_nonzero [of FirmwareError] by (simp add: update_ok_def update_error_def)

section \<open>Properties\<close>

definition demo_crypto :: "(unit, bytes) UpdateCrypto" where
  "demo_crypto = \<lparr>sha256_digest = (\<lambda>bs. take 32 (bs @ replicate 32 0)),
     from_sec1_bytes = (\<lambda>k. if k = [4] then Some () else None),
     signature_from_slice = (\<lambda>bs. if length bs = 64 then Some bs else None),
     verify_prehash = (\<lambda>_ h sg. take 32 sg = h)\<rparr>"

definition demo_prefix :: bytes where
  "demo_prefix = PACKAGE_MAGIC @ [1, 0, 115, 0, 1, 0, 0, 0, 1, 2, 3, 3, 0, 0, 0, 7, 8, 9] @ replicate 29 0"

definition demo_header :: bytes where
  "demo_header = demo_prefix @ take 32 demo_prefix @ replicate 32 0"

definition demo_layout :: FlashLayout where
  "demo_layout = \<lparr>config_offset = 0, slot_size = 16, applet_offset = 0, applet_size = 0, staging_offset = 16\<rparr>"

definition demo_device :: RamStorage where
  "demo_device = \<lparr>ram_data = replicate 64 0\<rparr>"

definition demo_session :: UpdateSession where
  "demo_session = \<lparr>us_header = \<lparr>ph_rollback = 1, ph_version = \<lparr>v_major = 1, v_minor = 2, v_patch = 3\<rparr>,
       ph_image_len = 3, ph_image_sha256 = [7, 8, 9] @ replicate 29 0,
       ph_signature = take 32 demo_prefix @ replicate 32 0\<rparr>,
     us_signed_prefix = demo_prefix, us_key_sec1 = [4], us_min_rollback = 1, us_base = 16,
     us_erase_size = 16, us_received = 0\<rparr>"

definition demo_erased :: RamStorage where
  "demo_erased = \<lparr>ram_data = replicate 16 0 @ replicate 16 0xFF @ replicate 32 0\<rparr>"

definition demo_staged :: RamStorage where
  "demo_staged = \<lparr>ram_data = replicate 16 0 @ [7, 8, 9] @ replicate 13 0xFF @ replicate 32 0\<rparr>"

lemma demo_begin: "session_begin demo_crypto ram_ops demo_header [4] 1 16 16 demo_device = (Ok demo_session, demo_erased)"
  by code_simp

lemma demo_write: "session_write ram_ops demo_session demo_erased [7, 8, 9] =
    (Ok (), demo_session\<lparr>us_received := 3\<rparr>, demo_staged)"
  by code_simp

lemma demo_finish: "session_finish demo_crypto ram_ops (demo_session\<lparr>us_received := 3\<rparr>) demo_staged =
    (Ok \<lparr>vi_version = \<lparr>v_major = 1, v_minor = 2, v_patch = 3\<rparr>, vi_rollback = 1, vi_image_len = 3\<rparr>, demo_staged)"
  by code_simp

lemma demo_sizes: "length (ram_data demo_device) = 64" "unat (staging_offset demo_layout) = 16"
    "(64 :: nat) < 2 ^ 32" "unat (staging_offset demo_layout) \<le> 64"
  by (simp_all add: demo_device_def demo_layout_def)

lemma ram_faulty: "faulty_storage ram_ops (\<lambda>d. length (ram_data d) = n) ram_data n"
  by (rule ram.faulty_storage_axioms)

text \<open>C3: only verified images are accepted. Let the host send any update commands with any
  payloads, to a device whose flash may fail at any call. Whenever a \<open>FINISH\<close> is answered
  with success, the bytes now in the staging region and the header of some \<open>BEGIN\<close> sent
  before form a package that whole-package verification accepts under the vendor key and
  the rollback floor; the session is closed and the flash unchanged by it.\<close>

theorem update_accepts_only_verified:
  assumes dev: "faulty_storage ops valid content dsize" and valid: "valid d" and small: "dsize < 2 ^ 32"
    and fit: "unat (staging_offset layout) \<le> dsize"
    and run: "update_run cr key layout ops cmds None d = (h, d1)"
    and fin: "handle_update cr key layout ops CMD_FINISH payload h d1 = (update_ok, h', d2)"
  shows "h' = None \<and> content d2 = content d1 \<and>
    (\<exists>hb img. (CMD_BEGIN, hb) \<in> set cmds \<and>
       verify_package cr (take PACKAGE_HEADER_LEN hb @
         take (unat (vi_image_len img)) (drop (unat (staging_offset layout)) (content d2))) key INSTALLED_ROLLBACK = Ok img)"
proof -
  have inv: "valid d1" "update_inv key layout dsize {p. (CMD_BEGIN, p) \<in> set cmds} h"
    using faulty_storage.update_run_kept [OF dev valid small fit _ run, of "{}"] by (auto simp: update_inv_def)
  obtain s where s: "h = Some s" using fin update_ok_not_error by (cases h) (auto simp: handle_update_def)
  then obtain hb where hb: "(CMD_BEGIN, hb) \<in> set cmds" "session_for hb key INSTALLED_ROLLBACK (staging_offset layout) s"
    using inv(2) by (auto simp: update_inv_def)
  obtain r d3 where r: "session_finish cr ops s d1 = (r, d3)" by force
  then obtain img where img: "r = Ok img" "d2 = d3" "h' = None"
    using fin s update_ok_not_error by (cases r) (auto simp: handle_update_def)
  note sound = faulty_storage.session_finish_sound [OF dev inv(1) small hb(2) r]
  then have ok: "verify_package cr (take PACKAGE_HEADER_LEN hb @ staged s (content d1)) key INSTALLED_ROLLBACK = Ok img"
    using img by simp
  have "us_base s = staging_offset layout" "package_header_parse hb = Ok (us_header s)"
    using hb(2) by (auto simp: session_for_def)
  then have "staged s (content d1) = take (unat (vi_image_len img)) (drop (unat (staging_offset layout)) (content d1))"
    using verify_package_len [OF ok package_header_parse_take] by (simp add: staged_def)
  with hb(1) ok sound img show ?thesis by auto
qed

theorem update_accepts_only_verified_witness:
  "\<exists>hb img. (CMD_BEGIN, hb) \<in> set [(CMD_BEGIN, demo_header), (CMD_WRITE, [7, 8, 9])] \<and>
     verify_package demo_crypto (take PACKAGE_HEADER_LEN hb @ take (unat (vi_image_len img)) (drop 16 (ram_data demo_staged)))
       [4] INSTALLED_ROLLBACK = Ok img"
proof -
  have run: "update_run demo_crypto [4] demo_layout ram_ops [(CMD_BEGIN, demo_header), (CMD_WRITE, [7, 8, 9])]
      None demo_device = (Some (demo_session\<lparr>us_received := 3\<rparr>), demo_staged)"
    by (simp add: handle_update_def demo_layout_def demo_begin demo_write)
  have fin: "handle_update demo_crypto [4] demo_layout ram_ops CMD_FINISH [] (Some (demo_session\<lparr>us_received := 3\<rparr>))
      demo_staged = (update_ok, None, demo_staged)"
    by (simp add: handle_update_def demo_finish)
  show ?thesis
    using update_accepts_only_verified [OF ram_faulty demo_sizes(1,3,4) run fin, THEN conjunct2, THEN conjunct2]
    unfolding demo_sizes(2) .
qed

text \<open>C24: an update never destroys what is installed. Let the host send any update commands
  with any payloads, to a device whose flash may fail at any call and leave the range of
  that call in any state: not one byte below the staging region changes, so every record
  store placed there, configuration and applets, keeps its record.\<close>

theorem update_confined:
  assumes dev: "faulty_storage ops valid content dsize" and valid: "valid d" and small: "dsize < 2 ^ 32"
    and fit: "unat (staging_offset layout) \<le> dsize"
    and run: "update_run cr key layout ops cmds None d = (h, d')"
  shows "take (unat (staging_offset layout)) (content d') = take (unat (staging_offset layout)) (content d) \<and>
    (\<forall>st. unat (ss_base st) + 2 * unat (ss_slot_size st) \<le> unat (staging_offset layout) \<longrightarrow>
       store_record st (content d') = store_record st (content d))"
proof -
  have "update_inv key layout dsize {} None" by (simp add: update_inv_def)
  note kept = faulty_storage.update_run_kept [OF dev valid small fit this run, THEN conjunct2, THEN conjunct1]
  with store_record_below [OF kept] show ?thesis by blast
qed

theorem update_confined_witness:
  "take 16 (ram_data demo_staged) = take 16 (ram_data demo_device)"
proof -
  have run: "update_run demo_crypto [4] demo_layout ram_ops
      [(CMD_BEGIN, demo_header), (CMD_WRITE, [7, 8, 9]), (CMD_ABORT, [])] None demo_device = (None, demo_staged)"
    by (simp add: handle_update_def demo_layout_def demo_begin demo_write)
  show ?thesis
    using update_confined [OF ram_faulty demo_sizes(1,3,4) run, THEN conjunct1] unfolding demo_sizes(2) .
qed

text \<open>C25: a chunked update is whole-package verification. On a working device with room for the
  image, once a header is accepted the image may be sent in chunks of any sizes: the
  session answers exactly what \<open>verify_package\<close> answers on the header followed by the
  image, success and failure alike, and the image is what the staging region holds.\<close>

theorem update_end_to_end:
  assumes dev: "storage_device ops valid content dsize erasable" and valid: "valid d" and small: "dsize < 2 ^ 32"
    and parse: "package_header_parse hb = Ok h" and key: "length key \<le> 65" "from_sec1_bytes cr key \<noteq> None"
    and roll: "min_rollback \<le> ph_rollback h" and es: "erase_size \<noteq> 0"
    and room: "unat base + unat (ph_image_len h) + unat erase_size \<le> dsize"
    and er: "erasable base (div_ceil (ph_image_len h) erase_size * erase_size)"
    and img: "length (concat chunks) = unat (ph_image_len h)"
  shows "\<exists>d'. send_update cr ops hb key min_rollback base erase_size chunks d =
      (verify_package cr (take PACKAGE_HEADER_LEN hb @ concat chunks) key min_rollback, d') \<and>
    take (unat (ph_image_len h)) (drop (unat base) (content d')) = concat chunks"
proof -
  let ?n = "unat (ph_image_len h)" and ?e = "div_ceil (ph_image_len h) erase_size * erase_size"
  note ceil = div_ceil_bounds [OF es, of "ph_image_len h"]
  have c: "?n \<le> unat ?e" "unat ?e < ?n + unat erase_size" using ceil room small by simp_all
  have size: "length (content d) = dsize"
    using faulty_storage.content_size [OF storage_device.axioms(1) [OF dev] valid] .
  obtain d1 where e: "st_erase ops d base ?e = (Ok (), d1)" "valid d1"
    and c1: "content d1 = copy_at (unat base) (replicate (unat ?e) 0xFF) (content d)"
    using storage_device.erase_done [OF dev valid _ er] c room by auto
  define s where "s = \<lparr>us_header = h, us_signed_prefix = sub_slice 0 SIGNED_HEADER_LEN hb, us_key_sec1 = key,
    us_min_rollback = min_rollback, us_base = base, us_erase_size = erase_size, us_received = 0\<rparr>"
  have bg: "session_begin cr ops hb key min_rollback base erase_size d = (Ok s, d1)"
    using parse key roll es e(1) by (simp add: session_begin_def s_def not_less Let_def)
  have "take ?n (drop (unat base) (content d1)) = replicate ?n 0xFF"
    using c(1) room size by (simp add: c1 copy_at_def)
  then obtain d2 where w: "write_all ops s d1 chunks = (Ok (), s\<lparr>us_received := ph_image_len h\<rparr>, d2)" "valid d2"
    and c2: "content d2 = copy_at (unat base) (concat chunks) (content d1)"
    using storage_device.write_all_ok [OF dev e(2), of s chunks] room small img by (auto simp: s_def)
  let ?s = "s\<lparr>us_received := ph_image_len h\<rparr>"
  have "length (content d1) = dsize"
    using faulty_storage.content_size [OF storage_device.axioms(1) [OF dev] e(2)] .
  then have st: "take ?n (drop (unat base) (content d2)) = concat chunks"
    using room by (simp add: c2 copy_at_def img [symmetric])
  obtain hs d3 where l: "finish_loop ops base (ph_image_len h) 0 [] (us_signed_prefix s) d2 = (Ok hs, d3)"
    using storage_device.finish_loop_ok [OF dev w(2), of base "ph_image_len h" 0] room small
    by (metis add_leD1 prod.collapse word_zero_le)
  then have l3: "content d3 = content d2" "hs = (concat chunks, us_signed_prefix s @ concat chunks)"
    using faulty_storage.finish_loop_truth [OF storage_device.axioms(1) [OF dev] w(2) _ small _ l] st
    by (cases hs; simp)+
  have "session_for hb key min_rollback base ?s" using parse by (simp add: session_for_def s_def)
  from finish_is_verify [OF this, of ops d2 "concat chunks" d3 cr] l l3(2) img
  have "session_finish cr ops ?s d2 = (verify_package cr (take PACKAGE_HEADER_LEN hb @ concat chunks) key min_rollback, d3)"
    by (simp add: s_def)
  then show ?thesis using bg w(1) st l3(1) by (simp add: send_update_def)
qed

theorem update_end_to_end_witness:
  "\<exists>d'. send_update demo_crypto ram_ops demo_header [4] 1 16 16 [[7], [8, 9]] demo_device =
      (verify_package demo_crypto (take 115 demo_header @ [7, 8, 9]) [4] 1, d') \<and>
    take 3 (drop 16 (ram_data d')) = [7, 8, 9]"
proof -
  have parse: "package_header_parse demo_header = Ok (us_header demo_session)" by code_simp
  have key: "length [4 :: u8] \<le> 65" "from_sec1_bytes demo_crypto [4] \<noteq> None" by (simp_all add: demo_crypto_def)
  have h: "ph_rollback (us_header demo_session) = 1" "ph_image_len (us_header demo_session) = 3"
    by (simp_all add: demo_session_def)
  show ?thesis
    using update_end_to_end [OF ram.storage_device_axioms demo_sizes(1) _ parse key, where base = 16 and erase_size = 16
        and min_rollback = 1 and chunks = "[[7], [8, 9]]"] by (simp add: h)
qed

end
