(* ===== verification/Cbor.thy ===== *)
theory Cbor
  imports Core_Error
begin

text \<open>The interface of the CBOR library. The sources encode and decode with the third-party crate
  \<open>minicbor\<close>, so its encoder and decoder methods are a record that the definitions using
  them take as an argument, and what they rely on is the locale \<open>cbor\<close>: a decoder method
  reads back what the encoder method of the same name has written and leaves the bytes that
  follow. A decoder is the bytes it has not consumed. A codec for the definite-length subset
  of RFC 8949 shows that the laws hold together.

  Also here: \<open>for _ in 0..len\<close> loops over a decoder, fixed-capacity strings, and the
  validity check and character count of UTF-8 of the Rust standard library.\<close>

section \<open>UTF-8\<close>

definition utf8_cont :: "u8 \<Rightarrow> bool" where
  "utf8_cont b \<longleftrightarrow> 0x80 \<le> b \<and> b \<le> 0xBF"

definition utf8_second :: "u8 \<Rightarrow> u8 \<Rightarrow> bool" where
  "utf8_second a b \<longleftrightarrow>
     (if a = 0xE0 then 0xA0 \<le> b \<and> b \<le> 0xBF else if a = 0xED then 0x80 \<le> b \<and> b \<le> 0x9F
      else if a = 0xF0 then 0x90 \<le> b \<and> b \<le> 0xBF else if a = 0xF4 then 0x80 \<le> b \<and> b \<le> 0x8F
      else utf8_cont b)"

text \<open>The number of characters of a valid UTF-8 string (\<open>str::from_utf8\<close> and
  \<open>chars().count()\<close>), \<open>None\<close> for an invalid one.\<close>

fun utf8_count :: "bytes \<Rightarrow> nat option" where
  "utf8_count [] = Some 0"
| "utf8_count (a # r) =
     (if a < 0x80 then map_option Suc (utf8_count r)
      else case r of [] \<Rightarrow> None | b # r \<Rightarrow>
        if 0xC2 \<le> a \<and> a \<le> 0xDF then (if utf8_cont b then map_option Suc (utf8_count r) else None)
        else case r of [] \<Rightarrow> None | c # r \<Rightarrow>
          if 0xE0 \<le> a \<and> a \<le> 0xEF
          then (if utf8_second a b \<and> utf8_cont c then map_option Suc (utf8_count r) else None)
          else case r of [] \<Rightarrow> None | d # r \<Rightarrow>
            if 0xF0 \<le> a \<and> a \<le> 0xF4 \<and> utf8_second a b \<and> utf8_cont c \<and> utf8_cont d
            then map_option Suc (utf8_count r) else None)"

definition utf8 :: "bytes \<Rightarrow> bool" where
  "utf8 s \<longleftrightarrow> utf8_count s \<noteq> None"

text \<open>\<open>FixedString<N>\<close> and \<open>heapless::Vec::from_slice\<close>: the value, when it fits.\<close>

definition fixed_new :: "nat \<Rightarrow> 'a list \<Rightarrow> 'a list option" where
  "fixed_new N s = (if length s \<le> N then Some s else None)"

lemma fixed_new_Some_iff [simp]: "fixed_new N s = Some t \<longleftrightarrow> t = s \<and> length s \<le> N"
  by (auto simp: fixed_new_def)

section \<open>The library interface\<close>

datatype CborError = CborError
datatype CborType = T_Null | T_Bytes | T_String | T_Other

type_synonym 'a decoder = "bytes \<Rightarrow> ('a \<times> bytes, CborError) result"

text \<open>\<open>map\<close> and \<open>array\<close> return no length for the indefinite form.\<close>

record CborOps =
  e_map :: "nat \<Rightarrow> bytes"
  e_array :: "nat \<Rightarrow> bytes"
  e_u8 :: "u8 \<Rightarrow> bytes"
  e_u16 :: "u16 \<Rightarrow> bytes"
  e_u32 :: "u32 \<Rightarrow> bytes"
  e_u64 :: "u64 \<Rightarrow> bytes"
  e_i64 :: "int \<Rightarrow> bytes"
  e_bytes :: "bytes \<Rightarrow> bytes"
  e_str :: "bytes \<Rightarrow> bytes"
  e_bool :: "bool \<Rightarrow> bytes"
  e_null :: bytes
  d_map :: "nat option decoder"
  d_array :: "nat option decoder"
  d_u8 :: "u8 decoder"
  d_u16 :: "u16 decoder"
  d_u32 :: "u32 decoder"
  d_u64 :: "u64 decoder"
  d_i64 :: "int decoder"
  d_bytes :: "bytes decoder"
  d_str :: "bytes decoder"
  d_bool :: "bool decoder"
  d_null :: "unit decoder"
  d_skip :: "unit decoder"
  d_datatype :: "bytes \<Rightarrow> (CborType, CborError) result"

locale cbor =
  fixes C :: CborOps
  assumes map_law: "n < 2 ^ 64 \<Longrightarrow> d_map C (e_map C n @ rest) = Ok (Some n, rest)"
    and array_law: "n < 2 ^ 64 \<Longrightarrow> d_array C (e_array C n @ rest) = Ok (Some n, rest)"
    and u8_law: "d_u8 C (e_u8 C a @ rest) = Ok (a, rest)"
    and u16_law: "d_u16 C (e_u16 C b @ rest) = Ok (b, rest)"
    and u32_law: "d_u32 C (e_u32 C c @ rest) = Ok (c, rest)"
    and u64_law: "d_u64 C (e_u64 C w @ rest) = Ok (w, rest)"
    and i64_law: "- (2 ^ 63) \<le> i \<Longrightarrow> i < 2 ^ 63 \<Longrightarrow> d_i64 C (e_i64 C i @ rest) = Ok (i, rest)"
    and bytes_law: "length bs < 2 ^ 64 \<Longrightarrow> d_bytes C (e_bytes C bs @ rest) = Ok (bs, rest)"
    and str_law: "length bs < 2 ^ 64 \<Longrightarrow> utf8 bs \<Longrightarrow> d_str C (e_str C bs @ rest) = Ok (bs, rest)"
    and bool_law: "d_bool C (e_bool C x @ rest) = Ok (x, rest)"
    and null_law: "d_null C (e_null C @ rest) = Ok ((), rest)"
    and null_type: "d_datatype C (e_null C @ rest) = Ok T_Null"
    and bytes_type: "length bs < 2 ^ 64 \<Longrightarrow> d_datatype C (e_bytes C bs @ rest) = Ok T_Bytes"
    and str_skip: "length bs < 2 ^ 64 \<Longrightarrow> d_skip C (e_str C bs @ rest) = Ok ((), rest)"
begin

lemmas cbor_laws = map_law array_law u8_law u16_law u32_law u64_law i64_law bytes_law str_law bool_law
  null_law null_type bytes_type str_skip

end

section \<open>Loops over a decoder\<close>

primrec loop_n :: "nat \<Rightarrow> ('a \<Rightarrow> bytes \<Rightarrow> ('a \<times> bytes, 'e) result) \<Rightarrow> 'a \<Rightarrow> bytes \<Rightarrow> ('a \<times> bytes, 'e) result" where
  "loop_n 0 body acc d = Ok (acc, d)"
| "loop_n (Suc n) body acc d =
     (case body acc d of Err e \<Rightarrow> Err e | Ok (acc, d) \<Rightarrow> loop_n n body acc d)"

lemma loop_n_inv:
  assumes "loop_n n body acc d = Ok (acc', d')" and "P acc"
    and "\<And>acc d acc' d'. P acc \<Longrightarrow> body acc d = Ok (acc', d') \<Longrightarrow> P acc'"
  shows "P acc'"
  using assms(1,2)
proof (induction n arbitrary: acc d)
  case (Suc n)
  then show ?case using assms(3) by (auto split: result.splits)
qed simp

lemma loop_n_steps:
  assumes "\<And>i acc rest. i < length xs \<Longrightarrow> body acc (enc (xs ! i) @ rest) = Ok (upd acc (xs ! i), rest)"
  shows "loop_n (length xs) body acc (concat (map enc xs) @ rest) = Ok (foldl upd acc xs, rest)"
  using assms
proof (induction xs arbitrary: acc)
  case (Cons x xs)
  have "body acc (enc x @ concat (map enc xs) @ rest) = Ok (upd acc x, concat (map enc xs) @ rest)"
    using Cons.prems [of 0] by simp
  moreover have "body acc (enc (xs ! i) @ rest) = Ok (upd acc (xs ! i), rest)" if "i < length xs" for i acc rest
    using Cons.prems [of "Suc i"] that by simp
  ultimately show ?case using Cons.IH by simp
qed simp

section \<open>The definite-length subset of RFC 8949\<close>

definition cbor_head :: "nat \<Rightarrow> nat \<Rightarrow> bytes" where
  "cbor_head m n =
     (if n < 24 then [of_nat (32 * m + n)]
      else if n < 256 then [of_nat (32 * m + 24), of_nat n]
      else if n < 65536 then of_nat (32 * m + 25) # be_bytes 2 (of_nat n :: u16)
      else if n < 2 ^ 32 then of_nat (32 * m + 26) # be_bytes 4 (of_nat n :: u32)
      else of_nat (32 * m + 27) # be_bytes 8 (of_nat n :: u64))"

text \<open>The same with integer comparisons, for evaluation.\<close>

lemma cbor_head_code [code]:
  "cbor_head m n =
     (let i = int n in
      if i < 24 then [of_nat (32 * m + n)]
      else if i < 256 then [of_nat (32 * m + 24), of_nat n]
      else if i < 65536 then of_nat (32 * m + 25) # be_bytes 2 (of_nat n :: u16)
      else if i < 2 ^ 32 then of_nat (32 * m + 26) # be_bytes 4 (of_nat n :: u32)
      else of_nat (32 * m + 27) # be_bytes 8 (of_nat n :: u64))"
  by (simp add: cbor_head_def Let_def)

definition cbor_wide :: "nat \<Rightarrow> nat \<Rightarrow> bytes \<Rightarrow> (nat \<times> nat option \<times> bytes) option" where
  "cbor_wide m k r = (if length r < k then None else Some (m, Some (unat (of_be_bytes (take k r) :: u64)), drop k r))"

definition read_head :: "bytes \<Rightarrow> (nat \<times> nat option \<times> bytes) option" where
  "read_head d =
     (case d of
        [] \<Rightarrow> None
      | b # r \<Rightarrow>
          let m = unat b div 32; i = unat b mod 32
          in if i < 24 then Some (m, Some i, r)
             else if i = 24 then cbor_wide m 1 r
             else if i = 25 then cbor_wide m 2 r
             else if i = 26 then cbor_wide m 4 r
             else if i = 27 then cbor_wide m 8 r
             else if i = 31 then Some (m, None, r)
             else None)"

lemma read_head_shorter: "read_head d = Some (m, n, r) \<Longrightarrow> length r < length d"
  by (auto simp: read_head_def cbor_wide_def Let_def split: list.splits if_splits)

lemma of_be_bytes_wide:
  assumes "LENGTH('a::len) = 8 * k" and "LENGTH('a) \<le> 64"
  shows "(of_be_bytes (be_bytes k (w :: 'a word)) :: u64) = ucast w"
proof (rule bit_word_eqI)
  fix n
  assume "n < LENGTH(64)"
  moreover have "n div 8 < k \<longleftrightarrow> n < LENGTH('a)" using assms(1) by (simp add: div_less_iff_less_mult mult.commute)
  ultimately show "bit (of_be_bytes (be_bytes k w) :: u64) n = bit (ucast w :: u64) n"
    by (auto simp: of_be_bytes_def be_bytes_def bit_of_le_bytes le_bytes_def bit_simps dest: bit_imp_le_length)
qed

lemma unat_of_be_bytes:
  assumes "n < 2 ^ LENGTH('a::len)" and "LENGTH('a) = 8 * k" and "LENGTH('a) \<le> 64"
  shows "unat (of_be_bytes (be_bytes k (of_nat n :: 'a word)) :: u64) = n"
proof -
  have "unat (of_be_bytes (be_bytes k (of_nat n :: 'a word)) :: u64) = unat (of_nat n :: 'a word)"
    unfolding of_be_bytes_wide [OF assms(2,3)] using assms(3) by (intro unat_ucast_widen) simp
  with assms(1) show ?thesis by (simp add: unsigned_of_nat take_bit_nat_eq_self)
qed

lemma read_head_cbor_head:
  assumes "m < 8" and "n < 2 ^ 64"
  shows "read_head (cbor_head m n @ rest) = Some (m, Some n, rest)"
proof -
  have byte: "unat (of_nat (32 * m + i) :: u8) = 32 * m + i" if "i < 32" for i
    using assms(1) that by (subst unat_of_nat_u8) simp_all
  have one: "be_bytes 1 (of_nat n :: u8) = [of_nat n]" by (simp add: be_bytes_def le_bytes_def)
  consider "n < 24" | "24 \<le> n" "n < 256" | "256 \<le> n" "n < 65536" | "65536 \<le> n" "n < 2 ^ 32" | "2 ^ 32 \<le> n"
    by linarith
  then show ?thesis
  proof cases
    case 1
    with byte [of n] show ?thesis by (simp add: cbor_head_def read_head_def del: of_nat_add of_nat_mult)
  next
    case 2
    with byte [of 24] unat_of_be_bytes [of n 1, where 'a = 8] one show ?thesis
      by (simp add: cbor_head_def read_head_def cbor_wide_def del: of_nat_add of_nat_mult)
  next
    case 3
    with byte [of 25] unat_of_be_bytes [of n 2, where 'a = 16] show ?thesis
      by (simp add: cbor_head_def read_head_def cbor_wide_def del: of_nat_add of_nat_mult)
  next
    case 4
    with byte [of 26] unat_of_be_bytes [of n 4, where 'a = 32] show ?thesis
      by (simp add: cbor_head_def read_head_def cbor_wide_def del: of_nat_add of_nat_mult)
  next
    case 5
    with byte [of 27] unat_of_be_bytes [of n 8, where 'a = 64] assms(2) show ?thesis
      by (simp add: cbor_head_def read_head_def cbor_wide_def del: of_nat_add of_nat_mult)
  qed
qed

definition read_uint :: "int \<Rightarrow> nat decoder" where
  "read_uint bound d =
     (case read_head d of
        Some (m, Some n, r) \<Rightarrow> if m = 0 \<and> int n < bound then Ok (n, r) else Err CborError
      | _ \<Rightarrow> Err CborError)"

definition read_int :: "int decoder" where
  "read_int d =
     (case read_head d of
        Some (m, Some n, r) \<Rightarrow>
          if m = 0 \<and> int n < 2 ^ 63 then Ok (int n, r)
          else if m = 1 \<and> int n < 2 ^ 63 then Ok (- 1 - int n, r) else Err CborError
      | _ \<Rightarrow> Err CborError)"

definition read_len :: "nat \<Rightarrow> nat option decoder" where
  "read_len major d =
     (case read_head d of
        Some (m, n, r) \<Rightarrow> if m = major then Ok (n, r) else Err CborError
      | None \<Rightarrow> Err CborError)"

definition read_string :: "nat \<Rightarrow> bytes decoder" where
  "read_string major d =
     (case read_head d of
        Some (m, Some n, r) \<Rightarrow> if m = major \<and> n \<le> length r then Ok (take n r, drop n r) else Err CborError
      | _ \<Rightarrow> Err CborError)"

definition read_simple :: "(nat \<Rightarrow> 'a option) \<Rightarrow> 'a decoder" where
  "read_simple f d =
     (case read_head d of
        Some (m, Some n, r) \<Rightarrow> (case f n of Some x \<Rightarrow> if m = 7 then Ok (x, r) else Err CborError | None \<Rightarrow> Err CborError)
      | _ \<Rightarrow> Err CborError)"

function skip_items :: "nat \<Rightarrow> unit decoder" where
  "skip_items k d =
     (if k = 0 then Ok ((), d)
      else case read_head d of
          Some (m, Some n, r) \<Rightarrow>
            if m = 2 \<or> m = 3 then (if n \<le> length r then skip_items (k - 1) (drop n r) else Err CborError)
            else if m = 4 then skip_items (n + k - 1) r
            else if m = 5 then skip_items (2 * n + k - 1) r
            else if m = 6 then skip_items k r
            else skip_items (k - 1) r
        | _ \<Rightarrow> Err CborError)"
  by pat_completeness auto

termination skip_items
  by (relation "measure (\<lambda>(k, d). length d)") (auto dest!: read_head_shorter)

definition head_type :: "bytes \<Rightarrow> (CborType, CborError) result" where
  "head_type d =
     (case read_head d of
        None \<Rightarrow> Err CborError
      | Some (m, n, r) \<Rightarrow>
          Ok (if m = 2 \<and> n \<noteq> None then T_Bytes else if m = 3 \<and> n \<noteq> None then T_String
              else if m = 7 \<and> n = Some 22 then T_Null else T_Other))"

definition map_value :: "('a \<Rightarrow> 'b) \<Rightarrow> 'a decoder \<Rightarrow> 'b decoder" where
  "map_value f p d = and_then (p d) (\<lambda>(x, r). Ok (f x, r))"

definition rfc8949 :: CborOps where
  "rfc8949 = \<lparr>
     e_map = cbor_head 5, e_array = cbor_head 4,
     e_u8 = (\<lambda>x. cbor_head 0 (unat x)), e_u16 = (\<lambda>x. cbor_head 0 (unat x)),
     e_u32 = (\<lambda>x. cbor_head 0 (unat x)), e_u64 = (\<lambda>x. cbor_head 0 (unat x)),
     e_i64 = (\<lambda>i. if 0 \<le> i then cbor_head 0 (nat i) else cbor_head 1 (nat (- 1 - i))),
     e_bytes = (\<lambda>bs. cbor_head 2 (length bs) @ bs), e_str = (\<lambda>bs. cbor_head 3 (length bs) @ bs),
     e_bool = (\<lambda>b. cbor_head 7 (if b then 21 else 20)), e_null = cbor_head 7 22,
     d_map = read_len 5, d_array = read_len 4,
     d_u8 = map_value of_nat (read_uint 256), d_u16 = map_value of_nat (read_uint 65536),
     d_u32 = map_value of_nat (read_uint (2 ^ 32)), d_u64 = map_value of_nat (read_uint (2 ^ 64)),
     d_i64 = read_int, d_bytes = read_string 2,
     d_str = (\<lambda>d. and_then (read_string 3 d) (\<lambda>(s, r). if utf8 s then Ok (s, r) else Err CborError)),
     d_bool = read_simple (\<lambda>n. if n = 20 then Some False else if n = 21 then Some True else None),
     d_null = read_simple (\<lambda>n. if n = 22 then Some () else None),
     d_skip = skip_items 1, d_datatype = head_type\<rparr>"

interpretation rfc: cbor rfc8949
proof
  have u8: "unat (a :: u8) < 2 ^ 64" and u16: "unat (b :: u16) < 2 ^ 64" and u32: "unat (c :: u32) < 2 ^ 64"
    for a b c
    by (rule less_le_trans [OF unat_u8_less] less_le_trans [OF unat_u16_less] less_le_trans [OF unat_u32_less], simp)+
  have u64: "unat (w :: u64) < 2 ^ 64" for w using unsigned_less [of w] by simp
  note defs = rfc8949_def read_len_def read_uint_def read_int_def read_string_def read_simple_def head_type_def
    map_value_def read_head_cbor_head
  fix n :: nat and i :: int and bs rest :: bytes and x :: bool and a :: u8 and b :: u16 and c :: u32 and w :: u64
  show "d_map rfc8949 (e_map rfc8949 n @ rest) = Ok (Some n, rest)" if "n < 2 ^ 64" using that by (simp add: defs)
  show "d_array rfc8949 (e_array rfc8949 n @ rest) = Ok (Some n, rest)" if "n < 2 ^ 64" using that by (simp add: defs)
  show "d_u8 rfc8949 (e_u8 rfc8949 a @ rest) = Ok (a, rest)" using u8 [of a] uint_bounded [of a] by (simp add: defs)
  show "d_u16 rfc8949 (e_u16 rfc8949 b @ rest) = Ok (b, rest)" using u16 [of b] uint_bounded [of b] by (simp add: defs)
  show "d_u32 rfc8949 (e_u32 rfc8949 c @ rest) = Ok (c, rest)" using u32 [of c] uint_bounded [of c] by (simp add: defs)
  show "d_u64 rfc8949 (e_u64 rfc8949 w @ rest) = Ok (w, rest)" using u64 [of w] uint_bounded [of w] by (simp add: defs)
  show "d_i64 rfc8949 (e_i64 rfc8949 i @ rest) = Ok (i, rest)" if "- (2 ^ 63) \<le> i" "i < 2 ^ 63"
    using that by (simp add: defs nat_less_iff)
  show "d_bytes rfc8949 (e_bytes rfc8949 bs @ rest) = Ok (bs, rest)" if "length bs < 2 ^ 64"
    using that by (simp add: defs)
  show "d_str rfc8949 (e_str rfc8949 bs @ rest) = Ok (bs, rest)" if "length bs < 2 ^ 64" "utf8 bs"
    using that by (simp add: defs)
  show "d_bool rfc8949 (e_bool rfc8949 x @ rest) = Ok (x, rest)" by (simp add: defs)
  show "d_null rfc8949 (e_null rfc8949 @ rest) = Ok ((), rest)" by (simp add: defs)
  show "d_datatype rfc8949 (e_null rfc8949 @ rest) = Ok T_Null" by (simp add: defs)
  show "d_datatype rfc8949 (e_bytes rfc8949 bs @ rest) = Ok T_Bytes" if "length bs < 2 ^ 64"
    using that by (simp add: defs)
  show "d_skip rfc8949 (e_str rfc8949 bs @ rest) = Ok ((), rest)" if "length bs < 2 ^ 64"
    using that by (simp add: rfc8949_def read_head_cbor_head skip_items.simps [of 1] skip_items.simps [of 0])
qed

end
