(* ===== verification/Ctap2.thy ===== *)
theory Ctap2
  imports Cbor
begin

text \<open>The CTAP2 protocol core of \<open>ctap2.rs\<close>: status codes, COSE keys, the \<open>getInfo\<close> response
  and the parsers of the credential requests. A parser maps the bytes not consumed yet to a
  value and the bytes that follow, or to a status. Text is its UTF-8 bytes.\<close>

section \<open>Status codes\<close>

datatype Ctap2Status =
    C2_Ok | C2_InvalidCommand | C2_InvalidParameter | C2_InvalidLength | C2_InvalidSeq | C2_Timeout
  | C2_ChannelBusy | C2_LockRequired | C2_InvalidChannel | C2_CborUnexpectedType | C2_InvalidCbor
  | C2_MissingParameter | C2_LimitExceeded | C2_UnsupportedExtension | C2_CredentialExcluded
  | C2_Processing | C2_InvalidCredential | C2_UserActionPending | C2_OperationPending
  | C2_UnsupportedAlgorithm | C2_NoCredentials | C2_UserActionTimeout | C2_NotAllowed | C2_PinInvalid
  | C2_PinBlocked | C2_PinAuthInvalid | C2_PinAuthBlocked | C2_PinNotSet | C2_PinRequired
  | C2_PinPolicyViolation | C2_RequestTooLarge | C2_ActionTimeout | C2_UpRequired | C2_UvBlocked
  | C2_IntegrityFailure | C2_InvalidSubcommand | C2_UnauthorizedPermission | C2_Other

fun ctap2_code :: "Ctap2Status \<Rightarrow> u8" where
  "ctap2_code C2_Ok = 0x00"
| "ctap2_code C2_InvalidCommand = 0x01"
| "ctap2_code C2_InvalidParameter = 0x02"
| "ctap2_code C2_InvalidLength = 0x03"
| "ctap2_code C2_InvalidSeq = 0x04"
| "ctap2_code C2_Timeout = 0x05"
| "ctap2_code C2_ChannelBusy = 0x06"
| "ctap2_code C2_LockRequired = 0x0A"
| "ctap2_code C2_InvalidChannel = 0x0B"
| "ctap2_code C2_CborUnexpectedType = 0x11"
| "ctap2_code C2_InvalidCbor = 0x12"
| "ctap2_code C2_MissingParameter = 0x14"
| "ctap2_code C2_LimitExceeded = 0x15"
| "ctap2_code C2_UnsupportedExtension = 0x16"
| "ctap2_code C2_CredentialExcluded = 0x19"
| "ctap2_code C2_Processing = 0x21"
| "ctap2_code C2_InvalidCredential = 0x22"
| "ctap2_code C2_UserActionPending = 0x23"
| "ctap2_code C2_OperationPending = 0x24"
| "ctap2_code C2_UnsupportedAlgorithm = 0x26"
| "ctap2_code C2_NoCredentials = 0x2E"
| "ctap2_code C2_UserActionTimeout = 0x2F"
| "ctap2_code C2_NotAllowed = 0x30"
| "ctap2_code C2_PinInvalid = 0x31"
| "ctap2_code C2_PinBlocked = 0x32"
| "ctap2_code C2_PinAuthInvalid = 0x33"
| "ctap2_code C2_PinAuthBlocked = 0x34"
| "ctap2_code C2_PinNotSet = 0x35"
| "ctap2_code C2_PinRequired = 0x36"
| "ctap2_code C2_PinPolicyViolation = 0x37"
| "ctap2_code C2_RequestTooLarge = 0x39"
| "ctap2_code C2_ActionTimeout = 0x3A"
| "ctap2_code C2_UpRequired = 0x3B"
| "ctap2_code C2_UvBlocked = 0x3C"
| "ctap2_code C2_IntegrityFailure = 0x3D"
| "ctap2_code C2_InvalidSubcommand = 0x3E"
| "ctap2_code C2_UnauthorizedPermission = 0x40"
| "ctap2_code C2_Other = 0x7F"

fun ctap2_core_error :: "Ctap2Status \<Rightarrow> CoreError" where
  "ctap2_core_error C2_InvalidParameter = InvalidCommand"
| "ctap2_core_error C2_InvalidLength = InvalidCommand"
| "ctap2_core_error C2_MissingParameter = InvalidCommand"
| "ctap2_core_error C2_NotAllowed = Unauthorized"
| "ctap2_core_error C2_PinAuthInvalid = Unauthorized"
| "ctap2_core_error status = ProtocolError"

section \<open>COSE keys\<close>

abbreviation (input) "COSE_KEY_TYPE_EC2 \<equiv> (2 :: int)"
abbreviation (input) "COSE_ALG_ES256 \<equiv> (- 7 :: int)"
abbreviation (input) "COSE_CURVE_P256 \<equiv> (1 :: int)"
abbreviation (input) "COSE_KEY_TYPE_OKP \<equiv> (1 :: int)"
abbreviation (input) "COSE_ALG_EDDSA \<equiv> (- 8 :: int)"
abbreviation (input) "COSE_CURVE_ED25519 \<equiv> (6 :: int)"

definition AAGUID :: bytes where
  "AAGUID = [0x41, 0x47, 0x53, 0x54, 0x4F, 0x4B, 0x45, 0x4E, 0xA3, 0x67, 0x69, 0x73, 0x2E, 0x30, 0x30, 0x31]"

record Ec2PublicKey =
  ec_crv :: int
  ec_x :: bytes
  ec_y :: bytes

record OkpPublicKey =
  okp_crv :: int
  okp_x :: bytes

definition ec2_encode :: "CborOps \<Rightarrow> Ec2PublicKey \<Rightarrow> bytes" where
  "ec2_encode C k = e_map C 5 @ e_i64 C 1 @ e_i64 C COSE_KEY_TYPE_EC2 @ e_i64 C 3 @ e_i64 C COSE_ALG_ES256 @
     e_i64 C (- 1) @ e_i64 C (ec_crv k) @ e_i64 C (- 2) @ e_bytes C (ec_x k) @ e_i64 C (- 3) @ e_bytes C (ec_y k)"

definition okp_encode :: "CborOps \<Rightarrow> OkpPublicKey \<Rightarrow> bytes" where
  "okp_encode C k = e_map C 4 @ e_i64 C 1 @ e_i64 C COSE_KEY_TYPE_OKP @ e_i64 C 3 @ e_i64 C COSE_ALG_EDDSA @
     e_i64 C (- 1) @ e_i64 C (okp_crv k) @ e_i64 C (- 2) @ e_bytes C (okp_x k)"

text \<open>\<open>codec::encode_into\<close>: the writer fails when the slice is full, so the encoding succeeds
  exactly when it fits.\<close>

definition encode_into :: "bytes \<Rightarrow> nat \<Rightarrow> bytes option" where
  "encode_into encoded buf_len = (if length encoded \<le> buf_len then Some encoded else None)"

definition map_len :: "CborOps \<Rightarrow> nat decoder" where
  "map_len C d = and_then (d_map C d) (\<lambda>(n, d). case n of None \<Rightarrow> Err CborError | Some n \<Rightarrow> Ok (n, d))"

definition ec2_entry :: "CborOps \<Rightarrow> Ec2PublicKey \<Rightarrow> bytes \<Rightarrow> (Ec2PublicKey \<times> bytes, CborError) result" where
  "ec2_entry C k d =
     and_then (d_i64 C d) (\<lambda>(key, d).
       if key = - 1 then and_then (d_i64 C d) (\<lambda>(v, d). Ok (k\<lparr>ec_crv := v\<rparr>, d))
       else if key = - 2 then
         and_then (d_bytes C d) (\<lambda>(bs, d). if length bs \<noteq> 32 then Err CborError else Ok (k\<lparr>ec_x := bs\<rparr>, d))
       else if key = - 3 then
         and_then (d_bytes C d) (\<lambda>(bs, d). if length bs \<noteq> 32 then Err CborError else Ok (k\<lparr>ec_y := bs\<rparr>, d))
       else and_then (d_skip C d) (\<lambda>(_, d). Ok (k, d)))"

definition ec2_decode :: "CborOps \<Rightarrow> Ec2PublicKey decoder" where
  "ec2_decode C d =
     and_then (map_len C d) (\<lambda>(len, d).
       loop_n len (ec2_entry C) \<lparr>ec_crv = 0, ec_x = replicate 32 0, ec_y = replicate 32 0\<rparr> d)"

definition okp_entry :: "CborOps \<Rightarrow> OkpPublicKey \<Rightarrow> bytes \<Rightarrow> (OkpPublicKey \<times> bytes, CborError) result" where
  "okp_entry C k d =
     and_then (d_i64 C d) (\<lambda>(key, d).
       if key = - 1 then and_then (d_i64 C d) (\<lambda>(v, d). Ok (k\<lparr>okp_crv := v\<rparr>, d))
       else if key = - 2 then
         and_then (d_bytes C d) (\<lambda>(bs, d). if length bs \<noteq> 32 then Err CborError else Ok (k\<lparr>okp_x := bs\<rparr>, d))
       else and_then (d_skip C d) (\<lambda>(_, d). Ok (k, d)))"

definition okp_decode :: "CborOps \<Rightarrow> OkpPublicKey decoder" where
  "okp_decode C d =
     and_then (map_len C d) (\<lambda>(len, d). loop_n len (okp_entry C) \<lparr>okp_crv = 0, okp_x = replicate 32 0\<rparr> d)"

section \<open>getInfo\<close>

definition ascii :: "string \<Rightarrow> bytes" where
  "ascii s = map of_char s"

record GetInfoResponse =
  gi_versions :: "bytes list"
  gi_aaguid :: bytes
  gi_rk :: bool
  gi_up :: bool
  gi_uv :: bool
  gi_client_pin :: bool
  gi_pin_uv_auth_token :: bool
  gi_cred_mgmt :: bool
  gi_max_msg_size :: u16
  gi_pin_protocols :: "u8 list"

definition get_info_default :: GetInfoResponse where
  "get_info_default = \<lparr>gi_versions = [ascii ''FIDO_2_0'', ascii ''U2F_V2''], gi_aaguid = AAGUID, gi_rk = True,
     gi_up = True, gi_uv = False, gi_client_pin = True, gi_pin_uv_auth_token = True, gi_cred_mgmt = False,
     gi_max_msg_size = 1200, gi_pin_protocols = [1]\<rparr>"

definition get_info_encode :: "CborOps \<Rightarrow> GetInfoResponse \<Rightarrow> bytes" where
  "get_info_encode C r =
     (let with_pin = gi_pin_protocols r \<noteq> []
      in e_map C (if with_pin then 5 else 4) @
         e_u8 C 1 @ e_array C (length (gi_versions r)) @ concat (map (e_str C) (gi_versions r)) @
         e_u8 C 3 @ e_bytes C (gi_aaguid r) @
         e_u8 C 4 @ e_map C 6 @ e_str C (ascii ''rk'') @ e_bool C (gi_rk r) @ e_str C (ascii ''up'') @ e_bool C (gi_up r) @
         e_str C (ascii ''uv'') @ e_bool C (gi_uv r) @ e_str C (ascii ''clientPin'') @ e_bool C (gi_client_pin r) @
         e_str C (ascii ''pinUvAuthToken'') @ e_bool C (gi_pin_uv_auth_token r) @
         e_str C (ascii ''credMgmt'') @ e_bool C (gi_cred_mgmt r) @
         e_u8 C 5 @ e_u16 C (gi_max_msg_size r) @
         (if with_pin then e_u8 C 6 @ e_array C (length (gi_pin_protocols r)) @ concat (map (e_u8 C) (gi_pin_protocols r))
          else []))"

section \<open>Requests\<close>

record CredentialDescriptor =
  desc_id :: bytes

record MakeCredentialRequest =
  mc_client_data_hash :: bytes
  mc_rp_id :: bytes
  mc_user_id :: bytes
  mc_exclude_list :: "CredentialDescriptor list"
  mc_algs :: "int list"
  mc_rk :: bool
  mc_uv :: bool
  mc_pin_uv_auth_param :: "bytes option"

record GetAssertionRequest =
  ga_rp_id :: bytes
  ga_client_data_hash :: bytes
  ga_allow_list :: "CredentialDescriptor list"
  ga_up :: bool
  ga_uv :: bool
  ga_pin_uv_auth_param :: "bytes option"

datatype Ctap2Request =
    R_MakeCredential MakeCredentialRequest | R_GetAssertion GetAssertionRequest | R_GetInfo | R_ClientPin
  | R_Reset | R_GetNextAssertion | R_CredentialManagement | R_Selection | R_LargeBlobs | R_Config

type_synonym 'a parser = "bytes \<Rightarrow> ('a \<times> bytes, Ctap2Status) result"

definition invalid :: "('a, CborError) result \<Rightarrow> ('a, Ctap2Status) result" where
  "invalid = map_err (\<lambda>_. C2_InvalidCbor)"

definition read_map_len :: "CborOps \<Rightarrow> nat parser" where
  "read_map_len C d =
     and_then (invalid (d_map C d)) (\<lambda>(n, d). case n of None \<Rightarrow> Err C2_InvalidCbor | Some n \<Rightarrow> Ok (n, d))"

definition read_array_len :: "CborOps \<Rightarrow> nat parser" where
  "read_array_len C d =
     and_then (invalid (d_array C d)) (\<lambda>(n, d). case n of None \<Rightarrow> Err C2_InvalidCbor | Some n \<Rightarrow> Ok (n, d))"

definition parser_skip :: "CborOps \<Rightarrow> 'a \<Rightarrow> 'a parser" where
  "parser_skip C acc d = and_then (invalid (d_skip C d)) (\<lambda>(_, d). Ok (acc, d))"

text \<open>A byte string that must fit a \<open>heapless::Vec\<close> of \<open>N\<close> bytes.\<close>

definition bounded_bytes :: "CborOps \<Rightarrow> nat \<Rightarrow> bytes parser" where
  "bounded_bytes C N d =
     and_then (invalid (d_bytes C d)) (\<lambda>(bs, d).
       case fixed_new N bs of None \<Rightarrow> Err C2_LimitExceeded | Some bs \<Rightarrow> Ok (bs, d))"

definition bounded_str :: "CborOps \<Rightarrow> nat \<Rightarrow> bytes parser" where
  "bounded_str C N d =
     and_then (invalid (d_str C d)) (\<lambda>(s, d).
       case fixed_new N s of None \<Rightarrow> Err C2_LimitExceeded | Some s \<Rightarrow> Ok (s, d))"

definition rp_entry :: "CborOps \<Rightarrow> bytes option \<Rightarrow> bytes option parser" where
  "rp_entry C ident d =
     and_then (invalid (d_str C d)) (\<lambda>(key, d).
       if key = ascii ''id'' then and_then (bounded_str C 64 d) (\<lambda>(s, d). Ok (Some s, d))
       else parser_skip C ident d)"

definition parse_rp_id :: "CborOps \<Rightarrow> bytes parser" where
  "parse_rp_id C d =
     and_then (read_map_len C d) (\<lambda>(len, d).
       and_then (loop_n len (rp_entry C) None d) (\<lambda>(ident, d).
         and_then (ok_or C2_MissingParameter ident) (\<lambda>ident. Ok (ident, d))))"

text \<open>The user handle is appended to, so a repeated \<open>id\<close> extends it.\<close>

definition user_entry :: "CborOps \<Rightarrow> bytes \<times> bool \<Rightarrow> (bytes \<times> bool) parser" where
  "user_entry C acc d =
     and_then (invalid (d_str C d)) (\<lambda>(key, d).
       if key = ascii ''id'' then
         and_then (invalid (d_bytes C d)) (\<lambda>(v, d).
           if length (fst acc @ v) \<le> 64 then Ok ((fst acc @ v, True), d) else Err C2_LimitExceeded)
       else parser_skip C acc d)"

definition parse_user_id :: "CborOps \<Rightarrow> bytes parser" where
  "parse_user_id C d =
     and_then (read_map_len C d) (\<lambda>(len, d).
       and_then (loop_n len (user_entry C) ([], False) d) (\<lambda>((ident, found), d).
         if found then Ok (ident, d) else Err C2_MissingParameter))"

definition read_client_data_hash :: "CborOps \<Rightarrow> bytes parser" where
  "read_client_data_hash C d =
     and_then (invalid (d_bytes C d)) (\<lambda>(bs, d). if length bs \<noteq> 32 then Err C2_InvalidLength else Ok (bs, d))"

text \<open>The options are \<open>(rk, uv, up)\<close>.\<close>

definition option_entry :: "CborOps \<Rightarrow> bool \<times> bool \<times> bool \<Rightarrow> (bool \<times> bool \<times> bool) parser" where
  "option_entry C acc d =
     (case acc of (rk, uv, up) \<Rightarrow>
        and_then (invalid (d_str C d)) (\<lambda>(key, d).
          if key = ascii ''rk'' then and_then (invalid (d_bool C d)) (\<lambda>(v, d). Ok ((v, uv, up), d))
          else if key = ascii ''uv'' then and_then (invalid (d_bool C d)) (\<lambda>(v, d). Ok ((rk, v, up), d))
          else if key = ascii ''up'' then and_then (invalid (d_bool C d)) (\<lambda>(v, d). Ok ((rk, uv, v), d))
          else parser_skip C acc d))"

definition parse_options :: "CborOps \<Rightarrow> (bool \<times> bool \<times> bool) parser" where
  "parse_options C d =
     and_then (read_map_len C d) (\<lambda>(len, d). loop_n len (option_entry C) (False, False, False) d)"

definition descriptor_entry :: "CborOps \<Rightarrow> bytes option \<Rightarrow> bytes option parser" where
  "descriptor_entry C ident d =
     and_then (invalid (d_str C d)) (\<lambda>(key, d).
       if key = ascii ''id'' then and_then (bounded_bytes C 64 d) (\<lambda>(bs, d). Ok (Some bs, d))
       else parser_skip C ident d)"

definition parse_credential_descriptor :: "CborOps \<Rightarrow> CredentialDescriptor parser" where
  "parse_credential_descriptor C d =
     and_then (read_map_len C d) (\<lambda>(len, d).
       and_then (loop_n len (descriptor_entry C) None d) (\<lambda>(ident, d).
         and_then (ok_or C2_MissingParameter ident) (\<lambda>ident. Ok (\<lparr>desc_id = ident\<rparr>, d))))"

definition credential_list_entry :: "CborOps \<Rightarrow> CredentialDescriptor list \<Rightarrow> CredentialDescriptor list parser" where
  "credential_list_entry C out d =
     and_then (parse_credential_descriptor C d) (\<lambda>(desc, d).
       and_then (ok_or C2_LimitExceeded (vec_push 8 out desc)) (\<lambda>out. Ok (out, d)))"

definition parse_credential_list :: "CborOps \<Rightarrow> CredentialDescriptor list \<Rightarrow> CredentialDescriptor list parser" where
  "parse_credential_list C out d =
     and_then (read_array_len C d) (\<lambda>(len, d). loop_n len (credential_list_entry C) out d)"

definition alg_entry :: "CborOps \<Rightarrow> int option \<Rightarrow> int option parser" where
  "alg_entry C alg d =
     and_then (invalid (d_str C d)) (\<lambda>(key, d).
       if key = ascii ''alg'' then and_then (invalid (d_i64 C d)) (\<lambda>(v, d). Ok (Some v, d))
       else parser_skip C alg d)"

definition cred_param_entry :: "CborOps \<Rightarrow> int list \<Rightarrow> int list parser" where
  "cred_param_entry C out d =
     and_then (read_map_len C d) (\<lambda>(entries, d).
       and_then (loop_n entries (alg_entry C) None d) (\<lambda>(alg, d).
         case alg of
           None \<Rightarrow> Ok (out, d)
         | Some alg \<Rightarrow> and_then (ok_or C2_LimitExceeded (vec_push 8 out alg)) (\<lambda>out. Ok (out, d))))"

definition parse_pub_key_cred_params :: "CborOps \<Rightarrow> int list \<Rightarrow> int list parser" where
  "parse_pub_key_cred_params C out d =
     and_then (read_array_len C d) (\<lambda>(len, d). loop_n len (cred_param_entry C) out d)"

text \<open>The local variables of \<open>parse_make_credential\<close> and \<open>parse_get_assertion\<close>.\<close>

record McFields =
  f_hash :: "bytes option"
  f_rp_id :: "bytes option"
  f_user_id :: bytes
  f_exclude :: "CredentialDescriptor list"
  f_algs :: "int list"
  f_rk :: bool
  f_uv :: bool
  f_param :: "bytes option"

definition mc_entry :: "CborOps \<Rightarrow> McFields \<Rightarrow> McFields parser" where
  "mc_entry C f d =
     and_then (invalid (d_i64 C d)) (\<lambda>(key, d).
       if key = 0x01 then and_then (read_client_data_hash C d) (\<lambda>(v, d). Ok (f\<lparr>f_hash := Some v\<rparr>, d))
       else if key = 0x02 then and_then (parse_rp_id C d) (\<lambda>(v, d). Ok (f\<lparr>f_rp_id := Some v\<rparr>, d))
       else if key = 0x03 then and_then (parse_user_id C d) (\<lambda>(v, d). Ok (f\<lparr>f_user_id := v\<rparr>, d))
       else if key = 0x04 then
         and_then (parse_pub_key_cred_params C (f_algs f) d) (\<lambda>(v, d). Ok (f\<lparr>f_algs := v\<rparr>, d))
       else if key = 0x05 then
         and_then (parse_credential_list C (f_exclude f) d) (\<lambda>(v, d). Ok (f\<lparr>f_exclude := v\<rparr>, d))
       else if key = 0x07 then
         and_then (parse_options C d) (\<lambda>((rk, uv, _), d). Ok (f\<lparr>f_rk := rk, f_uv := uv\<rparr>, d))
       else if key = 0x08 then and_then (bounded_bytes C 64 d) (\<lambda>(v, d). Ok (f\<lparr>f_param := Some v\<rparr>, d))
       else parser_skip C f d)"

definition parse_make_credential :: "CborOps \<Rightarrow> bytes \<Rightarrow> (MakeCredentialRequest, Ctap2Status) result" where
  "parse_make_credential C params =
     and_then (read_map_len C params) (\<lambda>(len, d).
       and_then (loop_n len (mc_entry C) \<lparr>f_hash = None, f_rp_id = None, f_user_id = [], f_exclude = [],
           f_algs = [], f_rk = False, f_uv = False, f_param = None\<rparr> d) (\<lambda>(f, _).
         and_then (ok_or C2_MissingParameter (f_hash f)) (\<lambda>h.
           and_then (ok_or C2_MissingParameter (f_rp_id f)) (\<lambda>rp.
             Ok \<lparr>mc_client_data_hash = h, mc_rp_id = rp, mc_user_id = f_user_id f, mc_exclude_list = f_exclude f,
                 mc_algs = f_algs f, mc_rk = f_rk f, mc_uv = f_uv f, mc_pin_uv_auth_param = f_param f\<rparr>))))"

record GaFields =
  g_rp_id :: "bytes option"
  g_hash :: "bytes option"
  g_allow :: "CredentialDescriptor list"
  g_up :: bool
  g_uv :: bool
  g_param :: "bytes option"

definition ga_entry :: "CborOps \<Rightarrow> GaFields \<Rightarrow> GaFields parser" where
  "ga_entry C f d =
     and_then (invalid (d_i64 C d)) (\<lambda>(key, d).
       if key = 0x01 then and_then (bounded_str C 64 d) (\<lambda>(v, d). Ok (f\<lparr>g_rp_id := Some v\<rparr>, d))
       else if key = 0x02 then and_then (read_client_data_hash C d) (\<lambda>(v, d). Ok (f\<lparr>g_hash := Some v\<rparr>, d))
       else if key = 0x03 then
         and_then (parse_credential_list C (g_allow f) d) (\<lambda>(v, d). Ok (f\<lparr>g_allow := v\<rparr>, d))
       else if key = 0x05 then
         and_then (parse_options C d) (\<lambda>((_, uv, up), d). Ok (f\<lparr>g_up := up, g_uv := uv\<rparr>, d))
       else if key = 0x06 then and_then (bounded_bytes C 64 d) (\<lambda>(v, d). Ok (f\<lparr>g_param := Some v\<rparr>, d))
       else parser_skip C f d)"

definition parse_get_assertion :: "CborOps \<Rightarrow> bytes \<Rightarrow> (GetAssertionRequest, Ctap2Status) result" where
  "parse_get_assertion C params =
     and_then (read_map_len C params) (\<lambda>(len, d).
       and_then (loop_n len (ga_entry C) \<lparr>g_rp_id = None, g_hash = None, g_allow = [], g_up = True, g_uv = False,
           g_param = None\<rparr> d) (\<lambda>(f, _).
         and_then (ok_or C2_MissingParameter (g_rp_id f)) (\<lambda>rp.
           and_then (ok_or C2_MissingParameter (g_hash f)) (\<lambda>h.
             Ok \<lparr>ga_rp_id = rp, ga_client_data_hash = h, ga_allow_list = g_allow f, ga_up = g_up f, ga_uv = g_uv f,
                 ga_pin_uv_auth_param = g_param f\<rparr>))))"

definition parse_request :: "CborOps \<Rightarrow> u8 \<Rightarrow> bytes \<Rightarrow> (Ctap2Request, Ctap2Status) result" where
  "parse_request C command params =
     (if command = 0x01 then and_then (parse_make_credential C params) (\<lambda>r. Ok (R_MakeCredential r))
      else if command = 0x02 then and_then (parse_get_assertion C params) (\<lambda>r. Ok (R_GetAssertion r))
      else if command = 0x04 then Ok R_GetInfo
      else if command = 0x06 then Ok R_ClientPin
      else if command = 0x07 then Ok R_Reset
      else if command = 0x08 then Ok R_GetNextAssertion
      else if command = 0x0A then Ok R_CredentialManagement
      else if command = 0x0B then Ok R_Selection
      else if command = 0x0C then Ok R_LargeBlobs
      else if command = 0x0D then Ok R_Config
      else Err C2_InvalidCommand)"

section \<open>The requests a platform sends\<close>

text \<open>The platform's encoding of the CTAP2 specification: integer keys in ascending order, optional entries left out,
  descriptors and algorithms as maps with an \<open>id\<close> or \<open>alg\<close> and a \<open>type\<close>.\<close>

definition PUBLIC_KEY :: bytes where
  "PUBLIC_KEY = ascii ''public-key''"

definition descriptor_encode :: "CborOps \<Rightarrow> CredentialDescriptor \<Rightarrow> bytes" where
  "descriptor_encode C x = e_map C 2 @ e_str C (ascii ''id'') @ e_bytes C (desc_id x) @ e_str C (ascii ''type'') @ e_str C PUBLIC_KEY"

definition alg_encode :: "CborOps \<Rightarrow> int \<Rightarrow> bytes" where
  "alg_encode C alg = e_map C 2 @ e_str C (ascii ''alg'') @ e_i64 C alg @ e_str C (ascii ''type'') @ e_str C PUBLIC_KEY"

definition list_encode :: "CborOps \<Rightarrow> ('a \<Rightarrow> bytes) \<Rightarrow> 'a list \<Rightarrow> bytes" where
  "list_encode C enc xs = e_array C (length xs) @ concat (map enc xs)"

definition optional_list :: "CborOps \<Rightarrow> int \<Rightarrow> CredentialDescriptor list \<Rightarrow> bytes list" where
  "optional_list C key xs = (if xs = [] then [] else [e_i64 C key @ list_encode C (descriptor_encode C) xs])"

definition optional_bytes :: "CborOps \<Rightarrow> int \<Rightarrow> bytes option \<Rightarrow> bytes list" where
  "optional_bytes C key x = (case x of None \<Rightarrow> [] | Some bs \<Rightarrow> [e_i64 C key @ e_bytes C bs])"

definition items_encode :: "CborOps \<Rightarrow> bytes list \<Rightarrow> bytes" where
  "items_encode C items = e_map C (length items) @ concat items"

definition make_credential_encode :: "CborOps \<Rightarrow> MakeCredentialRequest \<Rightarrow> bytes" where
  "make_credential_encode C m = items_encode C (
     [e_i64 C 1 @ e_bytes C (mc_client_data_hash m),
      e_i64 C 2 @ e_map C 1 @ e_str C (ascii ''id'') @ e_str C (mc_rp_id m),
      e_i64 C 3 @ e_map C 1 @ e_str C (ascii ''id'') @ e_bytes C (mc_user_id m),
      e_i64 C 4 @ list_encode C (alg_encode C) (mc_algs m)] @
     optional_list C 5 (mc_exclude_list m) @
     [e_i64 C 7 @ e_map C 2 @ e_str C (ascii ''rk'') @ e_bool C (mc_rk m) @ e_str C (ascii ''uv'') @ e_bool C (mc_uv m)] @
     optional_bytes C 8 (mc_pin_uv_auth_param m))"

definition get_assertion_encode :: "CborOps \<Rightarrow> GetAssertionRequest \<Rightarrow> bytes" where
  "get_assertion_encode C q = items_encode C (
     [e_i64 C 1 @ e_str C (ga_rp_id q), e_i64 C 2 @ e_bytes C (ga_client_data_hash q)] @
     optional_list C 3 (ga_allow_list q) @
     [e_i64 C 5 @ e_map C 2 @ e_str C (ascii ''up'') @ e_bool C (ga_up q) @ e_str C (ascii ''uv'') @ e_bool C (ga_uv q)] @
     optional_bytes C 6 (ga_pin_uv_auth_param q))"

text \<open>What a platform can ask for within the limits of the device.\<close>

definition descriptors_fit :: "CredentialDescriptor list \<Rightarrow> bool" where
  "descriptors_fit xs \<longleftrightarrow> length xs \<le> 8 \<and> (\<forall>x \<in> set xs. length (desc_id x) \<le> 64)"

definition make_credential_fits :: "MakeCredentialRequest \<Rightarrow> bool" where
  "make_credential_fits m \<longleftrightarrow> length (mc_client_data_hash m) = 32 \<and> utf8 (mc_rp_id m) \<and> length (mc_rp_id m) \<le> 64 \<and>
     length (mc_user_id m) \<le> 64 \<and> length (mc_algs m) \<le> 8 \<and> (\<forall>i \<in> set (mc_algs m). - (2 ^ 63) \<le> i \<and> i < 2 ^ 63) \<and>
     descriptors_fit (mc_exclude_list m) \<and> (\<forall>p. mc_pin_uv_auth_param m = Some p \<longrightarrow> length p \<le> 64)"

definition get_assertion_fits :: "GetAssertionRequest \<Rightarrow> bool" where
  "get_assertion_fits q \<longleftrightarrow> length (ga_client_data_hash q) = 32 \<and> utf8 (ga_rp_id q) \<and> length (ga_rp_id q) \<le> 64 \<and>
     descriptors_fit (ga_allow_list q) \<and> (\<forall>p. ga_pin_uv_auth_param q = Some p \<longrightarrow> length p \<le> 64)"

text \<open>The keys are distinct ASCII strings.\<close>

lemma ascii_keys:
  "utf8 (ascii ''id'')" "utf8 (ascii ''type'')" "utf8 (ascii ''alg'')" "utf8 (ascii ''rk'')" "utf8 (ascii ''uv'')" "utf8 (ascii ''up'')"
  "utf8 PUBLIC_KEY" "ascii ''type'' \<noteq> ascii ''id''" "ascii ''type'' \<noteq> ascii ''alg''" "ascii ''uv'' \<noteq> ascii ''rk''"
  "ascii ''up'' \<noteq> ascii ''rk''" "ascii ''up'' \<noteq> ascii ''uv''"
  by code_simp+

lemma length_ascii [simp]: "length (ascii s) = length s"
  by (simp add: ascii_def)

lemma length_PUBLIC_KEY [simp]: "length PUBLIC_KEY = 10"
  by (simp add: PUBLIC_KEY_def)

text \<open>A loop over items that each read alone.\<close>

lemma loop_n_items:
  assumes "\<And>x acc rest. x \<in> set xs \<Longrightarrow> length acc + 1 \<le> N \<Longrightarrow> body acc (enc x @ rest) = Ok (acc @ [x], rest)"
    and "length acc + length xs \<le> N"
  shows "loop_n (length xs) body acc (concat (map enc xs) @ rest) = Ok (acc @ xs, rest)"
  using assms
proof (induction xs arbitrary: acc)
  case (Cons x xs)
  have "body acc (enc x @ concat (map enc xs) @ rest) = Ok (acc @ [x], concat (map enc xs) @ rest)" using Cons.prems by simp
  with Cons.IH [of "acc @ [x]"] Cons.prems show ?case by simp
qed simp

lemma loop_n_numeral [simp]:
  "loop_n (numeral k) body acc d = (case body acc d of Err e \<Rightarrow> Err e | Ok (acc, d) \<Rightarrow> loop_n (pred_numeral k) body acc d)"
  by (simp add: numeral_eq_Suc)

context cbor
begin

lemmas reader_defs = read_map_len_def read_array_len_def parser_skip_def bounded_bytes_def bounded_str_def invalid_def fixed_new_def

lemma credential_list_reads:
  assumes "descriptors_fit xs"
  shows "parse_credential_list C [] (list_encode C (descriptor_encode C) xs @ rest) = Ok (xs, rest)"
proof -
  have "credential_list_entry C acc (descriptor_encode C x @ rest) = Ok (acc @ [x], rest)"
    if "x \<in> set xs" "length acc + 1 \<le> 8" for x acc rest
  proof -
    have "length (desc_id x) \<le> 64" "length (desc_id x) < 2 ^ 64" using that(1) assms by (auto simp: descriptors_fit_def)
    with that(2) show ?thesis
      by (simp add: credential_list_entry_def parse_credential_descriptor_def descriptor_encode_def descriptor_entry_def
        reader_defs cbor_laws ascii_keys vec_push_def)
  qed
  from loop_n_items [of xs 8 "credential_list_entry C", OF this] assms show ?thesis
    by (simp add: parse_credential_list_def list_encode_def reader_defs cbor_laws descriptors_fit_def)
qed

lemma algs_read:
  assumes "length xs \<le> 8" and "\<forall>i \<in> set xs. - (2 ^ 63) \<le> i \<and> i < 2 ^ 63"
  shows "parse_pub_key_cred_params C [] (list_encode C (alg_encode C) xs @ rest) = Ok (xs, rest)"
proof -
  have "cred_param_entry C acc (alg_encode C x @ rest) = Ok (acc @ [x], rest)"
    if "x \<in> set xs" "length acc + 1 \<le> 8" for x acc rest
  proof -
    have "- (2 ^ 63) \<le> x" "x < 2 ^ 63" using that(1) assms by auto
    with that(2) show ?thesis
      by (simp add: cred_param_entry_def alg_encode_def alg_entry_def reader_defs cbor_laws ascii_keys vec_push_def)
  qed
  from loop_n_items [of xs 8 "cred_param_entry C", OF this] assms show ?thesis
    by (simp add: parse_pub_key_cred_params_def list_encode_def reader_defs cbor_laws)
qed

text \<open>One entry of each request.\<close>

lemma mc_reads:
  "length h = 32 \<Longrightarrow> mc_entry C f (e_i64 C 1 @ e_bytes C h @ rest) = Ok (f\<lparr>f_hash := Some h\<rparr>, rest)"
  "utf8 rp \<Longrightarrow> length rp \<le> 64 \<Longrightarrow>
     mc_entry C f (e_i64 C 2 @ e_map C 1 @ e_str C (ascii ''id'') @ e_str C rp @ rest) = Ok (f\<lparr>f_rp_id := Some rp\<rparr>, rest)"
  "length u \<le> 64 \<Longrightarrow>
     mc_entry C f (e_i64 C 3 @ e_map C 1 @ e_str C (ascii ''id'') @ e_bytes C u @ rest) = Ok (f\<lparr>f_user_id := u\<rparr>, rest)"
  "length as \<le> 8 \<Longrightarrow> \<forall>i \<in> set as. - (2 ^ 63) \<le> i \<and> i < 2 ^ 63 \<Longrightarrow> f_algs f = [] \<Longrightarrow>
     mc_entry C f (e_i64 C 4 @ list_encode C (alg_encode C) as @ rest) = Ok (f\<lparr>f_algs := as\<rparr>, rest)"
  "descriptors_fit xs \<Longrightarrow> f_exclude f = [] \<Longrightarrow>
     mc_entry C f (e_i64 C 5 @ list_encode C (descriptor_encode C) xs @ rest) = Ok (f\<lparr>f_exclude := xs\<rparr>, rest)"
  "mc_entry C f (e_i64 C 7 @ e_map C 2 @ e_str C (ascii ''rk'') @ e_bool C rk @ e_str C (ascii ''uv'') @ e_bool C uv @ rest) =
     Ok (f\<lparr>f_rk := rk, f_uv := uv\<rparr>, rest)"
  "length p \<le> 64 \<Longrightarrow> mc_entry C f (e_i64 C 8 @ e_bytes C p @ rest) = Ok (f\<lparr>f_param := Some p\<rparr>, rest)"
  by (simp_all add: mc_entry_def read_client_data_hash_def parse_rp_id_def rp_entry_def parse_user_id_def user_entry_def
      parse_options_def option_entry_def reader_defs cbor_laws ascii_keys credential_list_reads algs_read)

lemma ga_reads:
  "utf8 rp \<Longrightarrow> length rp \<le> 64 \<Longrightarrow> ga_entry C f (e_i64 C 1 @ e_str C rp @ rest) = Ok (f\<lparr>g_rp_id := Some rp\<rparr>, rest)"
  "length h = 32 \<Longrightarrow> ga_entry C f (e_i64 C 2 @ e_bytes C h @ rest) = Ok (f\<lparr>g_hash := Some h\<rparr>, rest)"
  "descriptors_fit xs \<Longrightarrow> g_allow f = [] \<Longrightarrow>
     ga_entry C f (e_i64 C 3 @ list_encode C (descriptor_encode C) xs @ rest) = Ok (f\<lparr>g_allow := xs\<rparr>, rest)"
  "ga_entry C f (e_i64 C 5 @ e_map C 2 @ e_str C (ascii ''up'') @ e_bool C up @ e_str C (ascii ''uv'') @ e_bool C uv @ rest) =
     Ok (f\<lparr>g_up := up, g_uv := uv\<rparr>, rest)"
  "length p \<le> 64 \<Longrightarrow> ga_entry C f (e_i64 C 6 @ e_bytes C p @ rest) = Ok (f\<lparr>g_param := Some p\<rparr>, rest)"
  by (simp_all add: ga_entry_def read_client_data_hash_def parse_options_def option_entry_def reader_defs cbor_laws ascii_keys
      credential_list_reads)

lemma make_credential_reads:
  "make_credential_fits m \<Longrightarrow> parse_make_credential C (make_credential_encode C m @ rest) = Ok m"
  by (cases m; cases "mc_exclude_list m"; cases "mc_pin_uv_auth_param m")
     (simp_all add: make_credential_fits_def parse_make_credential_def make_credential_encode_def items_encode_def
       optional_list_def optional_bytes_def read_map_len_def invalid_def cbor_laws mc_reads [unfolded One_nat_def])

lemma get_assertion_reads:
  "get_assertion_fits q \<Longrightarrow> parse_get_assertion C (get_assertion_encode C q @ rest) = Ok q"
  by (cases q; cases "ga_allow_list q"; cases "ga_pin_uv_auth_param q")
     (simp_all add: get_assertion_fits_def parse_get_assertion_def get_assertion_encode_def items_encode_def
       optional_list_def optional_bytes_def read_map_len_def invalid_def cbor_laws ga_reads)

end

section \<open>Properties\<close>


definition demo_mc :: MakeCredentialRequest where
  "demo_mc = \<lparr>mc_client_data_hash = replicate 32 7, mc_rp_id = ascii ''a.b'', mc_user_id = [1, 2],
     mc_exclude_list = [\<lparr>desc_id = [3, 4]\<rparr>], mc_algs = [- 7, - 8], mc_rk = True, mc_uv = False, mc_pin_uv_auth_param = Some (replicate 16 9)\<rparr>"

definition demo_ga :: GetAssertionRequest where
  "demo_ga = \<lparr>ga_rp_id = ascii ''a.b'', ga_client_data_hash = replicate 32 7, ga_allow_list = [], ga_up = True, ga_uv = True,
     ga_pin_uv_auth_param = None\<rparr>"


end
