(* ===== verification/Credential_Store.thy ===== *)
theory Credential_Store
  imports Ctap2
begin

text \<open>Credentials and where they are kept: the \<open>Credential\<close> record with its CBOR form, the traits
  \<open>CredentialStore\<close> and \<open>PinState\<close> as a record of operations, and the in-memory store
  (all in \<open>authenticator.rs\<close>, the trait \<open>PinState\<close> in \<open>pin.rs\<close>). The contract the
  authenticator relies on is the locale \<open>fido_store\<close>, interpreted here on the in-memory
  store and in \<open>Sealed_Store\<close> on the sealed one.\<close>

abbreviation (input) "MAX_CREDENTIALS \<equiv> (8 :: nat)"
abbreviation (input) "DEFAULT_RETRIES \<equiv> (8 :: u8)"

section \<open>Credentials\<close>

record Credential =
  cred_id :: bytes
  cred_rp_id :: bytes
  cred_user_id :: bytes
  cred_private_key :: bytes
  cred_algorithm :: int
  cred_sign_count :: u32
  cred_discoverable :: bool

definition credential_encode :: "CborOps \<Rightarrow> Credential \<Rightarrow> bytes" where
  "credential_encode C c = e_map C 7 @ e_u8 C 0 @ e_bytes C (cred_id c) @ e_u8 C 1 @ e_str C (cred_rp_id c) @
     e_u8 C 2 @ e_bytes C (cred_user_id c) @ e_u8 C 3 @ e_bytes C (cred_private_key c) @
     e_u8 C 4 @ e_u32 C (cred_sign_count c) @ e_u8 C 5 @ e_bool C (cred_discoverable c) @
     e_u8 C 6 @ e_i64 C (cred_algorithm c)"

definition credential_entry :: "CborOps \<Rightarrow> Credential \<Rightarrow> bytes \<Rightarrow> (Credential \<times> bytes, CborError) result" where
  "credential_entry C c d =
     and_then (d_u8 C d) (\<lambda>(key, d).
       if key = 0 then
         and_then (d_bytes C d) (\<lambda>(bs, d). if length bs \<le> 32 then Ok (c\<lparr>cred_id := bs\<rparr>, d) else Err CborError)
       else if key = 1 then
         and_then (d_str C d) (\<lambda>(s, d). if length s \<le> 64 then Ok (c\<lparr>cred_rp_id := s\<rparr>, d) else Err CborError)
       else if key = 2 then
         and_then (d_bytes C d) (\<lambda>(bs, d). if length bs \<le> 64 then Ok (c\<lparr>cred_user_id := bs\<rparr>, d) else Err CborError)
       else if key = 3 then
         and_then (d_bytes C d) (\<lambda>(bs, d). if length bs \<noteq> 32 then Err CborError else Ok (c\<lparr>cred_private_key := bs\<rparr>, d))
       else if key = 4 then and_then (d_u32 C d) (\<lambda>(v, d). Ok (c\<lparr>cred_sign_count := v\<rparr>, d))
       else if key = 5 then and_then (d_bool C d) (\<lambda>(v, d). Ok (c\<lparr>cred_discoverable := v\<rparr>, d))
       else if key = 6 then and_then (d_i64 C d) (\<lambda>(v, d). Ok (c\<lparr>cred_algorithm := v\<rparr>, d))
       else and_then (d_skip C d) (\<lambda>(_, d). Ok (c, d)))"

definition blank_credential :: Credential where
  "blank_credential = \<lparr>cred_id = [], cred_rp_id = [], cred_user_id = [], cred_private_key = replicate 32 0,
     cred_algorithm = COSE_ALG_ES256, cred_sign_count = 0, cred_discoverable = False\<rparr>"

definition credential_decode :: "CborOps \<Rightarrow> Credential decoder" where
  "credential_decode C d =
     and_then (map_len C d) (\<lambda>(len, d).
       and_then (loop_n len (credential_entry C) blank_credential d) (\<lambda>(c, d).
         if cred_algorithm c \<noteq> COSE_ALG_ES256 \<and> cred_algorithm c \<noteq> COSE_ALG_EDDSA then Err CborError
         else Ok (c, d)))"

text \<open>The capacities of the fields, and the two algorithms.\<close>

definition credential_wf :: "Credential \<Rightarrow> bool" where
  "credential_wf c \<longleftrightarrow> length (cred_id c) \<le> 32 \<and> length (cred_rp_id c) \<le> 64 \<and> length (cred_user_id c) \<le> 64 \<and>
     length (cred_private_key c) = 32 \<and> (cred_algorithm c = COSE_ALG_ES256 \<or> cred_algorithm c = COSE_ALG_EDDSA)"

lemma credential_decode_wf:
  assumes "credential_decode C d = Ok (c, d')"
  shows "credential_wf c"
proof -
  let ?P = "\<lambda>c. length (cred_id c) \<le> 32 \<and> length (cred_rp_id c) \<le> 64 \<and> length (cred_user_id c) \<le> 64 \<and>
    length (cred_private_key c) = 32"
  obtain len d1 where loop: "loop_n len (credential_entry C) blank_credential d1 = Ok (c, d')"
    and alg: "cred_algorithm c = COSE_ALG_ES256 \<or> cred_algorithm c = COSE_ALG_EDDSA"
    using assms by (auto simp: credential_decode_def and_then_Ok_iff split: if_splits)
  have "?P c"
  proof (rule loop_n_inv [where P = ?P, OF loop])
    show "?P blank_credential" by (simp add: blank_credential_def)
    show "?P c'" if "?P c" "credential_entry C c d = Ok (c', d')" for c d c' d'
      using that by (auto simp: credential_entry_def and_then_Ok_iff split: if_splits)
  qed
  with alg show ?thesis by (simp add: credential_wf_def)
qed

lemma seven: "(7 :: nat) = Suc (Suc (Suc (Suc (Suc (Suc (Suc 0))))))" by simp

context cbor
begin

lemma credential_roundtrip:
  assumes "credential_wf c" and "utf8 (cred_rp_id c)"
  shows "credential_decode C (credential_encode C c @ rest) = Ok (c, rest)"
proof -
  have b: "length (cred_id c) < 2 ^ 64" "length (cred_rp_id c) < 2 ^ 64" "length (cred_user_id c) < 2 ^ 64"
    "length (cred_private_key c) < 2 ^ 64" "- (2 ^ 63) \<le> cred_algorithm c" "cred_algorithm c < 2 ^ 63"
    using assms(1) by (auto simp: credential_wf_def)
  have seven_map: "d_map C (e_map C 7 @ r) = Ok (Some 7, r)" for r using map_law by simp
  note laws = u8_law u32_law bool_law bytes_law [OF b(1)] bytes_law [OF b(3)] bytes_law [OF b(4)]
    str_law [OF b(2) assms(2)] i64_law [OF b(5,6)] seven_map
  define body where "body = e_u8 C 0 @ e_bytes C (cred_id c) @ e_u8 C 1 @ e_str C (cred_rp_id c) @
     e_u8 C 2 @ e_bytes C (cred_user_id c) @ e_u8 C 3 @ e_bytes C (cred_private_key c) @
     e_u8 C 4 @ e_u32 C (cred_sign_count c) @ e_u8 C 5 @ e_bool C (cred_discoverable c) @
     e_u8 C 6 @ e_i64 C (cred_algorithm c) @ rest"
  have "map_len C (credential_encode C c @ rest) = Ok (7, body)"
    by (simp add: credential_encode_def map_len_def laws body_def)
  moreover have "loop_n 7 (credential_entry C) blank_credential body = Ok (c, rest)"
    unfolding seven body_def using assms(1)
    by (simp add: laws credential_entry_def credential_wf_def blank_credential_def)
  ultimately show ?thesis using assms(1) by (auto simp: credential_decode_def credential_wf_def)
qed

end

section \<open>The store interface\<close>

record 's PinStateOps =
  ps_hash :: "'s \<Rightarrow> bytes option"
  ps_retries :: "'s \<Rightarrow> u8"
  ps_set_hash :: "'s \<Rightarrow> bytes \<Rightarrow> unit CoreResult \<times> 's"
  ps_set_retries :: "'s \<Rightarrow> u8 \<Rightarrow> unit CoreResult \<times> 's"
  ps_clear :: "'s \<Rightarrow> unit CoreResult \<times> 's"

record 's StoreOps = "'s PinStateOps" +
  cs_get :: "'s \<Rightarrow> bytes \<Rightarrow> Credential option"
  cs_find_by_rp :: "'s \<Rightarrow> bytes \<Rightarrow> Credential option"
  cs_insert :: "'s \<Rightarrow> Credential \<Rightarrow> unit CoreResult \<times> 's"
  cs_next_sign_count :: "'s \<Rightarrow> bytes \<Rightarrow> u32 option \<times> 's"
  cs_remove :: "'s \<Rightarrow> bytes \<Rightarrow> unit CoreResult \<times> 's"
  cs_count :: "'s \<Rightarrow> nat"
  cs_list :: "'s \<Rightarrow> Credential list"
  cs_clear :: "'s \<Rightarrow> 's"

section \<open>The operations on a list of credentials\<close>

text \<open>Both stores keep a \<open>heapless::Vec\<close> of eight credentials and treat it alike.\<close>

definition cache_get :: "Credential list \<Rightarrow> bytes \<Rightarrow> Credential option" where
  "cache_get cs i = find (\<lambda>c. cred_id c = i) cs"

text \<open>\<open>max_by_key\<close> returns the last of several greatest elements.\<close>

definition cache_find_by_rp :: "Credential list \<Rightarrow> bytes \<Rightarrow> Credential option" where
  "cache_find_by_rp cs rp =
     fold (\<lambda>c best. case best of None \<Rightarrow> Some c
                     | Some b \<Rightarrow> if cred_discoverable b \<and> \<not> cred_discoverable c then Some b else Some c)
       (filter (\<lambda>c. cred_rp_id c = rp) cs) None"

fun replace_first :: "Credential \<Rightarrow> Credential list \<Rightarrow> Credential list option" where
  "replace_first c [] = None"
| "replace_first c (e # es) =
     (if cred_id e = cred_id c then Some (c # es) else map_option ((#) e) (replace_first c es))"

definition cache_insert :: "Credential list \<Rightarrow> Credential \<Rightarrow> Credential list option" where
  "cache_insert cs c = (case replace_first c cs of Some cs' \<Rightarrow> Some cs' | None \<Rightarrow> vec_push MAX_CREDENTIALS cs c)"

fun cache_count_up :: "bytes \<Rightarrow> Credential list \<Rightarrow> (u32 \<times> Credential list) option" where
  "cache_count_up i [] = None"
| "cache_count_up i (c # cs) =
     (if cred_id c = i then
        let n = saturating_add (cred_sign_count c) 1 in Some (n, c\<lparr>cred_sign_count := n\<rparr> # cs)
      else map_option (apsnd ((#) c)) (cache_count_up i cs))"

definition cache_remove :: "Credential list \<Rightarrow> bytes \<Rightarrow> Credential list" where
  "cache_remove cs i = (case position (\<lambda>c. cred_id c = i) cs of Some k \<Rightarrow> swap_remove k cs | None \<Rightarrow> cs)"

section \<open>The in-memory store\<close>

record MemoryStore =
  ms_credentials :: "Credential list"
  ms_pin_hash :: "bytes option"
  ms_pin_retries :: u8

definition memory_new :: MemoryStore where
  "memory_new = \<lparr>ms_credentials = [], ms_pin_hash = None, ms_pin_retries = DEFAULT_RETRIES\<rparr>"

definition memory_set_hash :: "MemoryStore \<Rightarrow> bytes \<Rightarrow> unit CoreResult \<times> MemoryStore" where
  "memory_set_hash s h = (Ok (), s\<lparr>ms_pin_hash := Some h, ms_pin_retries := DEFAULT_RETRIES\<rparr>)"

definition memory_set_retries :: "MemoryStore \<Rightarrow> u8 \<Rightarrow> unit CoreResult \<times> MemoryStore" where
  "memory_set_retries s n = (Ok (), s\<lparr>ms_pin_retries := n\<rparr>)"

definition memory_clear_pin :: "MemoryStore \<Rightarrow> unit CoreResult \<times> MemoryStore" where
  "memory_clear_pin s = (Ok (), s\<lparr>ms_pin_hash := None, ms_pin_retries := DEFAULT_RETRIES\<rparr>)"

definition memory_insert :: "MemoryStore \<Rightarrow> Credential \<Rightarrow> unit CoreResult \<times> MemoryStore" where
  "memory_insert s c =
     (case cache_insert (ms_credentials s) c of
        None \<Rightarrow> (Err StorageError, s)
      | Some cs \<Rightarrow> (Ok (), s\<lparr>ms_credentials := cs\<rparr>))"

definition memory_next_sign_count :: "MemoryStore \<Rightarrow> bytes \<Rightarrow> u32 option \<times> MemoryStore" where
  "memory_next_sign_count s i =
     (case cache_count_up i (ms_credentials s) of
        None \<Rightarrow> (None, s)
      | Some (n, cs) \<Rightarrow> (Some n, s\<lparr>ms_credentials := cs\<rparr>))"

definition memory_remove :: "MemoryStore \<Rightarrow> bytes \<Rightarrow> unit CoreResult \<times> MemoryStore" where
  "memory_remove s i = (Ok (), s\<lparr>ms_credentials := cache_remove (ms_credentials s) i\<rparr>)"

definition memory_clear :: "MemoryStore \<Rightarrow> MemoryStore" where
  "memory_clear s = s\<lparr>ms_credentials := []\<rparr>"

definition memory_ops :: "MemoryStore StoreOps" where
  "memory_ops = \<lparr>ps_hash = ms_pin_hash, ps_retries = ms_pin_retries, ps_set_hash = memory_set_hash,
     ps_set_retries = memory_set_retries, ps_clear = memory_clear_pin,
     cs_get = (\<lambda>s. cache_get (ms_credentials s)), cs_find_by_rp = (\<lambda>s. cache_find_by_rp (ms_credentials s)),
     cs_insert = memory_insert, cs_next_sign_count = memory_next_sign_count, cs_remove = memory_remove,
     cs_count = (\<lambda>s. length (ms_credentials s)), cs_list = ms_credentials, cs_clear = memory_clear\<rparr>"

section \<open>What the operations do to the list\<close>

abbreviation ids :: "Credential list \<Rightarrow> bytes list" where
  "ids cs \<equiv> map cred_id cs"

lemma replace_first_None: "replace_first c cs = None \<longleftrightarrow> cred_id c \<notin> set (ids cs)"
  by (induction cs) auto

lemma replace_first_Some:
  "replace_first c cs = Some cs' \<Longrightarrow> ids cs' = ids cs \<and>
     (\<forall>i. cache_get cs' i = (if i = cred_id c then Some c else cache_get cs i)) \<and> set cs' \<subseteq> insert c (set cs)"
  by (induction cs arbitrary: cs') (auto simp: cache_get_def split: if_splits)

lemma cache_get_None: "cache_get cs i = None \<longleftrightarrow> i \<notin> set (ids cs)"
  by (auto simp: cache_get_def find_None_iff)

lemma cache_get_SomeD: "cache_get cs i = Some c \<Longrightarrow> c \<in> set cs \<and> cred_id c = i"
  by (auto simp: cache_get_def find_Some_iff)

lemma cache_get_in:
  assumes "distinct (ids cs)" and "c \<in> set cs"
  shows "cache_get cs (cred_id c) = Some c"
  using assms by (induction cs) (auto simp: cache_get_def)

lemma cache_insert_Some:
  assumes "cache_insert cs c = Some cs'"
  shows "cache_get cs' i = (if i = cred_id c then Some c else cache_get cs i)"
    and "distinct (ids cs) \<Longrightarrow> distinct (ids cs')" and "length cs \<le> 8 \<Longrightarrow> length cs' \<le> 8"
    and "set cs' \<subseteq> insert c (set cs)"
proof -
  consider (old) "replace_first c cs = Some cs'" | (new) "replace_first c cs = None" "length cs < 8" "cs' = cs @ [c]"
    using assms by (auto simp: cache_insert_def vec_push_Some_iff split: option.splits)
  note cases = this
  show "cache_get cs' i = (if i = cred_id c then Some c else cache_get cs i)"
  proof (cases rule: cases)
    case old
    then show ?thesis by (simp add: replace_first_Some)
  next
    case new
    then have "cache_get cs (cred_id c) = None" by (simp add: replace_first_None cache_get_None)
    with new show ?thesis by (auto simp: cache_get_def find_append split: option.splits)
  qed
  show "distinct (ids cs) \<Longrightarrow> distinct (ids cs')"
    by (cases rule: cases) (auto simp: replace_first_None dest: replace_first_Some)
  show "length cs \<le> 8 \<Longrightarrow> length cs' \<le> 8"
    by (cases rule: cases) (auto dest!: replace_first_Some map_eq_imp_length_eq)
  show "set cs' \<subseteq> insert c (set cs)"
    by (cases rule: cases) (auto dest: replace_first_Some)
qed

lemma cache_count_up_Some:
  assumes "cache_count_up i cs = Some (n, cs')"
  shows "\<exists>c. cache_get cs i = Some c \<and> n = saturating_add (cred_sign_count c) 1 \<and> ids cs' = ids cs \<and>
    (\<forall>j. cache_get cs' j = (if j = i then Some (c\<lparr>cred_sign_count := n\<rparr>) else cache_get cs j))"
  using assms
  by (induction i cs arbitrary: cs' rule: cache_count_up.induct)
     (auto simp: cache_get_def Let_def split: if_splits)

lemma cache_count_up_None: "cache_count_up i cs = None \<longleftrightarrow> cache_get cs i = None"
  by (induction i cs rule: cache_count_up.induct) (auto simp: cache_get_def Let_def)

lemma cache_remove_spec:
  assumes dist: "distinct (ids cs)"
  shows "set (cache_remove cs i) = {c \<in> set cs. cred_id c \<noteq> i}" and "distinct (ids (cache_remove cs i))"
proof -
  have "distinct cs" using dist by (simp add: distinct_map)
  have "set (cache_remove cs i) = {c \<in> set cs. cred_id c \<noteq> i} \<and> distinct (ids (cache_remove cs i))"
  proof (cases "position (\<lambda>c. cred_id c = i) cs")
    case None
    then have "\<forall>c \<in> set cs. cred_id c \<noteq> i" by (simp add: position_None)
    with None dist show ?thesis by (auto simp: cache_remove_def)
  next
    case (Some k)
    then have k: "k < length cs" "cred_id (cs ! k) = i" by (auto dest: position_Some)
    have "{c \<in> set cs. cred_id c \<noteq> i} = set cs - {cs ! k}"
      using k dist by (auto simp: distinct_map dest: inj_onD)
    with Some k dist \<open>distinct cs\<close> show ?thesis
      by (simp add: cache_remove_def set_swap_remove swap_remove_map)
  qed
  then show "set (cache_remove cs i) = {c \<in> set cs. cred_id c \<noteq> i}" "distinct (ids (cache_remove cs i))" by auto
qed

section \<open>The contract of a store\<close>

text \<open>PIN state. A setter takes effect in the running device whatever it reports: an error means
  that the change may not have reached the flash.\<close>

locale pin_state =
  fixes ops :: "('s, 'more) PinStateOps_scheme"
  assumes set_hash: "ps_set_hash ops s h = (r, s') \<Longrightarrow> ps_hash ops s' = Some h \<and> ps_retries ops s' = DEFAULT_RETRIES"
    and set_retries: "ps_set_retries ops s n = (r, s') \<Longrightarrow> ps_hash ops s' = ps_hash ops s \<and> ps_retries ops s' = n"
    and clear_pin: "ps_clear ops s = (r, s') \<Longrightarrow> ps_hash ops s' = None \<and> ps_retries ops s' = DEFAULT_RETRIES"

text \<open>A credential store behaves as its list, again up to errors of the flash.\<close>

locale fido_store = pin_state ops for ops :: "'s StoreOps" +
  assumes get_list: "cs_get ops s i = cache_get (cs_list ops s) i"
    and count_list: "cs_count ops s = length (cs_list ops s)"
    and insert_list: "cs_insert ops s c = (r, s') \<Longrightarrow>
      (case cache_insert (cs_list ops s) c of
         None \<Rightarrow> r = Err StorageError \<and> s' = s | Some cs \<Rightarrow> cs_list ops s' = cs)"
    and count_up_list: "cs_next_sign_count ops s i = (n, s') \<Longrightarrow>
      (case cache_count_up i (cs_list ops s) of
         None \<Rightarrow> n = None \<and> s' = s | Some (m, cs) \<Rightarrow> cs_list ops s' = cs \<and> (n = Some m \<or> n = None))"
    and remove_list: "cs_remove ops s i = (r, s') \<Longrightarrow> cs_list ops s' = cache_remove (cs_list ops s) i"
    and clear_list: "cs_list ops (cs_clear ops s) = []"
    and insert_pin: "cs_insert ops s c = (r, s') \<Longrightarrow> ps_hash ops s' = ps_hash ops s \<and> ps_retries ops s' = ps_retries ops s"
    and count_up_pin: "cs_next_sign_count ops s i = (n, s') \<Longrightarrow>
      ps_hash ops s' = ps_hash ops s \<and> ps_retries ops s' = ps_retries ops s"
    and remove_pin: "cs_remove ops s i = (r, s') \<Longrightarrow> ps_hash ops s' = ps_hash ops s \<and> ps_retries ops s' = ps_retries ops s"
    and set_hash_list: "ps_set_hash ops s h = (r, s') \<Longrightarrow> cs_list ops s' = cs_list ops s"
    and set_retries_list: "ps_set_retries ops s k = (r, s') \<Longrightarrow> cs_list ops s' = cs_list ops s"
    and clear_pin_list: "ps_clear ops s = (r, s') \<Longrightarrow> cs_list ops s' = cs_list ops s"

lemmas memory_defs = memory_ops_def memory_set_hash_def memory_set_retries_def memory_clear_pin_def memory_insert_def
  memory_next_sign_count_def memory_remove_def memory_clear_def

interpretation memory: fido_store memory_ops
  by unfold_locales (auto simp: memory_defs split: option.splits)

end
