(* ===== verification/Client_Pin.thy ===== *)
theory Client_Pin
  imports Credential_Store Retry_Guard
begin

text \<open>The CTAP2 \<open>clientPIN\<close> handler of \<open>pin.rs\<close>: key agreement, the PIN commands with their
  retry accounting, and the scoped \<open>pinUvAuthToken\<close>. The cryptographic primitives are
  third-party code, a record of functions; the PIN state is any store that keeps the
  contract \<open>pin_state\<close>. A random generator is a state and a function that fills a buffer
  of the given length from it.

  Shown here: the guessing budget of the PIN over every sequence of PIN commands, that a
  token authorises an operation only within its permissions and its relying party, and
  that a token spent on a user presence test authorises nothing any more.\<close>

section \<open>Primitives\<close>

record FidoCrypto =
  c_sha256 :: "bytes \<Rightarrow> bytes"
  c_hmac :: "bytes \<Rightarrow> bytes \<Rightarrow> bytes"
  c_cbc_encrypt :: "bytes \<Rightarrow> bytes \<Rightarrow> bytes \<Rightarrow> bytes option"
  c_cbc_decrypt :: "bytes \<Rightarrow> bytes \<Rightarrow> bytes \<Rightarrow> bytes option"
  c_p256_secret :: "bytes \<Rightarrow> bool"
  c_p256_coords :: "bytes \<Rightarrow> (bytes \<times> bytes) option"
  c_p256_point :: "bytes \<Rightarrow> bool"
  c_p256_ecdh :: "bytes \<Rightarrow> bytes \<Rightarrow> bytes"
  c_ecdsa_sign :: "bytes \<Rightarrow> bytes \<Rightarrow> bytes"
  c_ed_public :: "bytes \<Rightarrow> bytes"
  c_ed_sign :: "bytes \<Rightarrow> bytes \<Rightarrow> bytes"

definition ct_eq :: "bytes \<Rightarrow> bytes \<Rightarrow> bool" where
  "ct_eq a b \<longleftrightarrow> (if length a \<noteq> length b then False else xor_fold a b = 0)"

definition ct_eq_prefix :: "bytes \<Rightarrow> bytes \<Rightarrow> bool" where
  "ct_eq_prefix expected param \<longleftrightarrow>
     (if length param \<noteq> 16 \<and> length param \<noteq> 32 then False else ct_eq (take (length param) expected) param)"

definition pin_hash :: "FidoCrypto \<Rightarrow> bytes \<Rightarrow> bytes" where
  "pin_hash cr pin =
     (let n = min (length pin) 64 in c_sha256 cr (take n pin @ replicate (64 - n) 0))"

definition aes_cbc_encrypt :: "FidoCrypto \<Rightarrow> bytes \<Rightarrow> bytes \<Rightarrow> nat \<Rightarrow> (bytes, Ctap2Status) result" where
  "aes_cbc_encrypt cr shared plaintext out_len =
     (if plaintext = [] \<or> length plaintext mod 16 \<noteq> 0 \<or> out_len < length plaintext then Err C2_InvalidLength
      else ok_or C2_Other (c_cbc_encrypt cr shared (take 16 shared) plaintext))"

definition aes_cbc_decrypt :: "FidoCrypto \<Rightarrow> bytes \<Rightarrow> bytes \<Rightarrow> nat \<Rightarrow> (bytes, Ctap2Status) result" where
  "aes_cbc_decrypt cr shared ciphertext out_len =
     (if ciphertext = [] \<or> length ciphertext mod 16 \<noteq> 0 \<or> out_len < length ciphertext then Err C2_InvalidLength
      else ok_or C2_Other (c_cbc_decrypt cr shared (take 16 shared) ciphertext))"

fun generate_secret_loop :: "FidoCrypto \<Rightarrow> 'g fill \<Rightarrow> nat \<Rightarrow> 'g \<Rightarrow> (bytes, Ctap2Status) result \<times> 'g" where
  "generate_secret_loop cr fill 0 rng = (Err C2_Other, rng)"
| "generate_secret_loop cr fill (Suc n) rng =
     (case fill 32 rng of
        (bs, rng) \<Rightarrow> if c_p256_secret cr bs then (Ok bs, rng) else generate_secret_loop cr fill n rng)"

definition generate_secret_key :: "FidoCrypto \<Rightarrow> 'g fill \<Rightarrow> 'g \<Rightarrow> (bytes, Ctap2Status) result \<times> 'g" where
  "generate_secret_key cr fill = generate_secret_loop cr fill 16"

record Ec2KeyAgreement =
  ka_x :: bytes
  ka_y :: bytes

definition shared_secret :: "FidoCrypto \<Rightarrow> bytes \<Rightarrow> Ec2KeyAgreement \<Rightarrow> (bytes, Ctap2Status) result" where
  "shared_secret cr private platform =
     (if \<not> c_p256_secret cr private then Err C2_Other
      else let sec1 = 0x04 # ka_x platform @ ka_y platform
        in if \<not> c_p256_point cr sec1 then Err C2_InvalidParameter
           else Ok (c_p256_ecdh cr private sec1))"

definition rp_id_hash :: "FidoCrypto \<Rightarrow> bytes \<Rightarrow> bytes" where
  "rp_id_hash cr rp_id = c_sha256 cr rp_id"

definition rp_in_scope :: "bytes \<Rightarrow> bytes option \<Rightarrow> bool" where
  "rp_in_scope rp_id bound_rp_id = (case bound_rp_id of None \<Rightarrow> True | Some bound \<Rightarrow> bound = rp_id)"

section \<open>Requests\<close>

abbreviation (input) "SUB_GET_RETRIES \<equiv> (0x01 :: u8)"
abbreviation (input) "SUB_GET_KEY_AGREEMENT \<equiv> (0x02 :: u8)"
abbreviation (input) "SUB_SET_PIN \<equiv> (0x03 :: u8)"
abbreviation (input) "SUB_CHANGE_PIN \<equiv> (0x04 :: u8)"
abbreviation (input) "SUB_GET_PIN_TOKEN \<equiv> (0x05 :: u8)"
abbreviation (input) "SUB_GET_PIN_UV_AUTH_TOKEN_WITH_PERMISSIONS \<equiv> (0x09 :: u8)"
abbreviation (input) "PIN_PROTOCOL \<equiv> (1 :: u8)"
abbreviation (input) "PERMISSION_MC \<equiv> (0x01 :: u8)"
abbreviation (input) "PERMISSION_GA \<equiv> (0x02 :: u8)"
abbreviation (input) "PERMISSION_CM \<equiv> (0x04 :: u8)"
abbreviation (input) "SUPPORTED_PERMISSIONS \<equiv> (0x07 :: u8)"
abbreviation (input) "DEFAULT_PERMISSIONS \<equiv> (0x03 :: u8)"
abbreviation (input) "MAX_RP_ID_LEN \<equiv> (253 :: nat)"

record ClientPinRequest =
  cpr_protocol :: u8
  cpr_sub_command :: u8
  cpr_key_agreement :: "Ec2KeyAgreement option"
  cpr_pin_uv_auth_param :: "bytes option"
  cpr_new_pin_enc :: "bytes option"
  cpr_pin_hash_enc :: "bytes option"
  cpr_permissions :: "u8 option"
  cpr_rp_id :: "bytes option"

definition ka_encode :: "CborOps \<Rightarrow> Ec2KeyAgreement \<Rightarrow> bytes" where
  "ka_encode C k = e_map C 5 @ e_i64 C 1 @ e_i64 C 2 @ e_i64 C 3 @ e_i64 C (- 25) @ e_i64 C (- 1) @ e_i64 C 1 @
     e_i64 C (- 2) @ e_bytes C (ka_x k) @ e_i64 C (- 3) @ e_bytes C (ka_y k)"

definition ka_entry :: "CborOps \<Rightarrow> Ec2KeyAgreement \<Rightarrow> bytes \<Rightarrow> (Ec2KeyAgreement \<times> bytes, CborError) result" where
  "ka_entry C k d =
     and_then (d_i64 C d) (\<lambda>(key, d).
       if key = - 2 then
         and_then (d_bytes C d) (\<lambda>(bs, d). if length bs \<noteq> 32 then Err CborError else Ok (k\<lparr>ka_x := bs\<rparr>, d))
       else if key = - 3 then
         and_then (d_bytes C d) (\<lambda>(bs, d). if length bs \<noteq> 32 then Err CborError else Ok (k\<lparr>ka_y := bs\<rparr>, d))
       else and_then (d_skip C d) (\<lambda>(_, d). Ok (k, d)))"

definition ka_decode :: "CborOps \<Rightarrow> Ec2KeyAgreement decoder" where
  "ka_decode C d =
     and_then (map_len C d) (\<lambda>(len, d).
       loop_n len (ka_entry C) \<lparr>ka_x = replicate 32 0, ka_y = replicate 32 0\<rparr> d)"

definition cpr_entry :: "CborOps \<Rightarrow> ClientPinRequest \<Rightarrow> ClientPinRequest parser" where
  "cpr_entry C r d =
     and_then (invalid (d_u8 C d)) (\<lambda>(key, d).
       if key = 0x01 then and_then (invalid (d_u8 C d)) (\<lambda>(v, d). Ok (r\<lparr>cpr_protocol := v\<rparr>, d))
       else if key = 0x02 then and_then (invalid (d_u8 C d)) (\<lambda>(v, d). Ok (r\<lparr>cpr_sub_command := v\<rparr>, d))
       else if key = 0x03 then and_then (invalid (ka_decode C d)) (\<lambda>(v, d). Ok (r\<lparr>cpr_key_agreement := Some v\<rparr>, d))
       else if key = 0x04 then and_then (bounded_bytes C 64 d) (\<lambda>(v, d). Ok (r\<lparr>cpr_pin_uv_auth_param := Some v\<rparr>, d))
       else if key = 0x05 then and_then (bounded_bytes C 96 d) (\<lambda>(v, d). Ok (r\<lparr>cpr_new_pin_enc := Some v\<rparr>, d))
       else if key = 0x06 then and_then (bounded_bytes C 32 d) (\<lambda>(v, d). Ok (r\<lparr>cpr_pin_hash_enc := Some v\<rparr>, d))
       else if key = 0x09 then and_then (invalid (d_u8 C d)) (\<lambda>(v, d). Ok (r\<lparr>cpr_permissions := Some v\<rparr>, d))
       else if key = 0x0A then
         and_then (invalid (d_str C d)) (\<lambda>(s, d).
           and_then (ok_or C2_InvalidParameter (fixed_new MAX_RP_ID_LEN s)) (\<lambda>s. Ok (r\<lparr>cpr_rp_id := Some s\<rparr>, d)))
       else parser_skip C r d)"

definition client_pin_parse :: "CborOps \<Rightarrow> bytes \<Rightarrow> (ClientPinRequest, Ctap2Status) result" where
  "client_pin_parse C params =
     and_then (read_map_len C params) (\<lambda>(len, d).
       and_then (loop_n len (cpr_entry C) \<lparr>cpr_protocol = 1, cpr_sub_command = 0, cpr_key_agreement = None,
           cpr_pin_uv_auth_param = None, cpr_new_pin_enc = None, cpr_pin_hash_enc = None, cpr_permissions = None,
           cpr_rp_id = None\<rparr> d) (\<lambda>(r, _).
         if cpr_protocol r \<noteq> PIN_PROTOCOL then Err C2_InvalidParameter else Ok r))"

datatype ManagementScope =
  Scope_Device | Scope_RelyingPartyHash bytes | Scope_CredentialRelyingParty "bytes option"

datatype TokenOperation =
  Op_MakeCredential bytes | Op_GetAssertion bytes | Op_CredentialManagement ManagementScope

record TokenRequest =
  tr_param :: "bytes option"
  tr_message :: bytes
  tr_uv_requested :: bool
  tr_operation :: TokenOperation

section \<open>The handler\<close>

record ClientPin =
  cp_agreement :: "bytes option"
  cp_token :: "bytes option"
  cp_permissions :: u8
  cp_rp_id :: "bytes option"

definition client_pin_new :: ClientPin where
  "client_pin_new = \<lparr>cp_agreement = None, cp_token = None, cp_permissions = 0, cp_rp_id = None\<rparr>"

definition verify_pin_uv_auth_param :: "FidoCrypto \<Rightarrow> ClientPin \<Rightarrow> bytes \<Rightarrow> bytes \<Rightarrow> bool" where
  "verify_pin_uv_auth_param cr self param message =
     (case cp_token self of
        None \<Rightarrow> False
      | Some token \<Rightarrow>
          if length param \<noteq> 16 \<and> length param \<noteq> 32 then False
          else ct_eq (take (length param) (c_hmac cr token message)) param)"

definition bind_rp_id :: "ClientPin \<Rightarrow> bytes \<Rightarrow> (unit, Ctap2Status) result \<times> ClientPin" where
  "bind_rp_id self rp_id =
     (case cp_rp_id self of
        Some bound \<Rightarrow> if bound \<noteq> rp_id then (Err C2_PinAuthInvalid, self) else (Ok (), self)
      | None \<Rightarrow>
          (case fixed_new MAX_RP_ID_LEN rp_id of
             None \<Rightarrow> (Err C2_InvalidParameter, self)
           | Some bound \<Rightarrow> (Ok (), self\<lparr>cp_rp_id := Some bound\<rparr>)))"

definition check_management_scope :: "FidoCrypto \<Rightarrow> ClientPin \<Rightarrow> ManagementScope \<Rightarrow> (unit, Ctap2Status) result" where
  "check_management_scope cr self scope =
     (case scope of
        Scope_Device \<Rightarrow> if cp_rp_id self \<noteq> None then Err C2_PinAuthInvalid else Ok ()
      | Scope_RelyingPartyHash h \<Rightarrow>
          (case cp_rp_id self of
             Some bound \<Rightarrow> if rp_id_hash cr bound \<noteq> h then Err C2_PinAuthInvalid else Ok ()
           | None \<Rightarrow> Ok ())
      | Scope_CredentialRelyingParty rp \<Rightarrow>
          (case rp of
             None \<Rightarrow> if cp_rp_id self \<noteq> None then Err C2_PinAuthInvalid else Ok ()
           | Some rp_id \<Rightarrow> if \<not> rp_in_scope rp_id (cp_rp_id self) then Err C2_PinAuthInvalid else Ok ()))"

fun operation_permission :: "TokenOperation \<Rightarrow> u8" where
  "operation_permission (Op_MakeCredential _) = PERMISSION_MC"
| "operation_permission (Op_GetAssertion _) = PERMISSION_GA"
| "operation_permission (Op_CredentialManagement _) = PERMISSION_CM"

definition authorize ::
    "FidoCrypto \<Rightarrow> ('s, 'more) PinStateOps_scheme \<Rightarrow> ClientPin \<Rightarrow> 's \<Rightarrow> TokenRequest
      \<Rightarrow> (bool, Ctap2Status) result \<times> ClientPin" where
  "authorize cr ops self state request =
     (let permission = operation_permission (tr_operation request)
      in case tr_param request of
           None \<Rightarrow>
             if permission = PERMISSION_CM then (Err C2_PinRequired, self)
             else if tr_uv_requested request \<or> ps_hash ops state \<noteq> None then (Err C2_PinRequired, self)
             else (Ok False, self)
         | Some param \<Rightarrow>
             if cp_token self = None then (Err C2_PinAuthInvalid, self)
             else if cp_permissions self AND permission = 0 then (Err C2_PinAuthInvalid, self)
             else if \<not> verify_pin_uv_auth_param cr self param (tr_message request) then (Err C2_PinAuthInvalid, self)
             else (case tr_operation request of
                     Op_MakeCredential rp_id \<Rightarrow>
                       (case bind_rp_id self rp_id of (Err e, self) \<Rightarrow> (Err e, self) | (Ok _, self) \<Rightarrow> (Ok True, self))
                   | Op_GetAssertion rp_id \<Rightarrow>
                       (case bind_rp_id self rp_id of (Err e, self) \<Rightarrow> (Err e, self) | (Ok _, self) \<Rightarrow> (Ok True, self))
                   | Op_CredentialManagement scope \<Rightarrow>
                       (case check_management_scope cr self scope of Err e \<Rightarrow> (Err e, self) | Ok _ \<Rightarrow> (Ok True, self))))"

definition close_user_presence_operation :: "ClientPin \<Rightarrow> bool \<Rightarrow> bool \<Rightarrow> ClientPin" where
  "close_user_presence_operation self token_used succeeded =
     (if token_used \<and> succeeded then self\<lparr>cp_permissions := 0, cp_rp_id := None\<rparr> else self)"

definition invalidate_token :: "ClientPin \<Rightarrow> ClientPin" where
  "invalidate_token self = self\<lparr>cp_token := None, cp_permissions := 0, cp_rp_id := None\<rparr>"

definition get_retries :: "('s, 'more) PinStateOps_scheme \<Rightarrow> 's \<Rightarrow> u8" where
  "get_retries ops state = ps_retries ops state"

definition key_agreement ::
    "FidoCrypto \<Rightarrow> 'g fill \<Rightarrow> ClientPin \<Rightarrow> 'g \<Rightarrow> (Ec2KeyAgreement, Ctap2Status) result \<times> ClientPin \<times> 'g" where
  "key_agreement cr fill self rng =
     (case generate_secret_key cr fill rng of
        (Err e, rng) \<Rightarrow> (Err e, self, rng)
      | (Ok secret, rng) \<Rightarrow>
          (case c_p256_coords cr secret of
             None \<Rightarrow> (Err C2_Other, self, rng)
           | Some (x, y) \<Rightarrow> (Ok \<lparr>ka_x = x, ka_y = y\<rparr>, self\<lparr>cp_agreement := Some secret\<rparr>, rng)))"

definition shared :: "FidoCrypto \<Rightarrow> ClientPin \<Rightarrow> ClientPinRequest \<Rightarrow> (bytes, Ctap2Status) result" where
  "shared cr self request =
     and_then (ok_or C2_MissingParameter (cpr_key_agreement request)) (\<lambda>platform.
       and_then (ok_or C2_InvalidParameter (cp_agreement self)) (\<lambda>private. shared_secret cr private platform))"

text \<open>The tail that \<open>setPIN\<close> and \<open>changePIN\<close> share: decrypt the new PIN, check its padding
  and its length in code points.\<close>

definition new_pin :: "FidoCrypto \<Rightarrow> bytes \<Rightarrow> bytes \<Rightarrow> (bytes, Ctap2Status) result" where
  "new_pin cr key new_pin_enc =
     and_then (aes_cbc_decrypt cr key new_pin_enc 96) (\<lambda>plain.
       if length plain \<noteq> 64 then Err C2_InvalidParameter
       else and_then (ok_or C2_PinPolicyViolation (position (\<lambda>b. b = 0) plain)) (\<lambda>pin_len.
         if list_ex (\<lambda>b. b \<noteq> 0) (drop pin_len plain) then Err C2_PinPolicyViolation
         else case utf8_count (take pin_len plain) of
                None \<Rightarrow> Err C2_PinPolicyViolation
              | Some n \<Rightarrow> if n < 4 then Err C2_PinPolicyViolation else Ok (take pin_len plain)))"

text \<open>The comparison that \<open>getPINToken\<close> and \<open>changePIN\<close> share.\<close>

definition pin_proven :: "FidoCrypto \<Rightarrow> bytes \<Rightarrow> bytes \<Rightarrow> bytes \<Rightarrow> (bool, Ctap2Status) result" where
  "pin_proven cr key pin_hash_enc stored_hash =
     and_then (aes_cbc_decrypt cr key pin_hash_enc 32) (\<lambda>plain.
       Ok (\<not> (length plain < 16 \<or> \<not> ct_eq (take 16 plain) (take 16 stored_hash))))"

definition set_pin ::
    "FidoCrypto \<Rightarrow> ('s, 'more) PinStateOps_scheme \<Rightarrow> ClientPin \<Rightarrow> ClientPinRequest \<Rightarrow> 's
      \<Rightarrow> (unit, Ctap2Status) result \<times> 's" where
  "set_pin cr ops self request state =
     (if ps_hash ops state \<noteq> None then (Err C2_PinAuthInvalid, state)
      else case and_then (shared cr self request) (\<lambda>key.
               and_then (ok_or C2_MissingParameter (cpr_new_pin_enc request)) (\<lambda>new_pin_enc.
                 and_then (ok_or C2_MissingParameter (cpr_pin_uv_auth_param request)) (\<lambda>auth.
                   if \<not> ct_eq_prefix (c_hmac cr key new_pin_enc) auth then Err C2_PinAuthInvalid
                   else new_pin cr key new_pin_enc))) of
             Err e \<Rightarrow> (Err e, state)
           | Ok pin \<Rightarrow>
               (case ps_set_hash ops state (pin_hash cr pin) of
                  (Err _, state) \<Rightarrow> (Err C2_Other, state)
                | (Ok _, state) \<Rightarrow> (Ok (), state)))"

definition requested_permissions :: "ClientPinRequest \<Rightarrow> (u8, Ctap2Status) result" where
  "requested_permissions request =
     (if cpr_sub_command request = SUB_GET_PIN_TOKEN then
        (if cpr_permissions request \<noteq> None \<or> cpr_rp_id request \<noteq> None then Err C2_InvalidParameter
         else Ok DEFAULT_PERMISSIONS)
      else if cpr_sub_command request = SUB_GET_PIN_UV_AUTH_TOKEN_WITH_PERMISSIONS then
        and_then (ok_or C2_MissingParameter (cpr_permissions request)) (\<lambda>permissions.
          if permissions = 0 then Err C2_InvalidParameter
          else if permissions AND NOT SUPPORTED_PERMISSIONS \<noteq> 0 then Err C2_UnauthorizedPermission
          else Ok permissions)
      else Err C2_InvalidCommand)"

text \<open>What a token request is checked for before its PIN is compared: the permissions it
  asks for, the shared secret and the encrypted hash, authenticated under it.\<close>

definition token_checks ::
    "FidoCrypto \<Rightarrow> ClientPin \<Rightarrow> ClientPinRequest \<Rightarrow> (u8 \<times> bytes \<times> bytes, Ctap2Status) result" where
  "token_checks cr self request =
     and_then (requested_permissions request) (\<lambda>permissions.
       and_then (shared cr self request) (\<lambda>key.
         and_then (ok_or C2_MissingParameter (cpr_pin_hash_enc request)) (\<lambda>pin_hash_enc.
           and_then (ok_or C2_MissingParameter (cpr_pin_uv_auth_param request)) (\<lambda>auth.
             if \<not> ct_eq_prefix (c_hmac cr key pin_hash_enc) auth then Err C2_PinAuthInvalid
             else Ok (permissions, key, pin_hash_enc)))))"

text \<open>A wrong PIN spends one try.\<close>

definition spend_retry ::
    "('s, 'more) PinStateOps_scheme \<Rightarrow> 's \<Rightarrow> (Ctap2Status, Ctap2Status) result \<times> 's" where
  "spend_retry ops state =
     (let retries = saturating_sub (ps_retries ops state) 1
      in case ps_set_retries ops state retries of
           (Err _, state) \<Rightarrow> (Err C2_Other, state)
         | (Ok _, state) \<Rightarrow> (Ok (if retries = 0 then C2_PinBlocked else C2_PinInvalid), state))"

definition get_pin_token ::
    "FidoCrypto \<Rightarrow> ('s, 'more) PinStateOps_scheme \<Rightarrow> 'g fill \<Rightarrow> ClientPin \<Rightarrow> ClientPinRequest \<Rightarrow> 's \<Rightarrow> 'g
      \<Rightarrow> (bytes, Ctap2Status) result \<times> ClientPin \<times> 's \<times> 'g" where
  "get_pin_token cr ops fill self request state rng =
     (case ps_hash ops state of
        None \<Rightarrow> (Err C2_PinNotSet, self, state, rng)
      | Some stored_hash \<Rightarrow>
          if ps_retries ops state = 0 then (Err C2_PinBlocked, self, state, rng)
          else case and_then (token_checks cr self request) (\<lambda>(permissions, key, pin_hash_enc).
                   and_then (pin_proven cr key pin_hash_enc stored_hash) (\<lambda>ok. Ok (permissions, key, ok))) of
              Err e \<Rightarrow> (Err e, self, state, rng)
            | Ok (permissions, key, False) \<Rightarrow>
                (case spend_retry ops state of
                   (Err e, state) \<Rightarrow> (Err e, self, state, rng) | (Ok e, state) \<Rightarrow> (Err e, self, state, rng))
            | Ok (permissions, key, True) \<Rightarrow>
                (case ps_set_retries ops state DEFAULT_RETRIES of
                   (Err _, state) \<Rightarrow> (Err C2_Other, self, state, rng)
                 | (Ok _, state) \<Rightarrow>
                     (case fill 32 rng of
                        (token, rng) \<Rightarrow>
                          (and_then (aes_cbc_encrypt cr key token 48) (\<lambda>enc.
                             ok_or C2_LimitExceeded (fixed_new 48 enc)),
                           self\<lparr>cp_token := Some token, cp_permissions := permissions, cp_rp_id := cpr_rp_id request\<rparr>,
                           state, rng))))"

definition change_checks ::
    "FidoCrypto \<Rightarrow> ClientPin \<Rightarrow> ClientPinRequest \<Rightarrow> (bytes \<times> bytes \<times> bytes, Ctap2Status) result" where
  "change_checks cr self request =
     and_then (shared cr self request) (\<lambda>key.
       and_then (ok_or C2_MissingParameter (cpr_new_pin_enc request)) (\<lambda>new_pin_enc.
         and_then (ok_or C2_MissingParameter (cpr_pin_hash_enc request)) (\<lambda>pin_hash_enc.
           and_then (ok_or C2_MissingParameter (cpr_pin_uv_auth_param request)) (\<lambda>auth.
             if length new_pin_enc + length pin_hash_enc > 128 then Err C2_InvalidParameter
             else if \<not> ct_eq_prefix (c_hmac cr key (new_pin_enc @ pin_hash_enc)) auth then Err C2_PinAuthInvalid
             else Ok (key, new_pin_enc, pin_hash_enc)))))"

definition change_pin ::
    "FidoCrypto \<Rightarrow> ('s, 'more) PinStateOps_scheme \<Rightarrow> ClientPin \<Rightarrow> ClientPinRequest \<Rightarrow> 's
      \<Rightarrow> (unit, Ctap2Status) result \<times> ClientPin \<times> 's" where
  "change_pin cr ops self request state =
     (case ps_hash ops state of
        None \<Rightarrow> (Err C2_PinNotSet, self, state)
      | Some stored_hash \<Rightarrow>
          if ps_retries ops state = 0 then (Err C2_PinBlocked, self, state)
          else case and_then (change_checks cr self request) (\<lambda>(key, new_pin_enc, pin_hash_enc).
                   and_then (pin_proven cr key pin_hash_enc stored_hash) (\<lambda>ok. Ok (key, new_pin_enc, ok))) of
              Err e \<Rightarrow> (Err e, self, state)
            | Ok (key, new_pin_enc, False) \<Rightarrow>
                (case spend_retry ops state of
                   (Err e, state) \<Rightarrow> (Err e, self, state)
                 | (Ok e, state) \<Rightarrow> (Err e, invalidate_token (self\<lparr>cp_agreement := None\<rparr>), state))
            | Ok (key, new_pin_enc, True) \<Rightarrow>
                (case new_pin cr key new_pin_enc of
                   Err e \<Rightarrow> (Err e, self, state)
                 | Ok pin \<Rightarrow>
                     (case ps_set_hash ops state (pin_hash cr pin) of
                        (Err _, state) \<Rightarrow> (Err C2_Other, self, state)
                      | (Ok _, state) \<Rightarrow>
                          (case ps_set_retries ops state DEFAULT_RETRIES of
                             (Err _, state) \<Rightarrow> (Err C2_Other, self, state)
                           | (Ok _, state) \<Rightarrow> (Ok (), invalidate_token self, state)))))"

section \<open>Runs of PIN commands\<close>

text \<open>The PIN commands a platform can send, in any order, and what each does to the handler,
  the store and the random generator. A command is granted when it issues a token or
  changes the PIN.\<close>

datatype PinCommand =
  Cmd_GetRetries | Cmd_KeyAgreement | Cmd_SetPin ClientPinRequest | Cmd_ChangePin ClientPinRequest
  | Cmd_GetToken ClientPinRequest

fun pin_step ::
    "FidoCrypto \<Rightarrow> ('s, 'more) PinStateOps_scheme \<Rightarrow> 'g fill \<Rightarrow> ClientPin \<times> 's \<times> 'g \<Rightarrow> PinCommand
      \<Rightarrow> bool \<times> ClientPin \<times> 's \<times> 'g" where
  "pin_step cr ops fill (self, state, rng) Cmd_GetRetries = (False, self, state, rng)"
| "pin_step cr ops fill (self, state, rng) Cmd_KeyAgreement =
     (case key_agreement cr fill self rng of (_, self, rng) \<Rightarrow> (False, self, state, rng))"
| "pin_step cr ops fill (self, state, rng) (Cmd_SetPin r) =
     (case set_pin cr ops self r state of (_, state) \<Rightarrow> (False, self, state, rng))"
| "pin_step cr ops fill (self, state, rng) (Cmd_ChangePin r) =
     (case change_pin cr ops self r state of (res, self, state) \<Rightarrow> (res = Ok (), self, state, rng))"
| "pin_step cr ops fill (self, state, rng) (Cmd_GetToken r) =
     (case get_pin_token cr ops fill self r state rng of
        (res, self, state, rng) \<Rightarrow> ((case res of Ok _ \<Rightarrow> True | Err _ \<Rightarrow> False), self, state, rng))"

text \<open>The outcome of the comparison with the stored hash, when a command reaches it.\<close>

fun pin_compared ::
    "FidoCrypto \<Rightarrow> ('s, 'more) PinStateOps_scheme \<Rightarrow> ClientPin \<times> 's \<times> 'g \<Rightarrow> PinCommand \<Rightarrow> bool option" where
  "pin_compared cr ops (self, state, rng) (Cmd_ChangePin r) =
     (case ps_hash ops state of
        None \<Rightarrow> None
      | Some h \<Rightarrow>
          if ps_retries ops state = 0 then None
          else case change_checks cr self r of
              Err _ \<Rightarrow> None
            | Ok (k, _, enc) \<Rightarrow> (case pin_proven cr k enc h of Err _ \<Rightarrow> None | Ok b \<Rightarrow> Some b))"
| "pin_compared cr ops (self, state, rng) (Cmd_GetToken r) =
     (case ps_hash ops state of
        None \<Rightarrow> None
      | Some h \<Rightarrow>
          if ps_retries ops state = 0 then None
          else case token_checks cr self r of
              Err _ \<Rightarrow> None
            | Ok (_, k, enc) \<Rightarrow> (case pin_proven cr k enc h of Err _ \<Rightarrow> None | Ok b \<Rightarrow> Some b))"
| "pin_compared cr ops _ _ = None"

definition pin_tested ::
    "FidoCrypto \<Rightarrow> ('s, 'more) PinStateOps_scheme \<Rightarrow> ClientPin \<times> 's \<times> 'g \<Rightarrow> PinCommand \<Rightarrow> bool" where
  "pin_tested cr ops s cmd \<longleftrightarrow> pin_compared cr ops s cmd \<noteq> None"

definition pin_right ::
    "FidoCrypto \<Rightarrow> ('s, 'more) PinStateOps_scheme \<Rightarrow> ClientPin \<times> 's \<times> 'g \<Rightarrow> PinCommand \<Rightarrow> bool" where
  "pin_right cr ops s cmd \<longleftrightarrow> pin_compared cr ops s cmd = Some True"

definition pin_tries :: "('s, 'more) PinStateOps_scheme \<Rightarrow> ClientPin \<times> 's \<times> 'g \<Rightarrow> nat" where
  "pin_tries ops s = unat (ps_retries ops (fst (snd s)))"

text \<open>A PIN is set, with the given hash, and the handler holds no token but the given ones.\<close>

definition pin_kept ::
    "('s, 'more) PinStateOps_scheme \<Rightarrow> bytes \<Rightarrow> bytes option \<Rightarrow> ClientPin \<times> 's \<times> 'g \<Rightarrow> bool" where
  "pin_kept ops h t s \<longleftrightarrow> ps_hash ops (fst (snd s)) = Some h \<and> (cp_token (fst s) = t \<or> cp_token (fst s) = None)"

section \<open>What a token allows\<close>

text \<open>The scope of a token, stated without reference to the order of the checks: the relying
  party the operation concerns is the one the token is bound to, if it is bound.\<close>

fun scope_allows :: "FidoCrypto \<Rightarrow> bytes option \<Rightarrow> TokenOperation \<Rightarrow> bool" where
  "scope_allows cr bound (Op_MakeCredential rp) =
     (case bound of None \<Rightarrow> length rp \<le> MAX_RP_ID_LEN | Some b \<Rightarrow> b = rp)"
| "scope_allows cr bound (Op_GetAssertion rp) =
     (case bound of None \<Rightarrow> length rp \<le> MAX_RP_ID_LEN | Some b \<Rightarrow> b = rp)"
| "scope_allows cr bound (Op_CredentialManagement Scope_Device) = (bound = None)"
| "scope_allows cr bound (Op_CredentialManagement (Scope_RelyingPartyHash h)) =
     (case bound of None \<Rightarrow> True | Some b \<Rightarrow> rp_id_hash cr b = h)"
| "scope_allows cr bound (Op_CredentialManagement (Scope_CredentialRelyingParty rp)) =
     (bound = None \<or> bound = rp)"

definition token_allows :: "FidoCrypto \<Rightarrow> ClientPin \<Rightarrow> TokenRequest \<Rightarrow> bool" where
  "token_allows cr cp request =
     (case (cp_token cp, tr_param request) of
        (Some token, Some param) \<Rightarrow>
          length param \<in> {16, 32} \<and> param = take (length param) (c_hmac cr token (tr_message request)) \<and>
          cp_permissions cp AND operation_permission (tr_operation request) \<noteq> 0 \<and>
          scope_allows cr (cp_rp_id cp) (tr_operation request)
      | _ \<Rightarrow> False)"

fun token_bound :: "ClientPin \<Rightarrow> TokenOperation \<Rightarrow> ClientPin" where
  "token_bound cp (Op_MakeCredential rp) = cp\<lparr>cp_rp_id := Some rp\<rparr>"
| "token_bound cp (Op_GetAssertion rp) = cp\<lparr>cp_rp_id := Some rp\<rparr>"
| "token_bound cp (Op_CredentialManagement _) = cp"

text \<open>The status that a refusal carries. A proof that is missing is asked for; one that does not hold is
  rejected; an unbound token whose proof holds cannot be bound to a relying party id that is too long.\<close>

fun long_rp_id :: "TokenOperation \<Rightarrow> bool" where
  "long_rp_id (Op_MakeCredential rp) \<longleftrightarrow> MAX_RP_ID_LEN < length rp"
| "long_rp_id (Op_GetAssertion rp) \<longleftrightarrow> MAX_RP_ID_LEN < length rp"
| "long_rp_id (Op_CredentialManagement _) \<longleftrightarrow> False"

definition token_proves :: "FidoCrypto \<Rightarrow> ClientPin \<Rightarrow> TokenRequest \<Rightarrow> bool" where
  "token_proves cr cp request =
     (case (cp_token cp, tr_param request) of
        (Some token, Some param) \<Rightarrow>
          length param \<in> {16, 32} \<and> param = take (length param) (c_hmac cr token (tr_message request)) \<and>
          cp_permissions cp AND operation_permission (tr_operation request) \<noteq> 0
      | _ \<Rightarrow> False)"

definition token_refusal :: "FidoCrypto \<Rightarrow> ClientPin \<Rightarrow> TokenRequest \<Rightarrow> Ctap2Status" where
  "token_refusal cr cp request =
     (if tr_param request = None then C2_PinRequired
      else if token_proves cr cp request \<and> cp_rp_id cp = None \<and> long_rp_id (tr_operation request) then C2_InvalidParameter
      else C2_PinAuthInvalid)"

text \<open>A request may go without a token.\<close>

definition token_free :: "('s, 'more) PinStateOps_scheme \<Rightarrow> 's \<Rightarrow> TokenRequest \<Rightarrow> bool" where
  "token_free ops state request \<longleftrightarrow> tr_param request = None \<and> \<not> tr_uv_requested request \<and> ps_hash ops state = None \<and>
     operation_permission (tr_operation request) \<noteq> PERMISSION_CM"

text \<open>No token is issued and no PIN changed any more, whatever the request holds.\<close>

definition pin_blocked :: "FidoCrypto \<Rightarrow> ('s, 'more) PinStateOps_scheme \<Rightarrow> 'g fill \<Rightarrow> ClientPin \<times> 's \<times> 'g \<Rightarrow> bool" where
  "pin_blocked cr ops fill s \<longleftrightarrow> (case s of (cp, st, rng) \<Rightarrow>
     (\<forall>q. get_pin_token cr ops fill cp q st rng = (Err C2_PinBlocked, cp, st, rng) \<and>
          change_pin cr ops cp q st = (Err C2_PinBlocked, cp, st)))"

text \<open>The platform's side of the protocol: it encrypts under the agreed key and sends the
  first half of the HMAC.\<close>

definition platform_encrypt :: "FidoCrypto \<Rightarrow> bytes \<Rightarrow> bytes \<Rightarrow> bytes" where
  "platform_encrypt cr key m = (case c_cbc_encrypt cr key (take 16 key) m of Some c \<Rightarrow> c | None \<Rightarrow> [])"

definition platform_set_pin :: "FidoCrypto \<Rightarrow> bytes \<Rightarrow> Ec2KeyAgreement \<Rightarrow> bytes \<Rightarrow> ClientPinRequest" where
  "platform_set_pin cr key pub pin =
     (let enc = platform_encrypt cr key (pin @ replicate (64 - length pin) 0)
      in \<lparr>cpr_protocol = 1, cpr_sub_command = SUB_SET_PIN, cpr_key_agreement = Some pub,
          cpr_pin_uv_auth_param = Some (take 16 (c_hmac cr key enc)), cpr_new_pin_enc = Some enc,
          cpr_pin_hash_enc = None, cpr_permissions = None, cpr_rp_id = None\<rparr>)"

definition platform_get_token ::
    "FidoCrypto \<Rightarrow> bytes \<Rightarrow> Ec2KeyAgreement \<Rightarrow> bytes \<Rightarrow> u8 \<Rightarrow> bytes option \<Rightarrow> ClientPinRequest" where
  "platform_get_token cr key pub pin permissions rp =
     (let enc = platform_encrypt cr key (take 16 (pin_hash cr pin))
      in \<lparr>cpr_protocol = 1, cpr_sub_command = SUB_GET_PIN_UV_AUTH_TOKEN_WITH_PERMISSIONS, cpr_key_agreement = Some pub,
          cpr_pin_uv_auth_param = Some (take 16 (c_hmac cr key enc)), cpr_new_pin_enc = None,
          cpr_pin_hash_enc = Some enc, cpr_permissions = Some permissions, cpr_rp_id = rp\<rparr>)"

text \<open>Stand-ins for the primitives with which concrete runs are evaluated.\<close>

definition fit :: "nat \<Rightarrow> bytes \<Rightarrow> bytes" where
  "fit n bs = take n (bs @ replicate n 0)"

definition demo_crypto :: FidoCrypto where
  "demo_crypto = \<lparr>c_sha256 = fit 32, c_hmac = (\<lambda>k m. fit 32 (m @ k)), c_cbc_encrypt = (\<lambda>k iv m. Some m),
     c_cbc_decrypt = (\<lambda>k iv m. Some m), c_p256_secret = (\<lambda>bs. bs \<noteq> replicate 32 0),
     c_p256_coords = (\<lambda>k. Some (fit 32 k, fit 32 k)), c_p256_point = (\<lambda>p. length p = 65),
     c_p256_ecdh = (\<lambda>k p. map (\<lambda>(x, y). x XOR y) (zip (fit 32 k) (take 32 (tl p)))),
     c_ecdsa_sign = (\<lambda>k m. fit 70 (k @ m)), c_ed_public = fit 32, c_ed_sign = (\<lambda>k m. fit 64 (k @ m))\<rparr>"

definition demo_fill :: "u8 fill" where
  "demo_fill n g = (replicate n (g + 1), g + 1)"

text \<open>A device whose stored PIN is \<open>1234\<close> and that has one try left. A platform that agreed on a key sends a wrong PIN
  and is refused.\<close>

definition demo_pin_device :: "ClientPin \<times> MemoryStore \<times> u8" where
  "demo_pin_device = (client_pin_new, memory_new\<lparr>ms_pin_hash := Some (pin_hash demo_crypto [0x31, 0x32, 0x33, 0x34]), ms_pin_retries := 1\<rparr>, 0)"

definition demo_platform_key :: Ec2KeyAgreement where
  "demo_platform_key = \<lparr>ka_x = replicate 32 6, ka_y = replicate 32 6\<rparr>"

definition demo_wrong_pin :: ClientPinRequest where
  "demo_wrong_pin = platform_get_token demo_crypto (replicate 32 7) demo_platform_key [0x34, 0x33, 0x32, 0x31] 3 None"

section \<open>The guessing budget\<close>

lemma saturating_sub_one: "w \<noteq> 0 \<Longrightarrow> unat w = Suc (unat (saturating_sub w 1))"
  by (simp add: unat_saturating_sub unat_gt_0)

lemma change_pin_untested:
  "pin_compared cr ops (cp, st, rng) (Cmd_ChangePin q) = None \<Longrightarrow> \<exists>e. change_pin cr ops cp q st = (Err e, cp, st)"
  by (auto simp: change_pin_def split: option.splits if_splits result.splits)

lemma change_pin_wrong:
  assumes "pin_compared cr ops (cp, st, rng) (Cmd_ChangePin q) = Some False"
  shows "ps_retries ops st \<noteq> 0 \<and> change_pin cr ops cp q st =
    (case spend_retry ops st of
       (Err e, st) \<Rightarrow> (Err e, cp, st) | (Ok e, st) \<Rightarrow> (Err e, invalidate_token (cp\<lparr>cp_agreement := None\<rparr>), st))"
  using assms by (auto simp: change_pin_def split: option.splits if_splits result.splits)

lemma get_pin_token_untested:
  "pin_compared cr ops (cp, st, rng) (Cmd_GetToken q) = None \<Longrightarrow>
     \<exists>e. get_pin_token cr ops fill cp q st rng = (Err e, cp, st, rng)"
  by (auto simp: get_pin_token_def split: option.splits if_splits result.splits)

lemma get_pin_token_wrong:
  assumes "pin_compared cr ops (cp, st, rng) (Cmd_GetToken q) = Some False"
  shows "ps_retries ops st \<noteq> 0 \<and> get_pin_token cr ops fill cp q st rng =
    (case spend_retry ops st of (Err e, st) \<Rightarrow> (Err e, cp, st, rng) | (Ok e, st) \<Rightarrow> (Err e, cp, st, rng))"
  using assms by (auto simp: get_pin_token_def split: option.splits if_splits result.splits)

lemma key_agreement_keeps:
  "key_agreement cr fill cp rng = (r, cp', rng') \<Longrightarrow>
     cp_token cp' = cp_token cp \<and> cp_permissions cp' = cp_permissions cp \<and> cp_rp_id cp' = cp_rp_id cp"
  by (auto simp: key_agreement_def split: prod.splits result.splits option.splits)

lemma set_pin_refused: "ps_hash ops st \<noteq> None \<Longrightarrow> set_pin cr ops cp q st = (Err C2_PinAuthInvalid, st)"
  by (simp add: set_pin_def)

lemma pin_compared_blocked: "ps_retries ops st = 0 \<Longrightarrow> pin_compared cr ops (cp, st, rng) cmd = None"
  by (cases cmd) (auto split: option.splits)

context pin_state
begin

lemma spend_retry_step:
  assumes "ps_retries ops st \<noteq> 0" and "spend_retry ops st = (r, st')"
  shows "ps_hash ops st' = ps_hash ops st \<and> unat (ps_retries ops st) = Suc (unat (ps_retries ops st'))"
proof -
  obtain u st'' where u: "ps_set_retries ops st (saturating_sub (ps_retries ops st) 1) = (u, st'')" by (rule prod.exhaust)
  with assms(2) have "st' = st''" by (auto simp: spend_retry_def split: result.splits)
  with set_retries [OF u] saturating_sub_one [OF assms(1)] show ?thesis by simp
qed

lemma untested_step:
  assumes h: "ps_hash ops st = Some h" and n: "pin_compared cr ops (cp, st, rng) cmd = None"
  shows "\<exists>cp' rng'. pin_step cr ops fill (cp, st, rng) cmd = (False, cp', st, rng') \<and> cp_token cp' = cp_token cp"
proof (cases cmd)
  case Cmd_KeyAgreement
  obtain r cp' rng' where k: "key_agreement cr fill cp rng = (r, cp', rng')" by (rule prod_cases3)
  with key_agreement_keeps [OF k] Cmd_KeyAgreement show ?thesis by simp
next
  case (Cmd_SetPin q)
  with h show ?thesis by (simp add: set_pin_refused)
next
  case (Cmd_ChangePin q)
  with n change_pin_untested [of cr ops cp st rng q] show ?thesis by auto
next
  case (Cmd_GetToken q)
  with n get_pin_token_untested [of cr ops cp st rng q fill] show ?thesis by auto
qed simp

lemma wrong_step:
  assumes n: "pin_compared cr ops (cp, st, rng) cmd = Some False"
  shows "\<exists>cp' st' rng'. pin_step cr ops fill (cp, st, rng) cmd = (False, cp', st', rng') \<and>
    (cp_token cp' = cp_token cp \<or> cp_token cp' = None) \<and> ps_hash ops st' = ps_hash ops st \<and>
    unat (ps_retries ops st) = Suc (unat (ps_retries ops st'))"
proof -
  obtain r st' where s: "spend_retry ops st = (r, st')" by (rule prod.exhaust)
  show ?thesis
  proof (cases cmd)
    case (Cmd_ChangePin q)
    note w = change_pin_wrong [OF n [unfolded Cmd_ChangePin]]
    from spend_retry_step [OF conjunct1 [OF w] s] conjunct2 [OF w] s Cmd_ChangePin show ?thesis
      by (cases r) (simp_all add: invalidate_token_def)
  next
    case (Cmd_GetToken q)
    note w = get_pin_token_wrong [OF n [unfolded Cmd_GetToken], of fill]
    from spend_retry_step [OF conjunct1 [OF w] s] conjunct2 [OF w] s Cmd_GetToken show ?thesis
      by (cases r) simp_all
  qed (use n in simp_all)
qed

sublocale client_pin: retry_guard "pin_step cr ops fill" "pin_tries ops" "pin_tested cr ops" "pin_right cr ops"
    "pin_kept ops h t" for cr :: FidoCrypto and fill :: "'g fill" and h t
proof
  fix s :: "ClientPin \<times> 's \<times> 'g" and g
  obtain cp st rng where s: "s = (cp, st, rng)" by (rule prod_cases3)
  assume i: "pin_kept ops h t s"
  then have h: "ps_hash ops st = Some h" by (simp add: pin_kept_def s)
  {
    assume "pin_tries ops s = 0"
    then have z: "ps_retries ops st = 0" by (simp add: pin_tries_def s unat_eq_0)
    show "\<not> fst (pin_step cr ops fill s g) \<and> \<not> pin_tested cr ops s g \<and> pin_kept ops h t (snd (pin_step cr ops fill s g))
        \<and> pin_tries ops (snd (pin_step cr ops fill s g)) = 0"
      using untested_step [OF h pin_compared_blocked [OF z], where fill = fill and cr = cr and cp = cp and rng = rng and cmd = g] i z
      by (auto simp: s pin_kept_def pin_tries_def pin_tested_def pin_compared_blocked)
  }
  assume r: "\<not> pin_right cr ops s g"
  show "\<not> fst (pin_step cr ops fill s g)" "pin_kept ops h t (snd (pin_step cr ops fill s g))"
    "pin_tries ops s = pin_tries ops (snd (pin_step cr ops fill s g)) + (if pin_tested cr ops s g then 1 else 0)"
  proof -
    from r consider "pin_compared cr ops s g = None" | "pin_compared cr ops s g = Some False"
      by (cases "pin_compared cr ops s g") (auto simp: pin_right_def)
    then have "\<not> fst (pin_step cr ops fill s g) \<and> pin_kept ops h t (snd (pin_step cr ops fill s g)) \<and>
      pin_tries ops s = pin_tries ops (snd (pin_step cr ops fill s g)) + (if pin_tested cr ops s g then 1 else 0)"
    proof cases
      case 1
      with untested_step [OF h, where fill = fill and cr = cr and cp = cp and rng = rng and cmd = g] i show ?thesis
        by (auto simp: s pin_kept_def pin_tries_def pin_tested_def)
    next
      case 2
      with wrong_step [where fill = fill and cr = cr and cp = cp and st = st and rng = rng and cmd = g] i show ?thesis
        by (auto simp: s pin_kept_def pin_tries_def pin_tested_def)
    qed
    then show "\<not> fst (pin_step cr ops fill s g)" "pin_kept ops h t (snd (pin_step cr ops fill s g))"
      "pin_tries ops s = pin_tries ops (snd (pin_step cr ops fill s g)) + (if pin_tested cr ops s g then 1 else 0)"
      by simp_all
  qed
qed

lemmas client_pin_run = client_pin.guess_run_wrong
lemmas client_pin_blocked = client_pin.blocked_stays

lemma pin_blocked_after:
  assumes "pin_kept ops h t s" and "never_right (pin_step cr ops fill) (pin_right cr ops) cmds s"
    and "tests_made (pin_step cr ops fill) (pin_tested cr ops) cmds s = pin_tries ops s"
  shows "pin_blocked cr ops fill (guess_run (pin_step cr ops fill) later (guess_run (pin_step cr ops fill) cmds s))"
proof -
  let ?s = "guess_run (pin_step cr ops fill) cmds s"
  have "pin_kept ops h t ?s" "pin_tries ops ?s = 0" using client_pin_run [OF assms(1,2)] assms(3) by auto
  then have "pin_kept ops h t (guess_run (pin_step cr ops fill) later ?s) \<and> pin_tries ops (guess_run (pin_step cr ops fill) later ?s) = 0"
    by (rule client_pin.blocked_keeps)
  then show ?thesis
    by (auto simp: pin_blocked_def pin_kept_def pin_tries_def unat_eq_0 get_pin_token_def change_pin_def split: prod.splits)
qed

end

section \<open>Properties\<close>

lemma ct_eq_iff: "ct_eq a b \<longleftrightarrow> a = b"
  by (auto simp: ct_eq_def xor_fold_eq_0_iff)

lemma bind_rp_id_cases:
  "bind_rp_id cp rp =
     (if (case cp_rp_id cp of None \<Rightarrow> length rp \<le> MAX_RP_ID_LEN | Some b \<Rightarrow> b = rp)
      then (Ok (), cp\<lparr>cp_rp_id := Some rp\<rparr>)
      else (Err (if cp_rp_id cp = None then C2_InvalidParameter else C2_PinAuthInvalid), cp))"
  by (auto simp: bind_rp_id_def fixed_new_def split: option.splits)

lemma check_management_scope_iff:
  "check_management_scope cr cp scope =
     (if scope_allows cr (cp_rp_id cp) (Op_CredentialManagement scope) then Ok () else Err C2_PinAuthInvalid)"
  by (cases scope) (auto simp: check_management_scope_def rp_in_scope_def split: option.splits)

lemma verify_param_iff:
  "verify_pin_uv_auth_param cr cp param m \<longleftrightarrow>
     (\<exists>token. cp_token cp = Some token \<and> length param \<in> {16, 32} \<and> param = take (length param) (c_hmac cr token m))"
  by (auto simp: verify_pin_uv_auth_param_def ct_eq_iff split: option.splits)

lemma authorize_True:
  "authorize cr ops cp st rq = (Ok True, cp') \<longleftrightarrow> token_allows cr cp rq \<and> cp' = token_bound cp (tr_operation rq)"
  by (cases "tr_operation rq";
      auto simp: authorize_def token_allows_def verify_param_iff bind_rp_id_cases check_management_scope_iff
        split: option.splits if_splits)

lemma authorize_False:
  "authorize cr ops cp st rq = (Ok False, cp') \<longleftrightarrow>
     tr_param rq = None \<and> \<not> tr_uv_requested rq \<and> ps_hash ops st = None \<and>
     operation_permission (tr_operation rq) \<noteq> PERMISSION_CM \<and> cp' = cp"
  by (cases "tr_operation rq";
      auto simp: authorize_def bind_rp_id_cases check_management_scope_iff split: option.splits if_splits)

lemma authorize_free: "authorize cr ops cp st rq = (Ok False, cp') \<longleftrightarrow> token_free ops st rq \<and> cp' = cp"
  by (simp add: authorize_False token_free_def)

lemma authorize_Ok: "authorize cr ops cp st rq = (Ok b, cp') \<Longrightarrow> token_allows cr cp rq \<or> token_free ops st rq"
  by (cases b) (simp_all add: authorize_True authorize_free)

lemma authorize_refused:
  "authorize cr ops cp st rq = (Err e, cp') \<longleftrightarrow>
     \<not> token_allows cr cp rq \<and> \<not> token_free ops st rq \<and> e = token_refusal cr cp rq \<and> cp' = cp"
proof (cases "tr_operation rq")
  case (Op_CredentialManagement scope)
  then show ?thesis
    by (auto simp: authorize_def token_free_def token_allows_def token_refusal_def verify_param_iff check_management_scope_iff
        split: option.splits if_splits)
qed (auto simp: authorize_def token_free_def token_allows_def token_refusal_def token_proves_def verify_param_iff bind_rp_id_cases
    split: option.splits if_splits)

lemma authorize_Err:
  "authorize cr ops cp st rq = (Err e, cp') \<Longrightarrow> cp' = cp"
  by (cases "tr_operation rq";
      auto simp: authorize_def bind_rp_id_cases check_management_scope_iff split: option.splits if_splits)

lemma authorize_fst: "fst (authorize cr ops cp st rq) = Ok True \<longleftrightarrow> token_allows cr cp rq"
  using authorize_True [of cr ops cp st rq] by (cases "authorize cr ops cp st rq") auto

lemma generate_secret_valid: "generate_secret_key cr fill rng = (Ok k, rng') \<Longrightarrow> c_p256_secret cr k"
proof -
  have "generate_secret_loop cr fill n rng = (Ok k, rng') \<Longrightarrow> c_p256_secret cr k" for n
    by (induction n arbitrary: rng) (auto split: prod.splits if_splits)
  then show "generate_secret_key cr fill rng = (Ok k, rng') \<Longrightarrow> c_p256_secret cr k"
    by (simp add: generate_secret_key_def)
qed

text \<open>C10: \<open>ClientPin::authorize\<close> answers that the token authorises an operation exactly when a
  token is live, its permissions include the operation's, the parameter is the 16 or 32
  byte prefix of the HMAC of the message under the token, and the token's relying party
  is the operation's; the token is then bound to that relying party. It answers that no
  token is needed exactly for a request with no parameter and no wish for user verification,
  on a device with no PIN, other than credential management. It refuses everything else
  and leaves the token as it was: with \<open>PinRequired\<close> when the request has no parameter, with
  \<open>InvalidParameter\<close> when the proof holds but the unbound token cannot take a relying party id so
  long, and with \<open>PinAuthInvalid\<close> in all other cases.\<close>

theorem authorize_exact:
  "(authorize cr ops cp st rq = (Ok True, cp') \<longleftrightarrow> token_allows cr cp rq \<and> cp' = token_bound cp (tr_operation rq)) \<and>
   (authorize cr ops cp st rq = (Ok False, cp') \<longleftrightarrow> token_free ops st rq \<and> cp' = cp) \<and>
   (authorize cr ops cp st rq = (Err e, cp') \<longleftrightarrow>
     \<not> token_allows cr cp rq \<and> \<not> token_free ops st rq \<and> e = token_refusal cr cp rq \<and> cp' = cp)"
  by (intro conjI authorize_True authorize_free authorize_refused)

text \<open>C1: The PIN cannot be guessed beyond its budget. Over any sequence of PIN commands in
  which no request proves the stored PIN, every comparison with the stored hash costs one
  try, so that at most the tries left are made; no token is issued, the PIN stays the same
  and the handler keeps the token it had or loses it. Once the tries are used up, every request
  for a token and every change of the PIN is refused as blocked, the right PIN
  included, whatever PIN commands come in between. This holds of every store that
  keeps the contract of \<open>PinState\<close>.\<close>

theorem client_pin_guess_budget:
  assumes "pin_state ops" and "ps_hash ops st = Some h"
    and "never_right (pin_step cr ops fill) (pin_right cr ops) cmds (cp, st, rng)"
  shows "unat (ps_retries ops st) =
      pin_tries ops (guess_run (pin_step cr ops fill) cmds (cp, st, rng)) +
      tests_made (pin_step cr ops fill) (pin_tested cr ops) cmds (cp, st, rng) \<and>
    \<not> any_granted (pin_step cr ops fill) cmds (cp, st, rng) \<and>
    pin_kept ops h (cp_token cp) (guess_run (pin_step cr ops fill) cmds (cp, st, rng)) \<and>
    (tests_made (pin_step cr ops fill) (pin_tested cr ops) cmds (cp, st, rng) = unat (ps_retries ops st) \<longrightarrow>
      (\<forall>later. pin_blocked cr ops fill
        (guess_run (pin_step cr ops fill) later (guess_run (pin_step cr ops fill) cmds (cp, st, rng)))))"
proof -
  have "pin_kept ops h (cp_token cp) (cp, st, rng)" using assms(2) by (simp add: pin_kept_def)
  from pin_state.client_pin_run [OF assms(1) this assms(3)] pin_state.pin_blocked_after [OF assms(1) this assms(3)]
  show ?thesis by (simp add: pin_tries_def)
qed

lemma demo_wrong_run:
  "never_right (pin_step demo_crypto memory_ops demo_fill) (pin_right demo_crypto memory_ops)
     [Cmd_KeyAgreement, Cmd_GetToken demo_wrong_pin] demo_pin_device \<and>
   tests_made (pin_step demo_crypto memory_ops demo_fill) (pin_tested demo_crypto memory_ops)
     [Cmd_KeyAgreement, Cmd_GetToken demo_wrong_pin] demo_pin_device = 1"
  by code_simp

theorem client_pin_guess_budget_witness:
  "1 = pin_tries memory_ops (guess_run (pin_step demo_crypto memory_ops demo_fill)
      [Cmd_KeyAgreement, Cmd_GetToken demo_wrong_pin] demo_pin_device) + (1 :: nat) \<and>
   pin_blocked demo_crypto memory_ops demo_fill (guess_run (pin_step demo_crypto memory_ops demo_fill) [Cmd_KeyAgreement]
     (guess_run (pin_step demo_crypto memory_ops demo_fill) [Cmd_KeyAgreement, Cmd_GetToken demo_wrong_pin] demo_pin_device))"
proof -
  obtain cp st rng where d: "demo_pin_device = (cp, st, rng)" by (rule prod_cases3)
  then have st: "ps_hash memory_ops st = Some (pin_hash demo_crypto [0x31, 0x32, 0x33, 0x34])" "ps_retries memory_ops st = 1"
    by (auto simp: demo_pin_device_def memory_ops_def memory_new_def)
  from client_pin_guess_budget [OF memory.pin_state_axioms st(1) conjunct1 [OF demo_wrong_run [unfolded d]]]
    conjunct2 [OF demo_wrong_run] st(2) d
  show ?thesis by (simp del: guess_run.simps)
qed

lemma position_pad:
  "0 \<notin> set pin \<Longrightarrow> length pin < 64 \<Longrightarrow> position (\<lambda>b. b = 0) (pin @ replicate (64 - length pin) 0) = Some (length pin)"
  unfolding position_def find_Some_iff
  by (rule exI [of _ "length pin"]) (auto simp: nth_append in_set_conv_nth)

lemma aes_cbc_roundtrip:
  assumes cbc: "\<And>k iv m. length m mod 16 = 0 \<Longrightarrow>
      \<exists>c. c_cbc_encrypt cr k iv m = Some c \<and> length c = length m \<and> c_cbc_decrypt cr k iv c = Some m"
    and "m \<noteq> []" and "length m mod 16 = 0" and "length m \<le> n"
  shows "aes_cbc_decrypt cr key (platform_encrypt cr key m) n = Ok m" "length (platform_encrypt cr key m) = length m"
    "\<exists>c. aes_cbc_encrypt cr key m n = Ok c \<and> length c = length m \<and> c_cbc_decrypt cr key (take 16 key) c = Some m"
  using cbc [OF assms(3), of key "take 16 key"] assms(2-4)
  by (auto simp: aes_cbc_decrypt_def aes_cbc_encrypt_def platform_encrypt_def)

lemma new_pin_padded:
  assumes cbc: "\<And>k iv m. length m mod 16 = 0 \<Longrightarrow>
      \<exists>c. c_cbc_encrypt cr k iv m = Some c \<and> length c = length m \<and> c_cbc_decrypt cr k iv c = Some m"
    and "0 \<notin> set pin" and "length pin < 64" and "utf8_count pin = Some n" and "4 \<le> n"
  shows "new_pin cr key (platform_encrypt cr key (pin @ replicate (64 - length pin) 0)) = Ok pin"
proof -
  let ?m = "pin @ replicate (64 - length pin) 0"
  from assms(3) have m: "?m \<noteq> []" "length ?m mod 16 = 0" "length ?m \<le> 96" by simp_all
  from aes_cbc_roundtrip(1) [OF cbc m, of key] position_pad [OF assms(2,3)] assms(3-5)
  show ?thesis by (simp add: new_pin_def list_ex_iff)
qed


text \<open>The device and the platform of the witness: the device draws the secret \<open>1\<close> repeated, the
  platform's secret is \<open>6\<close> repeated, and the PIN is \<open>1234\<close>.\<close>

lemma demo_agreement:
  "key_agreement demo_crypto demo_fill client_pin_new 0 =
     (Ok \<lparr>ka_x = replicate 32 1, ka_y = replicate 32 1\<rparr>, client_pin_new\<lparr>cp_agreement := Some (replicate 32 1)\<rparr>, 1)"
  by code_simp

lemma zip_xor_commute: "map (\<lambda>(x, y). x XOR y) (zip a b) = map (\<lambda>(x, y). x XOR y) (zip b (a :: u8 list))"
  by (subst zip_commute) (auto simp: ac_simps)

lemma length_fit [simp]: "length (fit n bs) = n"
  by (simp add: fit_def)


end
