(* ===== verification/Authenticator.thy ===== *)
theory Authenticator
  imports Client_Pin
begin

text \<open>The CTAP2 authenticator of \<open>authenticator.rs\<close> and the pending assertions of
  \<open>assertion.rs\<close>: credential creation, assertions, reset and credential management over any
  store that keeps the contract \<open>fido_store\<close>.

  Shown here: what a successful registration and a successful assertion imply (user
  presence, user verification, relying party, what is signed), that a registered
  credential can be asserted, that signature counters grow, and that a deletion stays
  inside the relying party of the token.\<close>

section \<open>Building blocks\<close>

abbreviation (input) "CREDENTIAL_ID_LEN \<equiv> (16 :: nat)"
abbreviation (input) "MAX_AUTH_DATA \<equiv> (256 :: nat)"
abbreviation (input) "MAX_SIGNATURE \<equiv> (80 :: nat)"
abbreviation (input) "MAX_SIGNING_INPUT \<equiv> (288 :: nat)"
abbreviation (input) "FLAG_UP \<equiv> (0x01 :: u8)"
abbreviation (input) "FLAG_UV \<equiv> (0x04 :: u8)"
abbreviation (input) "FLAG_AT \<equiv> (0x40 :: u8)"

record MakeCredentialResponse =
  mcr_auth_data :: bytes
  mcr_signature :: bytes
  mcr_alg :: int

definition mcr_encode :: "CborOps \<Rightarrow> MakeCredentialResponse \<Rightarrow> bytes" where
  "mcr_encode C r = e_map C 3 @ e_u8 C 1 @ e_str C (ascii ''packed'') @ e_u8 C 2 @ e_bytes C (mcr_auth_data r) @
     e_u8 C 3 @ e_map C 2 @ e_str C (ascii ''alg'') @ e_i64 C (mcr_alg r) @ e_str C (ascii ''sig'') @
     e_bytes C (mcr_signature r)"

record GetAssertionResponse =
  gar_credential_id :: bytes
  gar_auth_data :: bytes
  gar_signature :: bytes
  gar_user_id :: bytes
  gar_number_of_credentials :: "u32 option"

definition gar_encode :: "CborOps \<Rightarrow> GetAssertionResponse \<Rightarrow> bytes" where
  "gar_encode C r = e_map C (if gar_number_of_credentials r \<noteq> None then 5 else 4) @
     e_u8 C 1 @ e_map C 2 @ e_str C (ascii ''id'') @ e_bytes C (gar_credential_id r) @
     e_str C (ascii ''type'') @ e_str C (ascii ''public-key'') @
     e_u8 C 2 @ e_bytes C (gar_auth_data r) @ e_u8 C 3 @ e_bytes C (gar_signature r) @
     e_u8 C 4 @ e_map C 1 @ e_str C (ascii ''id'') @ e_bytes C (gar_user_id r) @
     (case gar_number_of_credentials r of None \<Rightarrow> [] | Some count \<Rightarrow> e_u8 C 5 @ e_u32 C count)"

definition number_of_credentials :: "nat \<Rightarrow> bool \<Rightarrow> u32 option" where
  "number_of_credentials count has_allow_list =
     (if has_allow_list \<or> count \<le> 1 then None else Some (of_nat count))"

text \<open>\<open>generate_signing_key\<close> draws its scalar the way \<open>pin.rs\<close> draws an agreement key.\<close>

fun generate_signing_loop :: "FidoCrypto \<Rightarrow> 'g fill \<Rightarrow> nat \<Rightarrow> 'g \<Rightarrow> (bytes, Ctap2Status) result \<times> 'g" where
  "generate_signing_loop cr fill 0 rng = (Err C2_Other, rng)"
| "generate_signing_loop cr fill (Suc n) rng =
     (case fill 32 rng of
        (bs, rng) \<Rightarrow> if c_p256_secret cr bs then (Ok bs, rng) else generate_signing_loop cr fill n rng)"

definition generate_signing_key :: "FidoCrypto \<Rightarrow> 'g fill \<Rightarrow> 'g \<Rightarrow> (bytes, Ctap2Status) result \<times> 'g" where
  "generate_signing_key cr fill = generate_signing_loop cr fill 16"

definition build_attested_credential_data :: "bytes \<Rightarrow> bytes \<Rightarrow> (bytes, Ctap2Status) result" where
  "build_attested_credential_data credential_id cose_key =
     and_then (extend_vec 200 C2_LimitExceeded [] AAGUID) (\<lambda>out.
       and_then (extend_vec 200 C2_LimitExceeded out (be_bytes 2 (of_nat (length credential_id) :: u16))) (\<lambda>out.
         and_then (extend_vec 200 C2_LimitExceeded out credential_id) (\<lambda>out.
           extend_vec 200 C2_LimitExceeded out cose_key)))"

definition build_auth_data ::
    "FidoCrypto \<Rightarrow> bytes \<Rightarrow> u8 \<Rightarrow> u32 \<Rightarrow> bytes option \<Rightarrow> (bytes, Ctap2Status) result" where
  "build_auth_data cr rp_id flags sign_count attested =
     and_then (extend_vec MAX_AUTH_DATA C2_LimitExceeded [] (c_sha256 cr rp_id)) (\<lambda>data.
       and_then (extend_vec MAX_AUTH_DATA C2_LimitExceeded data [flags]) (\<lambda>data.
         and_then (extend_vec MAX_AUTH_DATA C2_LimitExceeded data (be_bytes 4 sign_count)) (\<lambda>data.
           case attested of
             None \<Rightarrow> Ok data
           | Some attested \<Rightarrow> extend_vec MAX_AUTH_DATA C2_LimitExceeded data attested)))"

definition sign_message :: "FidoCrypto \<Rightarrow> bytes \<Rightarrow> bytes \<Rightarrow> (bytes, Ctap2Status) result" where
  "sign_message cr private_key message =
     (if \<not> c_p256_secret cr private_key then Err C2_Other
      else ok_or C2_LimitExceeded (fixed_new MAX_SIGNATURE (c_ecdsa_sign cr private_key message)))"

definition sign :: "FidoCrypto \<Rightarrow> bytes \<Rightarrow> int \<Rightarrow> bytes \<Rightarrow> bytes \<Rightarrow> (bytes, Ctap2Status) result" where
  "sign cr private_key alg auth_data client_data_hash =
     and_then (extend_vec MAX_SIGNING_INPUT C2_LimitExceeded [] auth_data) (\<lambda>message.
       and_then (extend_vec MAX_SIGNING_INPUT C2_LimitExceeded message client_data_hash) (\<lambda>message.
         if alg = COSE_ALG_EDDSA
         then ok_or C2_LimitExceeded (fixed_new MAX_SIGNATURE (c_ed_sign cr private_key message))
         else sign_message cr private_key message))"

definition cose_es256 :: "CborOps \<Rightarrow> bytes \<Rightarrow> bytes \<Rightarrow> bytes" where
  "cose_es256 C x y = ec2_encode C \<lparr>ec_crv = COSE_CURVE_P256, ec_x = x, ec_y = y\<rparr>"

definition cose_eddsa :: "CborOps \<Rightarrow> bytes \<Rightarrow> bytes" where
  "cose_eddsa C x = okp_encode C \<lparr>okp_crv = COSE_CURVE_ED25519, okp_x = x\<rparr>"

section \<open>Registration\<close>

definition excluded :: "'s StoreOps \<Rightarrow> 's \<Rightarrow> MakeCredentialRequest \<Rightarrow> bool" where
  "excluded ops store request =
     list_ex (\<lambda>descriptor. case cs_get ops store (desc_id descriptor) of
         None \<Rightarrow> False | Some existing \<Rightarrow> cred_rp_id existing = mc_rp_id request) (mc_exclude_list request)"

definition choose_alg :: "int list \<Rightarrow> (int, Ctap2Status) result" where
  "choose_alg algs =
     (if algs = [] then Ok COSE_ALG_ES256
      else ok_or C2_UnsupportedAlgorithm (find (\<lambda>alg. alg = COSE_ALG_ES256 \<or> alg = COSE_ALG_EDDSA) algs))"

text \<open>The new key pair: the private key and the encoded COSE public key.\<close>

definition new_key ::
    "CborOps \<Rightarrow> FidoCrypto \<Rightarrow> 'g fill \<Rightarrow> int \<Rightarrow> 'g \<Rightarrow> (bytes \<times> bytes, Ctap2Status) result \<times> 'g" where
  "new_key C cr fill alg rng =
     (if alg = COSE_ALG_EDDSA then
        (case fill 32 rng of
           (seed, rng) \<Rightarrow>
             (case encode_into (cose_eddsa C (c_ed_public cr seed)) 128 of
                None \<Rightarrow> (Err C2_Other, rng) | Some cose \<Rightarrow> (Ok (seed, cose), rng)))
      else
        (case generate_signing_key cr fill rng of
           (Err e, rng) \<Rightarrow> (Err e, rng)
         | (Ok key, rng) \<Rightarrow>
             (case c_p256_coords cr key of
                None \<Rightarrow> (Err C2_Other, rng)
              | Some (x, y) \<Rightarrow>
                  (case encode_into (cose_es256 C x y) 128 of
                     None \<Rightarrow> (Err C2_Other, rng) | Some cose \<Rightarrow> (Ok (key, cose), rng)))))"

text \<open>The tail of \<open>make_credential\<close>: the authenticator data, the signature and the stored
  credential.\<close>

definition finish_credential ::
    "FidoCrypto \<Rightarrow> 's StoreOps \<Rightarrow> 's \<Rightarrow> MakeCredentialRequest \<Rightarrow> bool \<Rightarrow> int \<Rightarrow> bytes \<Rightarrow> bytes \<Rightarrow> bytes
      \<Rightarrow> (MakeCredentialResponse, Ctap2Status) result \<times> 's" where
  "finish_credential cr ops store request uv_confirmed alg credential_id private_key cose =
     (let flags = FLAG_UP OR FLAG_AT OR (if uv_confirmed then FLAG_UV else 0)
      in case and_then (build_attested_credential_data credential_id cose) (\<lambda>attested.
             and_then (build_auth_data cr (mc_rp_id request) flags 0 (Some attested)) (\<lambda>auth_data.
               and_then (sign cr private_key alg auth_data (mc_client_data_hash request)) (\<lambda>signature.
                 Ok (auth_data, signature)))) of
           Err e \<Rightarrow> (Err e, store)
         | Ok (auth_data, signature) \<Rightarrow>
             (case cs_insert ops store \<lparr>cred_id = credential_id, cred_rp_id = mc_rp_id request,
                 cred_user_id = mc_user_id request, cred_private_key = private_key, cred_algorithm = alg,
                 cred_sign_count = 0, cred_discoverable = mc_rk request\<rparr> of
                (Err _, store) \<Rightarrow> (Err C2_LimitExceeded, store)
              | (Ok _, store) \<Rightarrow>
                  (Ok \<lparr>mcr_auth_data = auth_data, mcr_signature = signature, mcr_alg = alg\<rparr>, store)))"

definition make_credential ::
    "CborOps \<Rightarrow> FidoCrypto \<Rightarrow> 's StoreOps \<Rightarrow> 'g fill \<Rightarrow> 's \<Rightarrow> 'g \<Rightarrow> MakeCredentialRequest \<Rightarrow> bool \<Rightarrow> bool
      \<Rightarrow> (MakeCredentialResponse, Ctap2Status) result \<times> 's \<times> 'g" where
  "make_credential C cr ops fill store rng request up_confirmed uv_confirmed =
     (if \<not> up_confirmed then (Err C2_UpRequired, store, rng)
      else if mc_uv request \<and> \<not> uv_confirmed then (Err C2_PinAuthInvalid, store, rng)
      else if excluded ops store request then (Err C2_CredentialExcluded, store, rng)
      else case choose_alg (mc_algs request) of
          Err e \<Rightarrow> (Err e, store, rng)
        | Ok alg \<Rightarrow>
            (case fill CREDENTIAL_ID_LEN rng of
               (credential_id, rng) \<Rightarrow>
                 (case new_key C cr fill alg rng of
                    (Err e, rng) \<Rightarrow> (Err e, store, rng)
                  | (Ok (private_key, cose), rng) \<Rightarrow>
                      (case finish_credential cr ops store request uv_confirmed alg credential_id private_key cose of
                         (res, store) \<Rightarrow> (res, store, rng)))))"

section \<open>Assertions\<close>

fun candidates_of_rp :: "bytes \<Rightarrow> Credential list \<Rightarrow> bytes list \<Rightarrow> (bytes list, Ctap2Status) result" where
  "candidates_of_rp rp [] acc = Ok acc"
| "candidates_of_rp rp (c # cs) acc =
     (if \<not> cred_discoverable c then candidates_of_rp rp cs acc
      else if cred_rp_id c \<noteq> rp then candidates_of_rp rp cs acc
      else case vec_push MAX_CREDENTIALS acc (cred_id c) of
          None \<Rightarrow> Err C2_LimitExceeded | Some acc \<Rightarrow> candidates_of_rp rp cs acc)"

fun candidates_of_list ::
    "'s StoreOps \<Rightarrow> 's \<Rightarrow> bytes \<Rightarrow> CredentialDescriptor list \<Rightarrow> bytes list \<Rightarrow> (bytes list, Ctap2Status) result" where
  "candidates_of_list ops store rp [] acc = Ok acc"
| "candidates_of_list ops store rp (d # ds) acc =
     (case cs_get ops store (desc_id d) of
        None \<Rightarrow> candidates_of_list ops store rp ds acc
      | Some c \<Rightarrow>
          if cred_rp_id c \<noteq> rp then candidates_of_list ops store rp ds acc
          else if list_ex (\<lambda>i. i = desc_id d) acc then candidates_of_list ops store rp ds acc
          else case vec_push MAX_CREDENTIALS acc (cred_id c) of
              None \<Rightarrow> Err C2_LimitExceeded | Some acc \<Rightarrow> candidates_of_list ops store rp ds acc)"

definition assertion_candidates ::
    "'s StoreOps \<Rightarrow> 's \<Rightarrow> GetAssertionRequest \<Rightarrow> (bytes list, Ctap2Status) result" where
  "assertion_candidates ops store request =
     (if ga_allow_list request = [] then candidates_of_rp (ga_rp_id request) (cs_list ops store) []
      else candidates_of_list ops store (ga_rp_id request) (ga_allow_list request) [])"

definition sign_assertion ::
    "FidoCrypto \<Rightarrow> 's StoreOps \<Rightarrow> 's \<Rightarrow> bytes \<Rightarrow> bytes \<Rightarrow> bytes \<Rightarrow> bool
      \<Rightarrow> (GetAssertionResponse, Ctap2Status) result \<times> 's" where
  "sign_assertion cr ops store credential_id rp_id client_data_hash uv_confirmed =
     (case cs_get ops store credential_id of
        None \<Rightarrow> (Err C2_InvalidCredential, store)
      | Some credential \<Rightarrow>
          (case cs_next_sign_count ops store (cred_id credential) of
             (None, store) \<Rightarrow> (Err C2_InvalidCredential, store)
           | (Some sign_count, store) \<Rightarrow>
               (let flags = FLAG_UP OR (if uv_confirmed then FLAG_UV else 0)
                in (and_then (build_auth_data cr rp_id flags sign_count None) (\<lambda>auth_data.
                      and_then (sign cr (cred_private_key credential) (cred_algorithm credential) auth_data client_data_hash)
                        (\<lambda>signature. Ok \<lparr>gar_credential_id = cred_id credential, gar_auth_data = auth_data,
                           gar_signature = signature, gar_user_id = cred_user_id credential,
                           gar_number_of_credentials = None\<rparr>)), store))))"

definition get_assertion ::
    "FidoCrypto \<Rightarrow> 's StoreOps \<Rightarrow> 's \<Rightarrow> GetAssertionRequest \<Rightarrow> bool \<Rightarrow> bool
      \<Rightarrow> (GetAssertionResponse, Ctap2Status) result \<times> 's" where
  "get_assertion cr ops store request up_confirmed uv_confirmed =
     (if \<not> up_confirmed then (Err C2_UpRequired, store)
      else if ga_uv request \<and> \<not> uv_confirmed then (Err C2_PinAuthInvalid, store)
      else case assertion_candidates ops store request of
          Err e \<Rightarrow> (Err e, store)
        | Ok [] \<Rightarrow> (Err C2_NoCredentials, store)
        | Ok (first # others) \<Rightarrow>
            (case sign_assertion cr ops store first (ga_rp_id request) (ga_client_data_hash request) uv_confirmed of
               (Err e, store) \<Rightarrow> (Err e, store)
             | (Ok response, store) \<Rightarrow>
                 (Ok (response\<lparr>gar_number_of_credentials :=
                    number_of_credentials (length (first # others)) (ga_allow_list request \<noteq> [])\<rparr>), store)))"

section \<open>Reset\<close>

definition reset ::
    "'s StoreOps \<Rightarrow> 's \<Rightarrow> ClientPin \<Rightarrow> bool \<Rightarrow> (unit, Ctap2Status) result \<times> 's \<times> ClientPin" where
  "reset ops store client_pin up_confirmed =
     (if \<not> up_confirmed then (Err C2_UpRequired, store, client_pin)
      else case ps_clear ops (cs_clear ops store) of
          (Err _, store) \<Rightarrow> (Err C2_Other, store, client_pin)
        | (Ok _, store) \<Rightarrow> (Ok (), store, invalidate_token client_pin))"

section \<open>Credential management\<close>

record CredentialManagementRequest =
  cm_sub_command :: u8
  cm_credential_id :: "bytes option"
  cm_rp_id_hash :: "bytes option"
  cm_pin_uv_auth_protocol :: "u8 option"
  cm_pin_uv_auth_param :: "bytes option"
  cm_sub_command_params :: bytes

definition descriptor_id_entry :: "CborOps \<Rightarrow> bytes option \<Rightarrow> bytes option parser" where
  "descriptor_id_entry C i d =
     and_then (invalid (d_datatype C d)) (\<lambda>t.
       if t = T_String then
         and_then (invalid (d_str C d)) (\<lambda>(key, d).
           if key = ascii ''id'' then and_then (bounded_bytes C 32 d) (\<lambda>(bs, d). Ok (Some bs, d))
           else parser_skip C i d)
       else
         and_then (invalid (d_u8 C d)) (\<lambda>(key, d).
           if key = 0x02 then and_then (bounded_bytes C 32 d) (\<lambda>(bs, d). Ok (Some bs, d))
           else parser_skip C i d))"

definition decode_credential_descriptor :: "CborOps \<Rightarrow> bytes parser" where
  "decode_credential_descriptor C d =
     and_then (read_map_len C d) (\<lambda>(entries, d).
       and_then (loop_n entries (descriptor_id_entry C) None d) (\<lambda>(i, d).
         and_then (ok_or C2_MissingParameter i) (\<lambda>i. Ok (i, d))))"

text \<open>The parameters found so far: the hash of the relying party and the credential id.\<close>

definition sub_param_entry ::
    "CborOps \<Rightarrow> bytes option \<times> bytes option \<Rightarrow> (bytes option \<times> bytes option) parser" where
  "sub_param_entry C acc d =
     and_then (invalid (d_u8 C d)) (\<lambda>(key, d).
       if key = 0x01 then
         and_then (invalid (d_bytes C d)) (\<lambda>(bs, d).
           if length bs \<noteq> 32 then Err C2_InvalidParameter else Ok ((Some bs, snd acc), d))
       else if key = 0x02 then
         and_then (decode_credential_descriptor C d) (\<lambda>(i, d). Ok ((fst acc, Some i), d))
       else parser_skip C acc d)"

definition parse_sub_command_params ::
    "CborOps \<Rightarrow> CredentialManagementRequest \<Rightarrow> CredentialManagementRequest parser" where
  "parse_sub_command_params C r start =
     and_then (read_map_len C start) (\<lambda>(entries, d).
       and_then (loop_n entries (sub_param_entry C) (None, None) d) (\<lambda>((h, i), d).
         and_then (ok_or C2_LimitExceeded (fixed_new 96 (take (length start - length d) start))) (\<lambda>raw.
           Ok (r\<lparr>cm_rp_id_hash := h, cm_credential_id := i, cm_sub_command_params := raw\<rparr>, d))))"

definition cm_entry :: "CborOps \<Rightarrow> CredentialManagementRequest \<Rightarrow> CredentialManagementRequest parser" where
  "cm_entry C r d =
     and_then (invalid (d_u8 C d)) (\<lambda>(key, d).
       if key = 0x01 then and_then (invalid (d_u8 C d)) (\<lambda>(v, d). Ok (r\<lparr>cm_sub_command := v\<rparr>, d))
       else if key = 0x02 then
         and_then (invalid (d_datatype C d)) (\<lambda>t.
           if t = T_Bytes then and_then (bounded_bytes C 32 d) (\<lambda>(bs, d). Ok (r\<lparr>cm_credential_id := Some bs\<rparr>, d))
           else parse_sub_command_params C r d)
       else if key = 0x03 then and_then (invalid (d_u8 C d)) (\<lambda>(v, d). Ok (r\<lparr>cm_pin_uv_auth_protocol := Some v\<rparr>, d))
       else if key = 0x04 then and_then (bounded_bytes C 64 d) (\<lambda>(v, d). Ok (r\<lparr>cm_pin_uv_auth_param := Some v\<rparr>, d))
       else parser_skip C r d)"

definition cm_parse :: "CborOps \<Rightarrow> bytes \<Rightarrow> (CredentialManagementRequest, Ctap2Status) result" where
  "cm_parse C params =
     and_then (read_map_len C params) (\<lambda>(len, d).
       and_then (loop_n len (cm_entry C) \<lparr>cm_sub_command = 0, cm_credential_id = None, cm_rp_id_hash = None,
           cm_pin_uv_auth_protocol = None, cm_pin_uv_auth_param = None, cm_sub_command_params = []\<rparr> d)
         (\<lambda>(r, _). Ok r))"

record CredsMetadataResponse =
  cmr_existing :: u32
  cmr_remaining :: u32

definition cmr_encode :: "CborOps \<Rightarrow> CredsMetadataResponse \<Rightarrow> bytes" where
  "cmr_encode C r = e_map C 2 @ e_u8 C 1 @ e_u32 C (cmr_existing r) @ e_u8 C 2 @ e_u32 C (cmr_remaining r)"

record RpEntry =
  rpe_rp_id :: bytes
  rpe_rp_id_hash :: bytes

record EnumerateRpsResponse =
  err_rp :: RpEntry
  err_total_rps :: u32

definition err_encode :: "CborOps \<Rightarrow> EnumerateRpsResponse \<Rightarrow> bytes" where
  "err_encode C r = e_map C 3 @ e_u8 C 3 @ e_map C 1 @ e_str C (ascii ''id'') @ e_str C (rpe_rp_id (err_rp r)) @
     e_u8 C 4 @ e_bytes C (rpe_rp_id_hash (err_rp r)) @ e_u8 C 5 @ e_u32 C (err_total_rps r)"

record EnumerateCredentialsResponse =
  ecr_user_id :: bytes
  ecr_credential_id :: bytes
  ecr_public_key :: bytes
  ecr_total_credentials :: u32

definition ecr_encode :: "CborOps \<Rightarrow> EnumerateCredentialsResponse \<Rightarrow> bytes" where
  "ecr_encode C r = e_map C 4 @ e_u8 C 6 @ e_map C 1 @ e_str C (ascii ''id'') @ e_bytes C (ecr_user_id r) @
     e_u8 C 7 @ e_map C 2 @ e_str C (ascii ''type'') @ e_str C (ascii ''public-key'') @ e_str C (ascii ''id'') @
     e_bytes C (ecr_credential_id r) @ e_u8 C 8 @ e_bytes C (ecr_public_key r) @ e_u8 C 9 @
     e_u32 C (ecr_total_credentials r)"

definition creds_metadata :: "'s StoreOps \<Rightarrow> 's \<Rightarrow> CredsMetadataResponse" where
  "creds_metadata ops store =
     (let existing = of_nat (cs_count ops store) :: u32
      in \<lparr>cmr_existing = existing, cmr_remaining = (if 8 \<le> existing then 0 else 8 - existing)\<rparr>)"

definition list_rps :: "FidoCrypto \<Rightarrow> 's StoreOps \<Rightarrow> 's \<Rightarrow> RpEntry list" where
  "list_rps cr ops store =
     fold (\<lambda>c rps.
       if \<not> cred_discoverable c then rps
       else if list_ex (\<lambda>e. rpe_rp_id e = cred_rp_id c) rps then rps
       else case vec_push MAX_CREDENTIALS rps \<lparr>rpe_rp_id = cred_rp_id c, rpe_rp_id_hash = rp_id_hash cr (cred_rp_id c)\<rparr> of
           None \<Rightarrow> rps | Some rps \<Rightarrow> rps) (cs_list ops store) []"

definition list_credentials :: "FidoCrypto \<Rightarrow> 's StoreOps \<Rightarrow> 's \<Rightarrow> bytes \<Rightarrow> bytes list" where
  "list_credentials cr ops store h =
     fold (\<lambda>c is.
       if \<not> cred_discoverable c then is
       else if rp_id_hash cr (cred_rp_id c) \<noteq> h then is
       else case vec_push MAX_CREDENTIALS is (cred_id c) of None \<Rightarrow> is | Some is \<Rightarrow> is) (cs_list ops store) []"

definition cose_public_key :: "CborOps \<Rightarrow> FidoCrypto \<Rightarrow> Credential \<Rightarrow> bytes option" where
  "cose_public_key C cr credential =
     (case (if cred_algorithm credential = COSE_ALG_EDDSA
            then encode_into (cose_eddsa C (c_ed_public cr (cred_private_key credential))) 128
            else if \<not> c_p256_secret cr (cred_private_key credential) then None
            else case c_p256_coords cr (cred_private_key credential) of
                None \<Rightarrow> None | Some (x, y) \<Rightarrow> encode_into (cose_es256 C x y) 128) of
        None \<Rightarrow> None | Some key \<Rightarrow> fixed_new 128 key)"

definition delete_credential :: "'s StoreOps \<Rightarrow> 's \<Rightarrow> bytes \<Rightarrow> (unit, Ctap2Status) result \<times> 's" where
  "delete_credential ops store credential_id =
     (if cs_get ops store credential_id = None then (Err C2_NoCredentials, store)
      else case cs_remove ops store credential_id of
          (Err _, store) \<Rightarrow> (Err C2_Other, store) | (Ok _, store) \<Rightarrow> (Ok (), store))"

definition delete_credential_scoped ::
    "FidoCrypto \<Rightarrow> 's StoreOps \<Rightarrow> 's \<Rightarrow> ClientPin \<Rightarrow> bytes option \<Rightarrow> bytes \<Rightarrow> bytes
      \<Rightarrow> (unit, Ctap2Status) result \<times> 's \<times> ClientPin" where
  "delete_credential_scoped cr ops store client_pin param message credential_id =
     (let credential = cs_get ops store credential_id
      in case authorize cr ops client_pin store \<lparr>tr_param = param, tr_message = message, tr_uv_requested = False,
             tr_operation = Op_CredentialManagement (Scope_CredentialRelyingParty (map_option cred_rp_id credential))\<rparr> of
           (Err e, client_pin) \<Rightarrow> (Err e, store, client_pin)
         | (Ok _, client_pin) \<Rightarrow>
             (case credential of
                None \<Rightarrow> (Err C2_NoCredentials, store, client_pin)
              | Some credential \<Rightarrow>
                  (case cs_remove ops store (cred_id credential) of
                     (Err _, store) \<Rightarrow> (Err C2_Other, store, client_pin)
                   | (Ok _, store) \<Rightarrow> (Ok (), store, client_pin))))"

section \<open>Pending assertions\<close>

record PendingAssertion =
  pa_channel :: u32
  pa_credentials :: "bytes list"
  pa_index :: nat
  pa_rp_id :: bytes
  pa_client_data_hash :: bytes
  pa_uv :: bool

record NextAssertion =
  na_credential_id :: bytes
  na_rp_id :: bytes
  na_client_data_hash :: bytes
  na_uv :: bool

definition pending_begin :: "u32 \<Rightarrow> bytes list \<Rightarrow> bytes \<Rightarrow> bytes \<Rightarrow> bool \<Rightarrow> PendingAssertion" where
  "pending_begin channel credentials rp_id client_data_hash uv =
     \<lparr>pa_channel = channel, pa_credentials = credentials, pa_index = 1, pa_rp_id = rp_id,
      pa_client_data_hash = client_data_hash, pa_uv = uv\<rparr>"

definition pending_next :: "PendingAssertion \<Rightarrow> u32 \<Rightarrow> NextAssertion option \<times> PendingAssertion" where
  "pending_next self channel =
     (if channel \<noteq> pa_channel self then (None, self)
      else if pa_index self < length (pa_credentials self) then
        (Some \<lparr>na_credential_id = pa_credentials self ! pa_index self, na_rp_id = pa_rp_id self,
           na_client_data_hash = pa_client_data_hash self, na_uv = pa_uv self\<rparr>,
         self\<lparr>pa_index := pa_index self + 1\<rparr>)
      else (None, self))"

section \<open>What is signed\<close>

text \<open>Authenticator data and signatures as the protocol describes them.\<close>

definition auth_data_of :: "FidoCrypto \<Rightarrow> bytes \<Rightarrow> u8 \<Rightarrow> u32 \<Rightarrow> bytes \<Rightarrow> bytes" where
  "auth_data_of cr rp flags count attested = c_sha256 cr rp @ [flags] @ be_bytes 4 count @ attested"

definition attested_of :: "bytes \<Rightarrow> bytes \<Rightarrow> bytes" where
  "attested_of i cose = AAGUID @ be_bytes 2 (of_nat (length i) :: u16) @ i @ cose"

definition signature_of :: "FidoCrypto \<Rightarrow> bytes \<Rightarrow> int \<Rightarrow> bytes \<Rightarrow> bytes" where
  "signature_of cr key alg m = (if alg = COSE_ALG_EDDSA then c_ed_sign cr key m else c_ecdsa_sign cr key m)"

definition up_flags :: "bool \<Rightarrow> u8" where
  "up_flags uv = FLAG_UP OR (if uv then FLAG_UV else 0)"

text \<open>The counter inside the authenticator data, and the counters a sequence of assertions emits.\<close>

definition counter_of :: "bytes \<Rightarrow> u32" where
  "counter_of auth_data = of_be_bytes (take 4 (drop 33 auth_data))"

fun assertion_run ::
    "FidoCrypto \<Rightarrow> 's StoreOps \<Rightarrow> 's \<Rightarrow> (bytes \<times> bytes \<times> bytes \<times> bool) list \<Rightarrow> (bytes \<times> u32) list" where
  "assertion_run cr ops s [] = []"
| "assertion_run cr ops s ((i, rp, h, uv) # qs) =
     (case sign_assertion cr ops s i rp h uv of
        (Ok r, s) \<Rightarrow> (i, counter_of (gar_auth_data r)) # assertion_run cr ops s qs
      | (Err _, s) \<Rightarrow> assertion_run cr ops s qs)"

lemma build_auth_data_Ok:
  "build_auth_data cr rp flags n att = Ok d \<longleftrightarrow>
     d = auth_data_of cr rp flags n (case att of None \<Rightarrow> [] | Some a \<Rightarrow> a) \<and> length d \<le> MAX_AUTH_DATA"
  by (auto simp: build_auth_data_def extend_vec_def auth_data_of_def and_then_def split: option.splits)

lemma build_attested_Ok:
  "build_attested_credential_data i cose = Ok d \<longleftrightarrow> d = attested_of i cose \<and> length d \<le> 200"
  by (auto simp: build_attested_credential_data_def extend_vec_def attested_of_def and_then_def)

lemma sign_Ok:
  "sign cr key alg ad h = Ok sg \<longleftrightarrow>
     sg = signature_of cr key alg (ad @ h) \<and> length ad + length h \<le> MAX_SIGNING_INPUT \<and> length sg \<le> MAX_SIGNATURE \<and>
     (alg = COSE_ALG_EDDSA \<or> c_p256_secret cr key)"
  by (auto simp: sign_def sign_message_def extend_vec_def fixed_new_def signature_of_def and_then_def)

lemma counter_of_auth_data:
  assumes "\<And>m. length (c_sha256 cr m) = 32"
  shows "counter_of (auth_data_of cr rp flags n att) = n"
  using assms by (simp add: counter_of_def auth_data_of_def)

lemma less_saturating_add: "w < saturating_add w (1 :: u32) \<or> w = - 1 \<and> saturating_add w 1 = - 1"
proof (cases "unat w < 4294967295")
  case True
  then show ?thesis by (simp add: saturating_add_def word_less_nat_alt unat_word_ariths)
next
  case False
  with unat_u32_less [of w] have "unat w = 4294967295" by linarith
  then have "w = - 1" by (simp add: word_unat_eq_iff unsigned_minus_1_eq_mask mask_eq_exp_minus_1)
  with False show ?thesis by (simp add: saturating_add_def)
qed

lemma le_saturating_add: "w \<le> saturating_add w (1 :: u32)"
  using less_saturating_add [of w] by auto

context fido_store
begin

lemma next_sign_count_Some:
  assumes "cs_next_sign_count ops s i = (Some n, s')"
  shows "\<exists>c. cs_get ops s i = Some c \<and> n = saturating_add (cred_sign_count c) 1 \<and>
    (\<forall>j. cs_get ops s' j = (if j = i then Some (c\<lparr>cred_sign_count := n\<rparr>) else cs_get ops s j))"
  using count_up_list [OF assms]
  by (auto simp: get_list split: option.splits prod.splits dest!: cache_count_up_Some)

lemma next_sign_count_None:
  assumes "cs_next_sign_count ops s i = (None, s')"
  shows "\<exists>n. \<forall>j. cs_get ops s' j = (if j = i then map_option (cred_sign_count_update (\<lambda>_. n)) (cs_get ops s i) else cs_get ops s j) \<and>
    (\<forall>c. cs_get ops s i = Some c \<longrightarrow> n = saturating_add (cred_sign_count c) 1)"
proof (cases "cache_count_up i (cs_list ops s)")
  case None
  with count_up_list [OF assms] have "s' = s" "cs_get ops s i = None" by (simp_all add: get_list cache_count_up_None)
  then show ?thesis by auto
next
  case (Some p)
  with count_up_list [OF assms] show ?thesis
    by (cases p) (auto simp: get_list dest!: cache_count_up_Some)
qed

lemma sign_assertion_Ok:
  assumes "sign_assertion cr ops s i rp h uv = (Ok r, s')"
  shows "\<exists>c n. cs_get ops s i = Some c \<and> n = saturating_add (cred_sign_count c) 1 \<and>
    (\<forall>j. cs_get ops s' j = (if j = i then Some (c\<lparr>cred_sign_count := n\<rparr>) else cs_get ops s j)) \<and>
    r = \<lparr>gar_credential_id = i, gar_auth_data = auth_data_of cr rp (up_flags uv) n [],
         gar_signature = signature_of cr (cred_private_key c) (cred_algorithm c) (auth_data_of cr rp (up_flags uv) n [] @ h),
         gar_user_id = cred_user_id c, gar_number_of_credentials = None\<rparr>"
proof -
  from assms obtain c where c: "cs_get ops s i = Some c" by (cases "cs_get ops s i") (auto simp: sign_assertion_def)
  then have i: "cred_id c = i" by (simp add: get_list cache_get_SomeD)
  obtain k s'' where k: "cs_next_sign_count ops s i = (k, s'')" by (rule prod.exhaust)
  from assms c i k obtain n where n: "k = Some n" by (cases k) (auto simp: sign_assertion_def)
  with assms c i k have s': "s'' = s'"
    and r: "r = \<lparr>gar_credential_id = i, gar_auth_data = auth_data_of cr rp (up_flags uv) n [],
         gar_signature = signature_of cr (cred_private_key c) (cred_algorithm c) (auth_data_of cr rp (up_flags uv) n [] @ h),
         gar_user_id = cred_user_id c, gar_number_of_credentials = None\<rparr>"
    by (auto simp: sign_assertion_def Let_def and_then_Ok_iff build_auth_data_Ok sign_Ok up_flags_def)
  from next_sign_count_Some [OF k [unfolded n]] c r show ?thesis by (auto simp: s')
qed

lemma sign_assertion_counts:
  assumes "sign_assertion cr ops s i rp h uv = (res, s')" and "cs_get ops s j = Some c"
  shows "\<exists>c'. cs_get ops s' j = Some c' \<and> cred_sign_count c \<le> cred_sign_count c'"
proof (cases "cs_get ops s i")
  case None
  with assms show ?thesis by (auto simp: sign_assertion_def)
next
  case (Some d)
  then have i: "cred_id d = i" by (simp add: get_list cache_get_SomeD)
  obtain k s'' where k: "cs_next_sign_count ops s i = (k, s'')" by (rule prod.exhaust)
  with assms(1) Some i have s': "s' = s''" by (auto simp: sign_assertion_def Let_def split: option.splits)
  show ?thesis
  proof (cases k)
    case None
    from next_sign_count_None [OF k [unfolded None]] assms(2) Some show ?thesis
      by (auto simp: s' le_saturating_add)
  next
    case (Some n)
    from next_sign_count_Some [OF k [unfolded Some]] assms(2) show ?thesis
      by (auto simp: s' le_saturating_add)
  qed
qed

lemma assertion_run_above:
  assumes sha: "\<And>m. length (c_sha256 cr m) = 32"
    and "cs_get ops s i = Some c" and "(i, n) \<in> set (assertion_run cr ops s qs)"
  shows "cred_sign_count c < n \<or> cred_sign_count c = - 1 \<and> n = - 1"
  using assms(2,3)
proof (induction qs arbitrary: s c)
  case (Cons q qs)
  obtain j rp h uv where q: "q = (j, rp, h, uv)" by (cases q) auto
  obtain res s' where step: "sign_assertion cr ops s j rp h uv = (res, s')" by (rule prod.exhaust)
  from sign_assertion_counts [OF step Cons.prems(1)] obtain c' where
    c': "cs_get ops s' i = Some c'" "cred_sign_count c \<le> cred_sign_count c'" by auto
  show ?case
  proof (cases "(i, n) \<in> set (assertion_run cr ops s' qs)")
    case True
    from Cons.IH [OF c'(1) True] c'(2) show ?thesis
      by (cases "cred_sign_count c = - 1") (auto simp: word_order.not_eq_extremum dest: order.strict_trans1)
  next
    case False
    with Cons.prems(2) q step obtain r where r: "res = Ok r" "i = j" "n = counter_of (gar_auth_data r)"
      by (auto split: result.splits)
    from sign_assertion_Ok [OF step [unfolded r(1)]] r Cons.prems(1) show ?thesis
      by (auto simp: counter_of_auth_data [OF sha] less_saturating_add)
  qed
qed simp

lemma assertion_run_increasing:
  assumes sha: "\<And>m. length (c_sha256 cr m) = 32"
  shows "sorted_wrt (\<lambda>a b. fst a = fst b \<longrightarrow> snd a < snd b \<or> snd a = - 1) (assertion_run cr ops s qs)"
proof (induction qs arbitrary: s)
  case (Cons q qs)
  obtain j rp h uv where q: "q = (j, rp, h, uv)" by (cases q) auto
  obtain res s' where step: "sign_assertion cr ops s j rp h uv = (res, s')" by (rule prod.exhaust)
  show ?case
  proof (cases res)
    case (Ok r)
    from sign_assertion_Ok [OF step [unfolded Ok]] obtain c where
      c: "cs_get ops s' j = Some c" "cred_sign_count c = counter_of (gar_auth_data r)"
      by (auto simp: counter_of_auth_data [OF sha])
    from assertion_run_above [OF sha c(1)] c(2) Cons.IH show ?thesis by (auto simp: q step Ok)
  next
    case (Err e)
    with Cons.IH show ?thesis by (simp add: q step)
  qed
qed simp

end

section \<open>Properties\<close>

lemma candidates_of_rp_Ok:
  "candidates_of_rp rp cs acc = Ok xs \<Longrightarrow>
     xs = acc @ map cred_id (filter (\<lambda>c. cred_discoverable c \<and> cred_rp_id c = rp) cs)"
  by (induction rp cs acc rule: candidates_of_rp.induct) (auto simp: vec_push_Some_iff split: if_splits option.splits)

lemma generate_signing_valid: "generate_signing_key cr fill rng = (Ok k, rng') \<Longrightarrow> c_p256_secret cr k"
proof -
  have "generate_signing_loop cr fill n rng = (Ok k, rng') \<Longrightarrow> c_p256_secret cr k" for n
    by (induction n arbitrary: rng) (auto split: prod.splits if_splits)
  then show "generate_signing_key cr fill rng = (Ok k, rng') \<Longrightarrow> c_p256_secret cr k"
    by (simp add: generate_signing_key_def)
qed

lemma new_key_Ok:
  assumes "new_key C cr fill alg rng = (Ok (key, cose), rng')"
  shows "length cose \<le> 128 \<and> (if alg = COSE_ALG_EDDSA then cose = cose_eddsa C (c_ed_public cr key)
    else c_p256_secret cr key \<and> (\<exists>x y. c_p256_coords cr key = Some (x, y) \<and> cose = cose_es256 C x y))"
  using assms
  by (auto simp: new_key_def encode_into_def generate_signing_valid split: if_splits prod.splits result.splits option.splits)

context fido_store
begin

lemma candidates_of_list_Ok:
  "candidates_of_list ops s rp ds acc = Ok xs \<Longrightarrow>
     \<forall>i \<in> set xs. i \<in> set acc \<or> (i \<in> desc_id ` set ds \<and> (\<exists>c. cs_get ops s i = Some c \<and> cred_rp_id c = rp))"
proof (induction ds arbitrary: acc)
  case (Cons d ds)
  consider (skip) "candidates_of_list ops s rp ds acc = Ok xs"
    | (push) c where "cs_get ops s (desc_id d) = Some c" "cred_rp_id c = rp"
        "candidates_of_list ops s rp ds (acc @ [cred_id c]) = Ok xs"
    using Cons.prems by (auto simp: vec_push_Some_iff split: option.splits if_splits)
  then show ?case
  proof cases
    case skip
    with Cons.IH show ?thesis by auto
  next
    case push
    then have "cred_id c = desc_id d" by (simp add: get_list cache_get_SomeD)
    with push Cons.IH [OF push(3)] show ?thesis by auto
  qed
qed simp

text \<open>A candidate is a credential of the relying party, discoverable or named by the request.\<close>

lemma candidate:
  assumes "assertion_candidates ops s q = Ok xs" and "i \<in> set xs" and "distinct (ids (cs_list ops s))"
  shows "\<exists>c. cs_get ops s i = Some c \<and> cred_rp_id c = ga_rp_id q \<and>
    (if ga_allow_list q = [] then cred_discoverable c else i \<in> desc_id ` set (ga_allow_list q))"
proof (cases "ga_allow_list q = []")
  case True
  with assms obtain c where c: "c \<in> set (cs_list ops s)" "i = cred_id c" "cred_discoverable c" "cred_rp_id c = ga_rp_id q"
    by (auto simp: assertion_candidates_def dest!: candidates_of_rp_Ok)
  with cache_get_in [OF assms(3) c(1)] True show ?thesis by (auto simp: get_list)
next
  case False
  with assms(1) have c: "candidates_of_list ops s (ga_rp_id q) (ga_allow_list q) [] = Ok xs"
    by (simp add: assertion_candidates_def)
  from candidates_of_list_Ok [OF c] assms(2) False show ?thesis by auto
qed

lemma get_assertion_Ok:
  assumes "get_assertion cr ops s q up uv = (Ok r, s')"
  shows "up \<and> (ga_uv q \<longrightarrow> uv) \<and> (\<exists>i others r'. assertion_candidates ops s q = Ok (i # others) \<and>
    sign_assertion cr ops s i (ga_rp_id q) (ga_client_data_hash q) uv = (Ok r', s') \<and>
    r = r'\<lparr>gar_number_of_credentials := number_of_credentials (length (i # others)) (ga_allow_list q \<noteq> [])\<rparr>)"
  using assms by (auto simp: get_assertion_def split: if_splits result.splits list.splits prod.splits)

lemma finish_credential_Ok:
  assumes "finish_credential cr ops s q uv alg i key cose = (Ok r, s')"
  shows "\<exists>c. c = \<lparr>cred_id = i, cred_rp_id = mc_rp_id q, cred_user_id = mc_user_id q, cred_private_key = key,
      cred_algorithm = alg, cred_sign_count = 0, cred_discoverable = mc_rk q\<rparr> \<and>
    (\<forall>j. cs_get ops s' j = (if j = i then Some c else cs_get ops s j)) \<and>
    r = \<lparr>mcr_auth_data = auth_data_of cr (mc_rp_id q) (up_flags uv OR FLAG_AT) 0 (attested_of i cose),
         mcr_signature = signature_of cr key alg (auth_data_of cr (mc_rp_id q) (up_flags uv OR FLAG_AT) 0 (attested_of i cose)
           @ mc_client_data_hash q), mcr_alg = alg\<rparr>"
proof -
  define c where "c = \<lparr>cred_id = i, cred_rp_id = mc_rp_id q, cred_user_id = mc_user_id q, cred_private_key = key,
      cred_algorithm = alg, cred_sign_count = 0, cred_discoverable = mc_rk q\<rparr>"
  obtain u s'' where u: "cs_insert ops s c = (u, s'')" by (rule prod.exhaust)
  have f: "FLAG_UP OR FLAG_AT OR (if uv then FLAG_UV else 0) = up_flags uv OR FLAG_AT" by (simp add: up_flags_def ac_simps)
  from assms u have s': "s'' = s'" "u = Ok ()"
    and r: "r = \<lparr>mcr_auth_data = auth_data_of cr (mc_rp_id q) (up_flags uv OR FLAG_AT) 0 (attested_of i cose),
         mcr_signature = signature_of cr key alg (auth_data_of cr (mc_rp_id q) (up_flags uv OR FLAG_AT) 0 (attested_of i cose)
           @ mc_client_data_hash q), mcr_alg = alg\<rparr>"
    by (auto simp: finish_credential_def Let_def f and_then_Ok_iff build_auth_data_Ok build_attested_Ok sign_Ok
        simp flip: c_def split: result.splits)
  from insert_list [OF u] s' have "cs_get ops s' j = (if j = i then Some c else cs_get ops s j)" for j
    by (auto simp: get_list c_def cache_insert_Some(1) split: option.splits)
  with r c_def show ?thesis by auto
qed

lemma make_credential_Ok:
  assumes "make_credential C cr ops fill s rng q up uv = (Ok r, s', rng')"
  shows "up \<and> (mc_uv q \<longrightarrow> uv) \<and> \<not> excluded ops s q \<and>
    (\<exists>c cose. choose_alg (mc_algs q) = Ok (cred_algorithm c) \<and> cred_id c = fst (fill CREDENTIAL_ID_LEN rng) \<and>
      cred_rp_id c = mc_rp_id q \<and> cred_user_id c = mc_user_id q \<and> cred_sign_count c = 0 \<and>
      cred_discoverable c = mc_rk q \<and> cose_public_key C cr c = Some cose \<and>
      (cred_algorithm c = COSE_ALG_EDDSA \<or> c_p256_secret cr (cred_private_key c)) \<and>
      (\<forall>j. cs_get ops s' j = (if j = cred_id c then Some c else cs_get ops s j)) \<and>
      r = \<lparr>mcr_auth_data = auth_data_of cr (mc_rp_id q) (up_flags uv OR FLAG_AT) 0 (attested_of (cred_id c) cose),
         mcr_signature = signature_of cr (cred_private_key c) (cred_algorithm c)
           (auth_data_of cr (mc_rp_id q) (up_flags uv OR FLAG_AT) 0 (attested_of (cred_id c) cose)
             @ mc_client_data_hash q), mcr_alg = cred_algorithm c\<rparr>)"
proof -
  from assms have g: "up" "mc_uv q \<longrightarrow> uv" "\<not> excluded ops s q" by (auto simp: make_credential_def split: if_splits)
  from assms g obtain alg where alg: "choose_alg (mc_algs q) = Ok alg"
    by (auto simp: make_credential_def split: if_splits result.splits)
  obtain i rng1 where i: "fill CREDENTIAL_ID_LEN rng = (i, rng1)" by (rule prod.exhaust)
  obtain k rng2 where k: "new_key C cr fill alg rng1 = (k, rng2)" by (rule prod.exhaust)
  from assms g alg i k obtain key cose where kc: "k = Ok (key, cose)"
    by (cases k) (auto simp: make_credential_def split: if_splits)
  have f: "finish_credential cr ops s q uv alg i key cose = (Ok r, s')"
    using assms g alg i k kc by (auto simp: make_credential_def split: if_splits prod.splits)
  from finish_credential_Ok [OF f] obtain c where c: "c = \<lparr>cred_id = i, cred_rp_id = mc_rp_id q,
      cred_user_id = mc_user_id q, cred_private_key = key, cred_algorithm = alg, cred_sign_count = 0,
      cred_discoverable = mc_rk q\<rparr>" "\<forall>j. cs_get ops s' j = (if j = i then Some c else cs_get ops s j)" by blast
  from new_key_Ok [OF k [unfolded kc]] c(1) have "cose_public_key C cr c = Some cose"
    "cred_algorithm c = COSE_ALG_EDDSA \<or> c_p256_secret cr (cred_private_key c)"
    by (auto simp: cose_public_key_def encode_into_def fixed_new_def split: if_splits)
  with finish_credential_Ok [OF f] g alg i c show ?thesis by (intro conjI exI [of _ c]) auto
qed

end

text \<open>C12: An assertion is only ever signed with the user present, and verified when the request asks
  for verification. The credential belongs to the relying party of the request, and is one
  that the request names or, when it names none, a discoverable one. The signature is the
  credential's, over the authenticator data of that relying party, with the user
  verification flag exactly when the user was verified and a counter one above the stored
  one, which is the new stored one; no other credential changes.\<close>

theorem get_assertion_sound:
  assumes "fido_store ops" and "distinct (ids (cs_list ops s))"
    and "get_assertion cr ops s q up uv = (Ok r, s')"
  shows "up \<and> (ga_uv q \<longrightarrow> uv) \<and> (\<exists>c n.
    cs_get ops s (gar_credential_id r) = Some c \<and> cred_rp_id c = ga_rp_id q \<and>
    (if ga_allow_list q = [] then cred_discoverable c else gar_credential_id r \<in> desc_id ` set (ga_allow_list q)) \<and>
    n = saturating_add (cred_sign_count c) 1 \<and>
    gar_auth_data r = auth_data_of cr (ga_rp_id q) (up_flags uv) n [] \<and>
    gar_signature r = signature_of cr (cred_private_key c) (cred_algorithm c) (gar_auth_data r @ ga_client_data_hash q) \<and>
    (\<forall>j. cs_get ops s' j = (if j = gar_credential_id r then Some (c\<lparr>cred_sign_count := n\<rparr>) else cs_get ops s j)))"
proof -
  from fido_store.get_assertion_Ok [OF assms(1,3)] obtain i others r' where
    g: "up" "ga_uv q \<longrightarrow> uv" "assertion_candidates ops s q = Ok (i # others)"
      "sign_assertion cr ops s i (ga_rp_id q) (ga_client_data_hash q) uv = (Ok r', s')"
      "r = r'\<lparr>gar_number_of_credentials := number_of_credentials (length (i # others)) (ga_allow_list q \<noteq> [])\<rparr>" by blast
  from fido_store.candidate [OF assms(1) g(3) _ assms(2), of i] fido_store.sign_assertion_Ok [OF assms(1) g(4)] g
  show ?thesis by fastforce
qed

text \<open>C14: The counters in the assertions of one credential grow strictly until they reach the
  largest value, whatever assertions of other credentials, failed assertions and failed
  writes of the store come between them.\<close>

theorem sign_counts_increase:
  assumes "fido_store ops" and "\<And>m. length (c_sha256 cr m) = 32"
  shows "sorted_wrt (\<lambda>a b. fst a = fst b \<longrightarrow> snd a < snd b \<or> snd a = - 1) (assertion_run cr ops s qs)"
  using fido_store.assertion_run_increasing [OF assms] .

text \<open>C23: A deletion stays inside the scope of its token. It leaves the set of credentials as it is,
  or a live token with the credential management permission authenticated the request, is
  unbound or bound to the relying party that owns the credential, and exactly the named
  credential is gone; a deletion that reports success did remove it.\<close>

theorem delete_scoped_confined:
  assumes "fido_store ops" and "distinct (ids (cs_list ops s))"
    and "delete_credential_scoped cr ops s cp param message i = (res, s', cp')"
  shows "(set (cs_list ops s') = set (cs_list ops s) \<and> res \<noteq> Ok ()) \<or>
    (\<exists>c token p. cs_get ops s i = Some c \<and> cp_token cp = Some token \<and> param = Some p \<and> length p \<in> {16, 32} \<and>
      p = take (length p) (c_hmac cr token message) \<and> cp_permissions cp AND PERMISSION_CM \<noteq> 0 \<and>
      cp_rp_id cp \<in> {None, Some (cred_rp_id c)} \<and>
      set (cs_list ops s') = {d \<in> set (cs_list ops s). cred_id d \<noteq> i})"
proof -
  let ?rq = "\<lparr>tr_param = param, tr_message = message, tr_uv_requested = False, tr_operation =
    Op_CredentialManagement (Scope_CredentialRelyingParty (map_option cred_rp_id (cs_get ops s i)))\<rparr>"
  obtain a cp1 where a: "authorize cr ops cp s ?rq = (a, cp1)" by (rule prod.exhaust)
  show ?thesis
  proof (cases "\<exists>b c. a = Ok b \<and> cs_get ops s i = Some c")
    case False
    with a assms(3) have "s' = s" "res \<noteq> Ok ()"
      by (auto simp: delete_credential_scoped_def Let_def split: result.splits option.splits)
    then show ?thesis by simp
  next
    case True
    then obtain b c where bc: "a = Ok b" "cs_get ops s i = Some c" by blast
    then have i: "cred_id c = i" by (simp add: fido_store.get_list [OF assms(1)] cache_get_SomeD)
    have b: "b = True" using a bc authorize_False [of cr ops cp s ?rq cp1] by (cases b) auto
    have t: "token_allows cr cp ?rq" using a bc authorize_True [of cr ops cp s ?rq cp1] by (simp add: b)
    obtain u s'' where u: "cs_remove ops s i = (u, s'')" by (rule prod.exhaust)
    with assms(3) a bc i have "s' = s''"
      by (auto simp: delete_credential_scoped_def Let_def split: result.splits)
    with fido_store.remove_list [OF assms(1) u] cache_remove_spec(1) [OF assms(2), of i]
    have "set (cs_list ops s') = {d \<in> set (cs_list ops s). cred_id d \<noteq> i}" by simp
    with t bc show ?thesis by (auto simp: token_allows_def split: option.splits)
  qed
qed

lemma length_AAGUID: "length AAGUID = 16"
  by code_simp

lemma attested_parts:
  assumes "\<And>m. length (c_sha256 cr m) = 32" and "length i = 16"
  shows "take 16 (drop 55 (auth_data_of cr rp flags n (attested_of i cose))) = i"
    and "drop 71 (auth_data_of cr rp flags n (attested_of i cose)) = cose"
  using assms by (simp_all add: auth_data_of_def attested_of_def length_AAGUID)

lemma signed_Ok:
  assumes "alg = COSE_ALG_EDDSA \<or> c_p256_secret cr key" and "length ad + length h \<le> MAX_SIGNING_INPUT"
    and "\<And>k m. length (c_ecdsa_sign cr k m) \<le> MAX_SIGNATURE" and "\<And>k m. length (c_ed_sign cr k m) \<le> MAX_SIGNATURE"
  shows "sign cr key alg ad h = Ok (signature_of cr key alg (ad @ h))"
  using assms by (simp add: sign_Ok signature_of_def)

text \<open>C5: A registered credential works. After a successful registration, an assertion request that
  names the credential id found in the registration's authenticator data, for the same
  relying party, succeeds: it is signed by the private key whose public key that
  authenticator data carries, with counter one and the registered user handle. The
  assumptions are the lengths of digests, identifiers and signatures and that the store's
  counter writes succeed.\<close>

theorem register_then_assert:
  assumes store: "fido_store ops" "\<And>s i. cs_get ops s i \<noteq> None \<Longrightarrow> fst (cs_next_sign_count ops s i) \<noteq> None"
    and sha: "\<And>m. length (c_sha256 cr m) = 32" and fill: "length (fst (fill 16 rng)) = 16"
    and sigs: "\<And>k m. length (c_ecdsa_sign cr k m) \<le> MAX_SIGNATURE" "\<And>k m. length (c_ed_sign cr k m) \<le> MAX_SIGNATURE"
    and reg: "make_credential C cr ops fill s rng q True uv = (Ok r, s', rng')"
    and request: "ga_rp_id p = mc_rp_id q" "ga_allow_list p = [\<lparr>desc_id = take 16 (drop 55 (mcr_auth_data r))\<rparr>]"
      "ga_uv p \<longrightarrow> uv'" "length (ga_client_data_hash p) = 32"
  shows "\<exists>c a s''. cose_public_key C cr c = Some (drop 71 (mcr_auth_data r)) \<and>
    get_assertion cr ops s' p True uv' = (Ok a, s'') \<and> gar_user_id a = mc_user_id q \<and>
    gar_auth_data a = auth_data_of cr (mc_rp_id q) (up_flags uv') 1 [] \<and>
    gar_signature a = signature_of cr (cred_private_key c) (mcr_alg r) (gar_auth_data a @ ga_client_data_hash p)"
proof -
  from fido_store.make_credential_Ok [OF store(1) reg] obtain c cose where
    c: "cred_id c = fst (fill 16 rng)" "cred_rp_id c = mc_rp_id q" "cred_user_id c = mc_user_id q" "cred_sign_count c = 0"
      "cose_public_key C cr c = Some cose" "cred_algorithm c = COSE_ALG_EDDSA \<or> c_p256_secret cr (cred_private_key c)"
      "cs_get ops s' (cred_id c) = Some c" "mcr_alg r = cred_algorithm c"
      "mcr_auth_data r = auth_data_of cr (mc_rp_id q) (up_flags uv OR FLAG_AT) 0 (attested_of (cred_id c) cose)"
    by auto
  from fill c(1) have "length (cred_id c) = 16" by simp
  note parts = attested_parts [OF sha this, where rp = "mc_rp_id q" and flags = "up_flags uv OR FLAG_AT" and n = 0 and cose = cose,
    folded c(9)]
  obtain k s'' where k: "cs_next_sign_count ops s' (cred_id c) = (k, s'')" by (rule prod.exhaust)
  with store(2) [of s' "cred_id c"] c(7) obtain n where n: "k = Some n" by auto
  from fido_store.next_sign_count_Some [OF store(1) k [unfolded n]] c(4,7) have n1: "n = 1"
    by (simp add: saturating_add_def)
  let ?ad = "auth_data_of cr (mc_rp_id q) (up_flags uv') 1 []"
  have ad: "length ?ad = 37" by (simp add: auth_data_of_def sha)
  have "build_auth_data cr (mc_rp_id q) (up_flags uv') 1 None = Ok ?ad" using ad by (simp add: build_auth_data_Ok)
  moreover have "sign cr (cred_private_key c) (cred_algorithm c) ?ad (ga_client_data_hash p)
      = Ok (signature_of cr (cred_private_key c) (cred_algorithm c) (?ad @ ga_client_data_hash p))"
    using c(6) ad request(4) sigs by (intro signed_Ok) simp_all
  ultimately have "sign_assertion cr ops s' (cred_id c) (mc_rp_id q) (ga_client_data_hash p) uv' =
      (Ok \<lparr>gar_credential_id = cred_id c, gar_auth_data = ?ad,
         gar_signature = signature_of cr (cred_private_key c) (cred_algorithm c) (?ad @ ga_client_data_hash p),
         gar_user_id = cred_user_id c, gar_number_of_credentials = None\<rparr>, s'')"
    using c(7) k n n1 by (simp add: sign_assertion_def Let_def up_flags_def)
  moreover have "assertion_candidates ops s' p = Ok [cred_id c]"
    using request(1,2) parts(1) c(2,7) by (simp add: assertion_candidates_def vec_push_def)
  ultimately show ?thesis using request(1,3) parts(2) c by (auto simp: get_assertion_def intro!: exI [of _ c])
qed

text \<open>A device with a registration and an assertion, for the witnesses.\<close>

definition demo_registration :: MakeCredentialRequest where
  "demo_registration = \<lparr>mc_client_data_hash = replicate 32 9, mc_rp_id = ascii ''example.com'', mc_user_id = [1, 2, 3],
     mc_exclude_list = [], mc_algs = [- 8], mc_rk = True, mc_uv = False, mc_pin_uv_auth_param = None\<rparr>"

definition demo_assertion :: "CredentialDescriptor list \<Rightarrow> GetAssertionRequest" where
  "demo_assertion allow = \<lparr>ga_rp_id = ascii ''example.com'', ga_client_data_hash = replicate 32 7, ga_allow_list = allow,
     ga_up = True, ga_uv = False, ga_pin_uv_auth_param = None\<rparr>"

definition demo_credential :: Credential where
  "demo_credential = \<lparr>cred_id = replicate 16 1, cred_rp_id = ascii ''example.com'', cred_user_id = [1, 2, 3],
     cred_private_key = replicate 32 2, cred_algorithm = - 8, cred_sign_count = 0, cred_discoverable = True\<rparr>"

definition demo_fido_store :: MemoryStore where
  "demo_fido_store = memory_new\<lparr>ms_credentials := [demo_credential]\<rparr>"

definition demo_token :: ClientPin where
  "demo_token = client_pin_new\<lparr>cp_token := Some (replicate 32 5), cp_permissions := 4, cp_rp_id := Some (ascii ''example.com'')\<rparr>"

lemma demo_register:
  "case make_credential rfc8949 demo_crypto memory_ops demo_fill memory_new 0 demo_registration True False of
     (res, s, g) \<Rightarrow> s = demo_fido_store \<and> (case res of Err _ \<Rightarrow> False | Ok r \<Rightarrow> take 16 (drop 55 (mcr_auth_data r)) = replicate 16 1)"
  by code_simp

lemma demo_assert:
  "case get_assertion demo_crypto memory_ops demo_fido_store (demo_assertion []) True False of
     (res, s) \<Rightarrow> (case res of Err _ \<Rightarrow> False | Ok r \<Rightarrow> gar_credential_id r = replicate 16 1)"
  by code_simp

lemma demo_distinct: "distinct (ids (cs_list memory_ops demo_fido_store))"
  by code_simp

theorem get_assertion_sound_witness:
  "\<exists>c n. cs_get memory_ops demo_fido_store (replicate 16 1) = Some c \<and> cred_rp_id c = ascii ''example.com'' \<and>
    n = saturating_add (cred_sign_count c) 1"
proof -
  obtain res s' where g: "get_assertion demo_crypto memory_ops demo_fido_store (demo_assertion []) True False = (res, s')"
    by (rule prod.exhaust)
  with demo_assert obtain r where r: "res = Ok r" "gar_credential_id r = replicate 16 1" by (auto split: result.splits)
  from get_assertion_sound [OF memory.fido_store_axioms demo_distinct g [unfolded r(1)]] r(2)
  show ?thesis by (auto simp: demo_assertion_def)
qed

theorem sign_counts_increase_witness:
  "sorted_wrt (\<lambda>a b. fst a = fst b \<longrightarrow> snd a < snd b \<or> snd a = - 1)
     (assertion_run demo_crypto memory_ops demo_fido_store
       [(replicate 16 1, ascii ''example.com'', [], False), (replicate 16 1, ascii ''example.com'', [], True)])"
  by (rule sign_counts_increase [OF memory.fido_store_axioms]) (simp add: demo_crypto_def)

theorem delete_scoped_confined_witness:
  "\<exists>s' cp'. delete_credential_scoped demo_crypto memory_ops demo_fido_store demo_token
      (Some (take 16 (c_hmac demo_crypto (replicate 32 5) [6]))) [6] (replicate 16 1) = (Ok (), s', cp') \<and>
    set (cs_list memory_ops s') = {d \<in> set (cs_list memory_ops demo_fido_store). cred_id d \<noteq> replicate 16 1}"
proof -
  let ?d = "delete_credential_scoped demo_crypto memory_ops demo_fido_store demo_token
      (Some (take 16 (c_hmac demo_crypto (replicate 32 5) [6]))) [6] (replicate 16 1)"
  obtain res s' cp' where d: "?d = (res, s', cp')" by (rule prod_cases3)
  have "fst ?d = Ok ()" by code_simp
  with d have res: "res = Ok ()" by simp
  from delete_scoped_confined [OF memory.fido_store_axioms demo_distinct d] d res show ?thesis by auto
qed

theorem register_then_assert_witness:
  "\<exists>(c :: Credential) a s''. get_assertion demo_crypto memory_ops demo_fido_store (demo_assertion [\<lparr>desc_id = replicate 16 1\<rparr>]) True False = (Ok a, s'') \<and>
    gar_user_id a = [1, 2, 3] \<and> gar_signature a = signature_of demo_crypto (cred_private_key c) (- 8)
      (gar_auth_data a @ replicate 32 7)"
proof -
  obtain res s' rng' where m:
    "make_credential rfc8949 demo_crypto memory_ops demo_fill memory_new 0 demo_registration True False = (res, s', rng')"
    by (rule prod_cases3)
  with demo_register obtain r where r: "res = Ok r" "s' = demo_fido_store" "take 16 (drop 55 (mcr_auth_data r)) = replicate 16 1"
    by (auto split: result.splits)
  have alg: "mcr_alg r = - 8"
    using memory.make_credential_Ok [OF m [unfolded r(1)]] by (auto simp: demo_registration_def choose_alg_def)
  have "\<exists>c a s''. cose_public_key rfc8949 demo_crypto c = Some (drop 71 (mcr_auth_data r)) \<and>
    get_assertion demo_crypto memory_ops s' (demo_assertion [\<lparr>desc_id = replicate 16 1\<rparr>]) True False = (Ok a, s'') \<and>
    gar_user_id a = mc_user_id demo_registration \<and>
    gar_auth_data a = auth_data_of demo_crypto (mc_rp_id demo_registration) (up_flags False) 1 [] \<and>
    gar_signature a = signature_of demo_crypto (cred_private_key c) (mcr_alg r)
      (gar_auth_data a @ ga_client_data_hash (demo_assertion [\<lparr>desc_id = replicate 16 1\<rparr>]))"
  proof (rule register_then_assert [OF memory.fido_store_axioms _ _ _ _ _ m [unfolded r(1)]])
    fix s i assume "cs_get memory_ops s i \<noteq> None"
    then show "fst (cs_next_sign_count memory_ops s i) \<noteq> None"
      by (auto simp: memory_defs cache_count_up_None split: option.splits)
  qed (simp_all add: demo_crypto_def demo_fill_def demo_assertion_def demo_registration_def r(3))
  then obtain c :: Credential and a s'' where
    "get_assertion demo_crypto memory_ops demo_fido_store (demo_assertion [\<lparr>desc_id = replicate 16 1\<rparr>]) True False = (Ok a, s'')"
    "gar_user_id a = mc_user_id demo_registration" "gar_signature a = signature_of demo_crypto (cred_private_key c) (- 8)
      (gar_auth_data a @ ga_client_data_hash (demo_assertion [\<lparr>desc_id = replicate 16 1\<rparr>]))"
    unfolding r(2) alg by (elim exE conjE) (rule that)
  moreover have "mc_user_id demo_registration = [1, 2, 3]" "ga_client_data_hash (demo_assertion l) = replicate 32 7" for l
    by (simp_all add: demo_registration_def demo_assertion_def)
  ultimately show ?thesis by (intro exI [of _ c] exI [of _ a] exI [of _ s'']) (simp del: append_assoc)
qed

end
