(* ===== verification/U2f.thy ===== *)
theory U2f
  imports Authenticator
begin

text \<open>The CTAP1/U2F commands of \<open>u2f.rs\<close>, carried as raw extended APDUs in CTAPHID \<open>MSG\<close>
  messages: version and authenticate over the same credential store as CTAP2.

  Shown here: the exact conditions under which an authentication is signed, what is
  signed, and that nothing else touches the store.\<close>

abbreviation (input) "U2F_INS_REGISTER \<equiv> (0x01 :: u8)"
abbreviation (input) "U2F_INS_AUTHENTICATE \<equiv> (0x02 :: u8)"
abbreviation (input) "U2F_INS_VERSION \<equiv> (0x03 :: u8)"
abbreviation (input) "U2F_SW_NO_ERROR \<equiv> (0x9000 :: u16)"
abbreviation (input) "U2F_SW_WRONG_LENGTH \<equiv> (0x6700 :: u16)"
abbreviation (input) "U2F_SW_CONDITIONS_NOT_SATISFIED \<equiv> (0x6985 :: u16)"
abbreviation (input) "U2F_SW_WRONG_DATA \<equiv> (0x6A80 :: u16)"
abbreviation (input) "U2F_SW_INS_NOT_SUPPORTED \<equiv> (0x6D00 :: u16)"
abbreviation (input) "U2F_SW_CLA_NOT_SUPPORTED \<equiv> (0x6E00 :: u16)"
abbreviation (input) "MAX_APDU_DATA \<equiv> (256 :: nat)"
abbreviation (input) "AUTH_CHECK_ONLY \<equiv> (0x07 :: u8)"
abbreviation (input) "AUTH_ENFORCE \<equiv> (0x03 :: u8)"

record U2fApdu =
  u2f_cla :: u8
  u2f_ins :: u8
  u2f_p1 :: u8
  u2f_p2 :: u8
  u2f_data :: bytes

definition u2f_parse_apdu :: "bytes \<Rightarrow> (U2fApdu, u16) result" where
  "u2f_parse_apdu bs =
     (if length bs < 7 then Err U2F_SW_WRONG_LENGTH
      else let len = unat (of_be_bytes [0, bs ! 4, bs ! 5, bs ! 6] :: u32)
        in if len > MAX_APDU_DATA \<or> length bs < 7 + len then Err U2F_SW_WRONG_LENGTH
           else Ok \<lparr>u2f_cla = bs ! 0, u2f_ins = bs ! 1, u2f_p1 = bs ! 2, u2f_p2 = bs ! 3, u2f_data = take len (drop 7 bs)\<rparr>)"

record U2fResponse =
  u2r_data :: bytes
  u2r_status :: u16

definition u2f_ok :: "bytes \<Rightarrow> U2fResponse" where
  "u2f_ok data = \<lparr>u2r_data = data, u2r_status = U2F_SW_NO_ERROR\<rparr>"

definition u2f_error :: "u16 \<Rightarrow> U2fResponse" where
  "u2f_error status = \<lparr>u2r_data = [], u2r_status = status\<rparr>"

text \<open>\<open>encode_into\<close> panics on a buffer that is too short.\<close>

definition u2f_encode_into :: "U2fResponse \<Rightarrow> nat \<Rightarrow> bytes option" where
  "u2f_encode_into r out_len =
     (if length (u2r_data r) + 2 \<le> out_len then Some (u2r_data r @ be_bytes 2 (u2r_status r)) else None)"

definition requires_user_presence :: "bytes \<Rightarrow> bool" where
  "requires_user_presence request =
     (case u2f_parse_apdu request of
        Ok apdu \<Rightarrow> u2f_ins apdu = U2F_INS_AUTHENTICATE \<and> u2f_p1 apdu = AUTH_ENFORCE
      | Err _ \<Rightarrow> False)"

text \<open>The vectors of 128 and 512 bytes never fill: the message has 70 bytes and a signature at
  most 80.\<close>

definition u2f_message :: "bytes \<Rightarrow> u32 \<Rightarrow> bytes \<Rightarrow> bytes" where
  "u2f_message application counter challenge = [0x00] @ application @ [0x01] @ be_bytes 4 counter @ challenge"

definition u2f_authenticate ::
    "FidoCrypto \<Rightarrow> 's StoreOps \<Rightarrow> U2fApdu \<Rightarrow> 's \<Rightarrow> bool \<Rightarrow> U2fResponse \<times> 's" where
  "u2f_authenticate cr ops apdu store up_confirmed =
     (let data = u2f_data apdu
      in if length data < 65 then (u2f_error U2F_SW_WRONG_DATA, store)
         else let challenge = take 32 data; application = take 32 (drop 32 data); key_handle_length = unat (data ! 64)
           in if key_handle_length = 0 \<or> length data < 65 + key_handle_length then (u2f_error U2F_SW_WRONG_DATA, store)
              else let key_handle = take key_handle_length (drop 65 data)
                in case cs_get ops store key_handle of
                     None \<Rightarrow> (u2f_error U2F_SW_WRONG_DATA, store)
                   | Some credential \<Rightarrow>
                       if cred_algorithm credential \<noteq> COSE_ALG_ES256 then (u2f_error U2F_SW_WRONG_DATA, store)
                       else if u2f_p1 apdu = AUTH_CHECK_ONLY then (u2f_ok [], store)
                       else if u2f_p1 apdu = AUTH_ENFORCE then
                         (if \<not> up_confirmed then (u2f_error U2F_SW_CONDITIONS_NOT_SATISFIED, store)
                          else case cs_next_sign_count ops store key_handle of
                              (count, store) \<Rightarrow>
                                (let counter = (case count of None \<Rightarrow> 0 | Some n \<Rightarrow> n)
                                 in case sign_message cr (cred_private_key credential)
                                        (u2f_message application counter challenge) of
                                      Err _ \<Rightarrow> (u2f_error U2F_SW_CONDITIONS_NOT_SATISFIED, store)
                                    | Ok signature \<Rightarrow>
                                        (\<lparr>u2r_data = [0x01] @ be_bytes 4 counter @ signature,
                                          u2r_status = U2F_SW_NO_ERROR\<rparr>, store)))
                       else (u2f_error U2F_SW_WRONG_DATA, store))"

definition u2f_handle ::
    "FidoCrypto \<Rightarrow> 's StoreOps \<Rightarrow> bytes \<Rightarrow> 's \<Rightarrow> bool \<Rightarrow> U2fResponse \<times> 's" where
  "u2f_handle cr ops request store up_confirmed =
     (case u2f_parse_apdu request of
        Err status \<Rightarrow> (u2f_error status, store)
      | Ok apdu \<Rightarrow>
          if u2f_cla apdu \<noteq> 0 then (u2f_error U2F_SW_CLA_NOT_SUPPORTED, store)
          else if u2f_ins apdu = U2F_INS_VERSION then (u2f_ok (ascii ''U2F_V2''), store)
          else if u2f_ins apdu = U2F_INS_AUTHENTICATE then u2f_authenticate cr ops apdu store up_confirmed
          else (u2f_error U2F_SW_INS_NOT_SUPPORTED, store))"

definition application_parameter_hash :: "FidoCrypto \<Rightarrow> bytes \<Rightarrow> bytes" where
  "application_parameter_hash cr app_id = c_sha256 cr app_id"

section \<open>Properties\<close>

text \<open>The fields of an authentication request, at their offsets in the raw APDU.\<close>

definition u2f_challenge :: "bytes \<Rightarrow> bytes" where
  "u2f_challenge rq = take 32 (drop 7 rq)"

definition u2f_application :: "bytes \<Rightarrow> bytes" where
  "u2f_application rq = take 32 (drop 39 rq)"

definition u2f_key_handle :: "bytes \<Rightarrow> bytes" where
  "u2f_key_handle rq = take (unat (rq ! 71)) (drop 72 rq)"

lemma u2f_fields:
  assumes "u2f_parse_apdu rq = Ok apdu" and "65 \<le> length (u2f_data apdu)"
  shows "take 32 (u2f_data apdu) = u2f_challenge rq" "take 32 (drop 32 (u2f_data apdu)) = u2f_application rq"
    "u2f_data apdu ! 64 = rq ! 71"
    "65 + unat (rq ! 71) \<le> length (u2f_data apdu) \<Longrightarrow> take (unat (rq ! 71)) (drop 65 (u2f_data apdu)) = u2f_key_handle rq"
  using assms
  by (auto simp: u2f_parse_apdu_def u2f_challenge_def u2f_application_def u2f_key_handle_def Let_def min_def drop_take
      split: if_splits)

text \<open>C20: U2F signs only with the user present. Every request either leaves the store alone and
  answers with no data or the version string, or is a signing authentication, with
  presence confirmed, for an ES256 credential that the key handle names: then the
  credential's counter was advanced and the answer, unless signing failed, is the presence
  byte, the counter and the credential's signature over the application parameter, the
  counter and the challenge.\<close>

theorem u2f_signs_only_present:
  "case u2f_handle cr ops rq s up of (r, s') \<Rightarrow>
     s' = s \<and> u2r_data r \<in> {[], ascii ''U2F_V2''} \<or>
     up \<and> requires_user_presence rq \<and> (\<exists>c k n. cs_get ops s (u2f_key_handle rq) = Some c \<and>
       cred_algorithm c = COSE_ALG_ES256 \<and> cs_next_sign_count ops s (u2f_key_handle rq) = (k, s') \<and>
       n = (case k of None \<Rightarrow> 0 | Some n \<Rightarrow> n) \<and>
       u2r_data r \<in> {[], [0x01] @ be_bytes 4 n @
         c_ecdsa_sign cr (cred_private_key c) (u2f_message (u2f_application rq) n (u2f_challenge rq))})"
proof (cases "u2f_parse_apdu rq")
  case (Err e)
  then show ?thesis by (simp add: u2f_handle_def u2f_error_def)
next
  case (Ok apdu)
  show ?thesis
  proof (cases "u2f_ins apdu = U2F_INS_AUTHENTICATE \<and> u2f_cla apdu = 0 \<and> 65 \<le> length (u2f_data apdu)
      \<and> 65 + unat (rq ! 71) \<le> length (u2f_data apdu)")
    case False
    with Ok show ?thesis
      by (auto simp: u2f_handle_def u2f_authenticate_def u2f_error_def u2f_ok_def Let_def u2f_fields(3) not_le)
  next
    case True
    note fields = u2f_fields [OF Ok conjunct1 [OF conjunct2 [OF conjunct2 [OF True]]]]
    obtain k s1 where k: "cs_next_sign_count ops s (u2f_key_handle rq) = (k, s1)" by (rule prod.exhaust)
    from True Ok k fields show ?thesis
      by (auto simp: u2f_handle_def u2f_authenticate_def requires_user_presence_def u2f_error_def u2f_ok_def Let_def
          sign_message_def fixed_new_def split: option.splits result.splits)
  qed
qed

end
