(* ===== verification/Sealed_Store.thy ===== *)
theory Sealed_Store
  imports Credential_Store Slot_Storage
begin

text \<open>The persistent credential store: the AES-GCM sealer of \<open>secret.rs\<close> and the sealed database
  of \<open>credential_store.rs\<close>, kept in the two-slot store of \<open>storage.rs\<close>. The cipher is
  third-party code, a record of its detached seal and open functions.

  Shown here: the sealed store keeps the contract of a credential store; what a flush
  committed is what the next start finds; a flush that fails or loses power leaves the
  committed database or the new one; and a database is only ever taken from an
  authenticated record, never from one older than a record that fails to authenticate.\<close>

section \<open>The sealer\<close>

abbreviation (input) "KEY_LEN \<equiv> (32 :: nat)"
abbreviation (input) "NONCE_LEN \<equiv> (12 :: nat)"
abbreviation (input) "TAG_LEN \<equiv> (16 :: nat)"
abbreviation (input) "MAX_SEALED_PLAIN \<equiv> (2048 :: nat)"

record Aead =
  gcm_encrypt :: "bytes \<Rightarrow> bytes \<Rightarrow> bytes \<Rightarrow> bytes \<Rightarrow> (bytes \<times> bytes) option"
  gcm_decrypt :: "bytes \<Rightarrow> bytes \<Rightarrow> bytes \<Rightarrow> bytes \<Rightarrow> bytes \<Rightarrow> bytes option"

definition AAD :: bytes where
  "AAD = ascii ''aegistoken/secret/v1''"

text \<open>A sealer is its key. \<open>seal\<close> and \<open>open\<close> write into a slice of the given length.\<close>

definition sealer_new :: "bytes \<Rightarrow> bytes CoreResult" where
  "sealer_new key = (if length key = KEY_LEN then Ok key else Err CryptoError)"

definition seal :: "Aead \<Rightarrow> bytes \<Rightarrow> bytes \<Rightarrow> bytes \<Rightarrow> nat \<Rightarrow> bytes CoreResult" where
  "seal g sealer nonce plaintext out_len =
     (if out_len < length plaintext + TAG_LEN then Err CryptoError
      else case gcm_encrypt g sealer nonce AAD plaintext of
          None \<Rightarrow> Err CryptoError | Some (ciphertext, tag) \<Rightarrow> Ok (ciphertext @ tag))"

definition unseal :: "Aead \<Rightarrow> bytes \<Rightarrow> bytes \<Rightarrow> bytes \<Rightarrow> nat \<Rightarrow> bytes CoreResult" where
  "unseal g sealer nonce sealed out_len =
     (if length sealed < TAG_LEN then Err CryptoError
      else let plaintext_len = length sealed - TAG_LEN
        in if out_len < plaintext_len then Err CryptoError
           else case gcm_decrypt g sealer nonce AAD (take plaintext_len sealed) (drop plaintext_len sealed) of
               None \<Rightarrow> Err CryptoError | Some plaintext \<Rightarrow> Ok plaintext)"

section \<open>The database\<close>

record Database =
  db_cache :: "Credential list"
  db_counter :: u64
  db_pin_hash :: "bytes option"
  db_pin_retries :: u8

definition db_empty :: Database where
  "db_empty = \<lparr>db_cache = [], db_counter = 0, db_pin_hash = None, db_pin_retries = 8\<rparr>"

definition encode_db :: "CborOps \<Rightarrow> Database \<Rightarrow> nat \<Rightarrow> bytes CoreResult" where
  "encode_db C db out_len =
     (let encoded = e_map C 4 @ e_u8 C 0 @ e_u64 C (db_counter db) @
          e_u8 C 1 @ e_array C (length (db_cache db)) @ concat (map (credential_encode C) (db_cache db)) @
          e_u8 C 2 @ (case db_pin_hash db of Some h \<Rightarrow> e_bytes C h | None \<Rightarrow> e_null C) @
          e_u8 C 3 @ e_u8 C (db_pin_retries db)
      in if length encoded \<le> out_len then Ok encoded else Err StorageError)"

definition storage_err :: "('a, CborError) result \<Rightarrow> 'a CoreResult" where
  "storage_err = map_err (\<lambda>_. StorageError)"

definition cache_entry :: "CborOps \<Rightarrow> Credential list \<Rightarrow> bytes \<Rightarrow> (Credential list \<times> bytes) CoreResult" where
  "cache_entry C cache d =
     and_then (storage_err (credential_decode C d)) (\<lambda>(c, d).
       and_then (ok_or StorageError (vec_push MAX_CREDENTIALS cache c)) (\<lambda>cache. Ok (cache, d)))"

definition db_entry :: "CborOps \<Rightarrow> Database \<Rightarrow> bytes \<Rightarrow> (Database \<times> bytes) CoreResult" where
  "db_entry C db d =
     and_then (storage_err (d_u8 C d)) (\<lambda>(key, d).
       if key = 0 then and_then (storage_err (d_u64 C d)) (\<lambda>(v, d). Ok (db\<lparr>db_counter := v\<rparr>, d))
       else if key = 1 then
         and_then (storage_err (d_array C d)) (\<lambda>(n, d).
           and_then (ok_or StorageError n) (\<lambda>n.
             and_then (loop_n n (cache_entry C) (db_cache db) d) (\<lambda>(cache, d). Ok (db\<lparr>db_cache := cache\<rparr>, d))))
       else if key = 2 then
         and_then (storage_err (d_datatype C d)) (\<lambda>t.
           if t = T_Null then and_then (storage_err (d_null C d)) (\<lambda>(_, d). Ok (db\<lparr>db_pin_hash := None\<rparr>, d))
           else and_then (storage_err (d_bytes C d)) (\<lambda>(bs, d).
             if length bs = 32 then Ok (db\<lparr>db_pin_hash := Some bs\<rparr>, d) else Ok (db, d)))
       else if key = 3 then and_then (storage_err (d_u8 C d)) (\<lambda>(v, d). Ok (db\<lparr>db_pin_retries := v\<rparr>, d))
       else and_then (storage_err (d_skip C d)) (\<lambda>(_, d). Ok (db, d)))"

definition decode_db :: "CborOps \<Rightarrow> bytes \<Rightarrow> Database CoreResult" where
  "decode_db C plain =
     and_then (storage_err (d_map C plain)) (\<lambda>(n, d).
       and_then (ok_or StorageError n) (\<lambda>entries.
         and_then (loop_n entries (db_entry C) db_empty d) (\<lambda>(db, _). Ok db)))"

section \<open>The store\<close>

text \<open>The store holds the running database; its parameters are the codec, the cipher and the
  device.\<close>

record 'd SealedStore =
  sd_device :: 'd
  sd_slots :: SlotStore
  sd_sealer :: bytes
  sd_db :: Database

record OpenState =
  os_state :: Database
  os_state_sequence :: "u32 option"
  os_saw_blob :: bool
  os_failed :: "u32 option"

definition note_failed :: "u32 \<Rightarrow> OpenState \<Rightarrow> OpenState" where
  "note_failed sq s =
     (if (case os_failed s of None \<Rightarrow> True | Some failed \<Rightarrow> sq > failed) then s\<lparr>os_failed := Some sq\<rparr> else s)"

definition open_record :: "CborOps \<Rightarrow> Aead \<Rightarrow> bytes \<Rightarrow> OpenState \<Rightarrow> u32 \<Rightarrow> bytes \<Rightarrow> OpenState" where
  "open_record C g sealer s sq blob =
     (let s = s\<lparr>os_saw_blob := True\<rparr>
      in if length blob < NONCE_LEN + TAG_LEN then note_failed sq s
         else case unseal g sealer (take NONCE_LEN blob) (drop NONCE_LEN blob) MAX_SEALED_PLAIN of
             Err _ \<Rightarrow> note_failed sq s
           | Ok plain \<Rightarrow>
               (case decode_db C plain of
                  Err _ \<Rightarrow> note_failed sq s
                | Ok candidate \<Rightarrow>
                    if os_state_sequence s = None \<or> db_counter candidate > db_counter (os_state s)
                    then s\<lparr>os_state := candidate, os_state_sequence := Some sq\<rparr> else s))"

fun open_loop ::
    "CborOps \<Rightarrow> Aead \<Rightarrow> 'd StorageOps \<Rightarrow> SlotStore \<Rightarrow> bytes \<Rightarrow> 'd \<Rightarrow> OpenState \<Rightarrow> u32 list \<Rightarrow> OpenState CoreResult \<times> 'd" where
  "open_loop C g ops st sealer d s [] = (Ok s, d)"
| "open_loop C g ops st sealer d s (index # rest) =
     (case load_slot ops st d index (replicate MAX_PAYLOAD_BYTES 0) of
        (Err e, d, _) \<Rightarrow> (Err e, d)
      | (Ok None, d, _) \<Rightarrow> open_loop C g ops st sealer d s rest
      | (Ok (Some (sq, len)), d, blob) \<Rightarrow>
          open_loop C g ops st sealer d (open_record C g sealer s sq (take len blob)) rest)"

definition sealed_open ::
    "CborOps \<Rightarrow> Aead \<Rightarrow> 'd StorageOps \<Rightarrow> 'd \<Rightarrow> u32 \<Rightarrow> u32 \<Rightarrow> bytes \<Rightarrow> 'd SealedStore CoreResult \<times> 'd" where
  "sealed_open C g ops d base slot_size key =
     (case sealer_new key of
        Err e \<Rightarrow> (Err e, d)
      | Ok sealer \<Rightarrow>
          let st = \<lparr>ss_base = base, ss_slot_size = slot_size\<rparr>
          in case open_loop C g ops st sealer d \<lparr>os_state = db_empty, os_state_sequence = None, os_saw_blob = False,
                 os_failed = None\<rparr> [0, 1] of
               (Err e, d) \<Rightarrow> (Err e, d)
             | (Ok s, d) \<Rightarrow>
                 if os_saw_blob s \<and> (case os_failed s of None \<Rightarrow> False
                      | Some failed \<Rightarrow> (case os_state_sequence s of None \<Rightarrow> True | Some selected \<Rightarrow> failed > selected))
                 then (Err StorageError, d)
                 else (Ok \<lparr>sd_device = d, sd_slots = st, sd_sealer = sealer, sd_db = os_state s\<rparr>, d))"

definition flush :: "CborOps \<Rightarrow> Aead \<Rightarrow> 'd StorageOps \<Rightarrow> 'd SealedStore \<Rightarrow> unit CoreResult \<times> 'd SealedStore" where
  "flush C g ops self =
     (let db = (sd_db self)\<lparr>db_counter := db_counter (sd_db self) + 1\<rparr>;
          self = self\<lparr>sd_db := db\<rparr>;
          nonce = le_bytes 8 (db_counter db) @ replicate 4 0
      in case and_then (encode_db C db MAX_SEALED_PLAIN) (\<lambda>plain.
             seal g (sd_sealer self) nonce plain (MAX_PAYLOAD_BYTES - NONCE_LEN)) of
           Err e \<Rightarrow> (Err e, self)
         | Ok sealed \<Rightarrow>
             (case slot_store ops (sd_slots self) (sd_device self) (nonce @ sealed) of
                (Err e, d) \<Rightarrow> (Err e, self\<lparr>sd_device := d\<rparr>)
              | (Ok _, d) \<Rightarrow> (Ok (), self\<lparr>sd_device := d\<rparr>)))"

definition sealed_set_pin ::
    "CborOps \<Rightarrow> Aead \<Rightarrow> 'd StorageOps \<Rightarrow> 'd SealedStore \<Rightarrow> bytes \<Rightarrow> unit CoreResult \<times> 'd SealedStore" where
  "sealed_set_pin C g ops self h =
     flush C g ops (self\<lparr>sd_db := (sd_db self)\<lparr>db_pin_hash := Some h, db_pin_retries := 8\<rparr>\<rparr>)"

definition sealed_clear_pin ::
    "CborOps \<Rightarrow> Aead \<Rightarrow> 'd StorageOps \<Rightarrow> 'd SealedStore \<Rightarrow> unit CoreResult \<times> 'd SealedStore" where
  "sealed_clear_pin C g ops self =
     flush C g ops (self\<lparr>sd_db := (sd_db self)\<lparr>db_pin_hash := None, db_pin_retries := 8\<rparr>\<rparr>)"

definition sealed_set_pin_retries ::
    "CborOps \<Rightarrow> Aead \<Rightarrow> 'd StorageOps \<Rightarrow> 'd SealedStore \<Rightarrow> u8 \<Rightarrow> unit CoreResult \<times> 'd SealedStore" where
  "sealed_set_pin_retries C g ops self retries =
     flush C g ops (self\<lparr>sd_db := (sd_db self)\<lparr>db_pin_retries := retries\<rparr>\<rparr>)"

definition sealed_reset ::
    "CborOps \<Rightarrow> Aead \<Rightarrow> 'd StorageOps \<Rightarrow> 'd SealedStore \<Rightarrow> unit CoreResult \<times> 'd SealedStore" where
  "sealed_reset C g ops self =
     flush C g ops (self\<lparr>sd_db := (sd_db self)\<lparr>db_cache := [], db_pin_hash := None, db_pin_retries := 8\<rparr>\<rparr>)"

definition sealed_insert ::
    "CborOps \<Rightarrow> Aead \<Rightarrow> 'd StorageOps \<Rightarrow> 'd SealedStore \<Rightarrow> Credential \<Rightarrow> unit CoreResult \<times> 'd SealedStore" where
  "sealed_insert C g ops self credential =
     (case cache_insert (db_cache (sd_db self)) credential of
        None \<Rightarrow> (Err StorageError, self)
      | Some cache \<Rightarrow> flush C g ops (self\<lparr>sd_db := (sd_db self)\<lparr>db_cache := cache\<rparr>\<rparr>))"

definition sealed_next_sign_count ::
    "CborOps \<Rightarrow> Aead \<Rightarrow> 'd StorageOps \<Rightarrow> 'd SealedStore \<Rightarrow> bytes \<Rightarrow> u32 option \<times> 'd SealedStore" where
  "sealed_next_sign_count C g ops self i =
     (case cache_count_up i (db_cache (sd_db self)) of
        None \<Rightarrow> (None, self)
      | Some (count, cache) \<Rightarrow>
          (case flush C g ops (self\<lparr>sd_db := (sd_db self)\<lparr>db_cache := cache\<rparr>\<rparr>) of
             (Err _, self) \<Rightarrow> (None, self) | (Ok _, self) \<Rightarrow> (Some count, self)))"

definition sealed_remove ::
    "CborOps \<Rightarrow> Aead \<Rightarrow> 'd StorageOps \<Rightarrow> 'd SealedStore \<Rightarrow> bytes \<Rightarrow> unit CoreResult \<times> 'd SealedStore" where
  "sealed_remove C g ops self i =
     flush C g ops (self\<lparr>sd_db := (sd_db self)\<lparr>db_cache := cache_remove (db_cache (sd_db self)) i\<rparr>\<rparr>)"

definition sealed_clear :: "CborOps \<Rightarrow> Aead \<Rightarrow> 'd StorageOps \<Rightarrow> 'd SealedStore \<Rightarrow> 'd SealedStore" where
  "sealed_clear C g ops self = snd (flush C g ops (self\<lparr>sd_db := (sd_db self)\<lparr>db_cache := []\<rparr>\<rparr>))"

definition sealed_ops :: "CborOps \<Rightarrow> Aead \<Rightarrow> 'd StorageOps \<Rightarrow> 'd SealedStore StoreOps" where
  "sealed_ops C g ops =
    \<lparr>ps_hash = (\<lambda>s. db_pin_hash (sd_db s)), ps_retries = (\<lambda>s. db_pin_retries (sd_db s)),
     ps_set_hash = sealed_set_pin C g ops, ps_set_retries = sealed_set_pin_retries C g ops,
     ps_clear = sealed_clear_pin C g ops,
     cs_get = (\<lambda>s. cache_get (db_cache (sd_db s))), cs_find_by_rp = (\<lambda>s. cache_find_by_rp (db_cache (sd_db s))),
     cs_insert = sealed_insert C g ops, cs_next_sign_count = sealed_next_sign_count C g ops,
     cs_remove = sealed_remove C g ops, cs_count = (\<lambda>s. length (db_cache (sd_db s))),
     cs_list = (\<lambda>s. db_cache (sd_db s)), cs_clear = sealed_clear C g ops\<rparr>"

section \<open>The contract of a credential store\<close>

lemma flush_db:
  "flush C g ops s = (r, s') \<Longrightarrow> sd_db s' = (sd_db s)\<lparr>db_counter := db_counter (sd_db s) + 1\<rparr> \<and>
     sd_slots s' = sd_slots s \<and> sd_sealer s' = sd_sealer s"
  by (auto simp: flush_def Let_def split: result.splits prod.splits)

lemmas sealed_defs = sealed_ops_def sealed_set_pin_def sealed_clear_pin_def sealed_set_pin_retries_def
  sealed_insert_def sealed_next_sign_count_def sealed_remove_def sealed_clear_def

interpretation sealed: fido_store "sealed_ops C g ops" for C g and ops :: "'d StorageOps"
proof unfold_locales
  fix s :: "'d SealedStore"
  show "cs_list (sealed_ops C g ops) (cs_clear (sealed_ops C g ops) s) = []"
    by (cases "flush C g ops (s\<lparr>sd_db := (sd_db s)\<lparr>db_cache := []\<rparr>\<rparr>)") (auto simp: sealed_defs dest: flush_db)
qed (auto simp: sealed_defs dest!: flush_db split: option.splits prod.splits result.splits)

section \<open>What a start finds\<close>

text \<open>The database a record holds, when it authenticates and decodes, and the database that the
  records of the two slots make, \<open>None\<close> when the store refuses to open.\<close>

definition record_db :: "CborOps \<Rightarrow> Aead \<Rightarrow> bytes \<Rightarrow> bytes \<Rightarrow> Database option" where
  "record_db C g key blob =
     (if length blob < NONCE_LEN + TAG_LEN then None
      else case and_then (unseal g key (take NONCE_LEN blob) (drop NONCE_LEN blob) MAX_SEALED_PLAIN) (decode_db C) of
          Err _ \<Rightarrow> None | Ok db \<Rightarrow> Some db)"

definition open_start :: OpenState where
  "open_start = \<lparr>os_state = db_empty, os_state_sequence = None, os_saw_blob = False, os_failed = None\<rparr>"

definition open_slot :: "CborOps \<Rightarrow> Aead \<Rightarrow> bytes \<Rightarrow> (u32 \<times> bytes) option \<Rightarrow> OpenState \<Rightarrow> OpenState" where
  "open_slot C g key r s = (case r of None \<Rightarrow> s | Some (sq, p) \<Rightarrow> open_record C g key s sq p)"

definition open_refused :: "OpenState \<Rightarrow> bool" where
  "open_refused s \<longleftrightarrow> os_saw_blob s \<and> (case os_failed s of None \<Rightarrow> False
     | Some failed \<Rightarrow> (case os_state_sequence s of None \<Rightarrow> True | Some selected \<Rightarrow> failed > selected))"

definition sealed_view ::
    "CborOps \<Rightarrow> Aead \<Rightarrow> bytes \<Rightarrow> (u32 \<times> bytes) option \<Rightarrow> (u32 \<times> bytes) option \<Rightarrow> Database option" where
  "sealed_view C g key r0 r1 =
     (let s = open_slot C g key r1 (open_slot C g key r0 open_start)
      in if open_refused s then None else Some (os_state s))"

definition slot_view :: "CborOps \<Rightarrow> Aead \<Rightarrow> bytes \<Rightarrow> SlotStore \<Rightarrow> bytes \<Rightarrow> Database option" where
  "slot_view C g key st c =
     sealed_view C g key (slot_record MAX_PAYLOAD_BYTES (slot_bytes st c 0)) (slot_record MAX_PAYLOAD_BYTES (slot_bytes st c 1))"

lemma open_record_db:
  "open_record C g key s sq blob =
     (let s = s\<lparr>os_saw_blob := True\<rparr>
      in case record_db C g key blob of
           None \<Rightarrow> note_failed sq s
         | Some db \<Rightarrow>
             if os_state_sequence s = None \<or> db_counter db > db_counter (os_state s)
             then s\<lparr>os_state := db, os_state_sequence := Some sq\<rparr> else s)"
  by (auto simp: open_record_def record_db_def Let_def split: result.splits)

lemma sealed_open_eq:
  assumes "length key = KEY_LEN"
  shows "sealed_open C g ops d base sz key =
    (case open_loop C g ops \<lparr>ss_base = base, ss_slot_size = sz\<rparr> key d open_start [0, 1] of
       (Err e, d) \<Rightarrow> (Err e, d)
     | (Ok s, d) \<Rightarrow>
         if open_refused s then (Err StorageError, d)
         else (Ok \<lparr>sd_device = d, sd_slots = \<lparr>ss_base = base, ss_slot_size = sz\<rparr>, sd_sealer = key, sd_db = os_state s\<rparr>, d))"
  unfolding open_refused_def open_start_def
  using assms by (simp add: sealed_open_def sealer_new_def Let_def del: open_loop.simps)

context faulty_storage
begin

lemma load_slot_truth:
  assumes "valid d" and fit: "slots_fit st dsize" and i: "i = 0 \<or> i = 1"
    and "load_slot ops st d i (replicate MAX_PAYLOAD_BYTES 0) = (r, d', out)"
  shows "valid d' \<and> content d' = content d \<and> (\<forall>x. r = Ok x \<longrightarrow>
    (\<forall>C g key s. (case x of None \<Rightarrow> s | Some (sq, len) \<Rightarrow> open_record C g key s sq (take len out)) =
       open_slot C g key (slot_record MAX_PAYLOAD_BYTES (slot_bytes st (content d) (unat i))) s))"
proof -
  have "read_slot ops st d i (replicate MAX_PAYLOAD_BYTES 0) = (r, d', out)" using assms(4) i by (auto simp: load_slot_def word_le_nat_alt)
  from read_slot_truth [OF assms(1) fit i this] show ?thesis
    by (auto simp: found_def open_slot_def split: option.splits)
qed

lemma open_loop_truth:
  assumes "valid d" and fit: "slots_fit st dsize"
    and o: "open_loop C g ops st key d s [0, 1] = (r, d')"
  shows "valid d' \<and> content d' = content d \<and> (\<forall>x. r = Ok x \<longrightarrow>
    x = open_slot C g key (slot_record MAX_PAYLOAD_BYTES (slot_bytes st (content d) 1))
      (open_slot C g key (slot_record MAX_PAYLOAD_BYTES (slot_bytes st (content d) 0)) s))"
proof -
  let ?z = "replicate MAX_PAYLOAD_BYTES 0 :: bytes"
  obtain r0 d0 o0 where r0: "load_slot ops st d 0 ?z = (r0, d0, o0)" by (rule prod_cases3)
  note t0 = load_slot_truth [OF assms(1) fit _ r0, simplified]
  obtain r1 d1 o1 where r1: "load_slot ops st d0 1 ?z = (r1, d1, o1)" by (rule prod_cases3)
  note t1 = load_slot_truth [OF conjunct1 [OF t0] fit _ r1, simplified]
  show ?thesis
  proof (cases r0)
    case (Err e)
    with o r0 t0 show ?thesis by auto
  next
    case (Ok x0)
    let ?s0 = "open_slot C g key (slot_record MAX_PAYLOAD_BYTES (slot_bytes st (content d) 0)) s"
    have s0: "(case x0 of None \<Rightarrow> s | Some (sq, len) \<Rightarrow> open_record C g key s sq (take len o0)) = ?s0" using t0 Ok by blast
    have "open_loop C g ops st key d s [0, 1] = open_loop C g ops st key d0 ?s0 [1]"
      unfolding s0 [symmetric] using r0 Ok by (cases x0) auto
    with o r1 t0 t1 show ?thesis
      by (cases r1) (auto split: option.splits)
  qed
qed

text \<open>A start that succeeds shows the database of the two slots.\<close>

lemma sealed_open_truth:
  assumes "valid d" and "slots_fit \<lparr>ss_base = base, ss_slot_size = sz\<rparr> dsize"
    and o: "sealed_open C g ops d base sz key = (r, d')"
  shows "valid d' \<and> content d' = content d \<and> (\<forall>s. r = Ok s \<longrightarrow> length key = KEY_LEN \<and>
    slot_view C g key \<lparr>ss_base = base, ss_slot_size = sz\<rparr> (content d) = Some (sd_db s) \<and>
    sd_device s = d' \<and> sd_slots s = \<lparr>ss_base = base, ss_slot_size = sz\<rparr> \<and> sd_sealer s = key)"
proof (cases "length key = KEY_LEN")
  case False
  with o assms(1) show ?thesis by (auto simp: sealed_open_def sealer_new_def)
next
  case True
  let ?st = "\<lparr>ss_base = base, ss_slot_size = sz\<rparr>"
  obtain q d1 where q: "open_loop C g ops ?st key d open_start [0, 1] = (q, d1)" by (rule prod.exhaust)
  note t = open_loop_truth [OF assms(1,2) q]
  from o [unfolded sealed_open_eq [OF True] q] t True show ?thesis by (auto simp: slot_view_def sealed_view_def Let_def split: result.splits if_splits)
qed

end

section \<open>The codec of the database\<close>

definition db_wf :: "Database \<Rightarrow> bool" where
  "db_wf db \<longleftrightarrow> length (db_cache db) \<le> MAX_CREDENTIALS \<and> (\<forall>c \<in> set (db_cache db). credential_wf c \<and> utf8 (cred_rp_id c)) \<and>
     (\<forall>h. db_pin_hash db = Some h \<longrightarrow> length h = 32)"

lemma storage_err_simps [simp]: "storage_err (Ok x) = Ok x" "storage_err (Err e) = Err StorageError"
  by (simp_all add: storage_err_def)

lemma four: "(4 :: nat) = Suc (Suc (Suc (Suc 0)))" by simp

context cbor
begin

lemma cache_loop:
  assumes "\<forall>c \<in> set cs. credential_wf c \<and> utf8 (cred_rp_id c)" and "length acc + length cs \<le> MAX_CREDENTIALS"
  shows "loop_n (length cs) (cache_entry C) acc (concat (map (credential_encode C) cs) @ rest) = Ok (acc @ cs, rest)"
  using assms
proof (induction cs arbitrary: acc)
  case (Cons c cs)
  then have "cache_entry C acc (credential_encode C c @ concat (map (credential_encode C) cs) @ rest)
      = Ok (acc @ [c], concat (map (credential_encode C) cs) @ rest)"
    by (simp add: cache_entry_def credential_roundtrip vec_push_def)
  with Cons show ?case by simp
qed simp

lemma decode_encode_db:
  assumes "db_wf db" and "encode_db C db n = Ok plain"
  shows "decode_db C plain = Ok db"
proof -
  have len: "length (db_cache db) < 2 ^ 64" using assms(1) by (simp add: db_wf_def)
  have loop: "loop_n (length (db_cache db)) (cache_entry C) [] (concat (map (credential_encode C) (db_cache db)) @ rest)
      = Ok (db_cache db, rest)" for rest
    using cache_loop [of "db_cache db" "[]" rest] assms(1) by (simp add: db_wf_def)
  have four_map: "d_map C (e_map C 4 @ r) = Ok (Some 4, r)" for r using map_law by simp
  define body where "body = e_u8 C 0 @ e_u64 C (db_counter db) @
          e_u8 C 1 @ e_array C (length (db_cache db)) @ concat (map (credential_encode C) (db_cache db)) @
          e_u8 C 2 @ (case db_pin_hash db of Some h \<Rightarrow> e_bytes C h | None \<Rightarrow> e_null C) @
          e_u8 C 3 @ e_u8 C (db_pin_retries db)"
  have plain: "plain = e_map C 4 @ body" using assms(2) by (simp add: encode_db_def body_def Let_def split: if_splits)
  have pin: "db_entry C x (e_u8 C 2 @ (case db_pin_hash db of Some h \<Rightarrow> e_bytes C h | None \<Rightarrow> e_null C) @ r)
      = Ok (x\<lparr>db_pin_hash := db_pin_hash db\<rparr>, r)" for x r
    using assms(1) by (auto simp: db_entry_def u8_law null_law null_type bytes_law bytes_type db_wf_def split: option.splits)
  have retries: "db_entry C x (e_u8 C 3 @ e_u8 C v) = Ok (x\<lparr>db_pin_retries := v\<rparr>, [])" for x v
    using u8_law [of _ "[]"] by (simp add: db_entry_def u8_law)
  have counter: "db_entry C x (e_u8 C 0 @ e_u64 C v @ r) = Ok (x\<lparr>db_counter := v\<rparr>, r)" for x v r
    by (simp add: db_entry_def u8_law u64_law)
  have cache: "db_entry C x (e_u8 C 1 @ e_array C (length (db_cache db)) @ concat (map (credential_encode C) (db_cache db)) @ r)
      = Ok (x\<lparr>db_cache := db_cache db\<rparr>, r)" if "db_cache x = []" for x r
    using that by (simp add: db_entry_def u8_law array_law [OF len] loop)
  have "loop_n 4 (db_entry C) db_empty body = Ok (db, [])"
    unfolding four body_def loop_n.simps by (simp add: counter cache pin retries db_empty_def)
  then show ?thesis by (simp add: decode_db_def plain four_map)
qed

end

text \<open>In the wire format of RFC 8949 a full database of well-formed credentials fits its buffer.\<close>

lemma length_cbor_head: "length (cbor_head m n) \<le> 9" "n < 24 \<Longrightarrow> length (cbor_head m n) = 1" "n < 256 \<Longrightarrow> length (cbor_head m n) \<le> 2"
  by (simp_all add: cbor_head_def)

lemma length_rfc_u8: "length (e_u8 rfc8949 w) \<le> 2" and length_rfc_bytes: "length bs < 256 \<Longrightarrow> length (e_bytes rfc8949 bs) \<le> 2 + length bs"
  and length_rfc_str: "length bs < 256 \<Longrightarrow> length (e_str rfc8949 bs) \<le> 2 + length bs"
  using length_cbor_head(3) by (simp_all add: rfc8949_def)

lemma length_credential:
  assumes "credential_wf c"
  shows "length (credential_encode rfc8949 c) \<le> 219"
proof -
  have keys: "length (e_u8 rfc8949 0) = 1" "length (e_u8 rfc8949 1) = 1" "length (e_u8 rfc8949 2) = 1" "length (e_u8 rfc8949 3) = 1"
    "length (e_u8 rfc8949 4) = 1" "length (e_u8 rfc8949 5) = 1" "length (e_u8 rfc8949 6) = 1" "length (e_map rfc8949 7) = 1"
    "length (e_bool rfc8949 b) = 1" "length (e_u32 rfc8949 w) \<le> 9" for b w
    by (simp_all add: rfc8949_def length_cbor_head)
  have "length (e_i64 rfc8949 (cred_algorithm c)) = 1"
    using assms by (auto simp: credential_wf_def rfc8949_def length_cbor_head(2))
  moreover have "length (e_bytes rfc8949 (cred_id c)) \<le> 34" "length (e_str rfc8949 (cred_rp_id c)) \<le> 66"
    "length (e_bytes rfc8949 (cred_user_id c)) \<le> 66" "length (e_bytes rfc8949 (cred_private_key c)) \<le> 34"
    using assms length_rfc_bytes [of "cred_id c"] length_rfc_str [of "cred_rp_id c"] length_rfc_bytes [of "cred_user_id c"]
      length_rfc_bytes [of "cred_private_key c"] by (auto simp: credential_wf_def)
  ultimately show ?thesis using keys(10) [of "cred_sign_count c"] by (simp add: credential_encode_def keys(1-9))
qed

lemma database_fits:
  assumes "db_wf db"
  shows "\<exists>plain. encode_db rfc8949 db MAX_SEALED_PLAIN = Ok plain"
proof -
  have cs: "length (concat (map (credential_encode rfc8949) cs)) \<le> 219 * length cs" if "\<forall>c \<in> set cs. credential_wf c" for cs
    using that by (induction cs) (auto dest!: length_credential)
  have "length (concat (map (credential_encode rfc8949) (db_cache db))) \<le> 1752"
    using cs [of "db_cache db"] assms by (auto simp: db_wf_def)
  moreover have "length (e_map rfc8949 4) = 1" "length (e_u8 rfc8949 0) = 1" "length (e_u8 rfc8949 1) = 1" "length (e_u8 rfc8949 2) = 1"
    "length (e_u8 rfc8949 3) = 1" "length (e_u64 rfc8949 (db_counter db)) \<le> 9"
    by (simp_all add: rfc8949_def length_cbor_head)
  moreover have "length (e_array rfc8949 (length (db_cache db))) = 1"
    using assms by (simp add: rfc8949_def length_cbor_head(2) db_wf_def)
  moreover have "length (case db_pin_hash db of None \<Rightarrow> e_null rfc8949 | Some h \<Rightarrow> e_bytes rfc8949 h) \<le> 34"
    using assms length_rfc_bytes by (auto simp: db_wf_def rfc8949_def length_cbor_head split: option.splits)
  moreover note length_rfc_u8 [of "db_pin_retries db"]
  ultimately show ?thesis by (simp add: encode_db_def Let_def)
qed

section \<open>Committing\<close>

abbreviation slot_at :: "SlotStore \<Rightarrow> bytes \<Rightarrow> nat \<Rightarrow> (u32 \<times> bytes) option" where
  "slot_at st c i \<equiv> slot_record MAX_PAYLOAD_BYTES (slot_bytes st c i)"

text \<open>No authenticated record has a counter above the running one.\<close>

definition counters_below :: "CborOps \<Rightarrow> Aead \<Rightarrow> bytes \<Rightarrow> SlotStore \<Rightarrow> bytes \<Rightarrow> u64 \<Rightarrow> bool" where
  "counters_below C g key st c n \<longleftrightarrow>
     (\<forall>i \<in> {0, 1}. \<forall>sq p db. slot_at st c i = Some (sq, p) \<longrightarrow> record_db C g key p = Some db \<longrightarrow> db_counter db \<le> n)"

lemma slot_view_selected:
  assumes k: "k = 0 \<or> k = 1" and r: "slot_at st c k = Some (sq, p)" "record_db C g key p = Some db"
    and other: "\<And>sq' p'. slot_at st c (1 - k) = Some (sq', p') \<Longrightarrow>
      (case record_db C g key p' of None \<Rightarrow> \<not> sq < sq' | Some db' \<Rightarrow> db_counter db' < db_counter db \<or> db' = db)"
  shows "slot_view C g key st c = Some db"
proof (cases "slot_at st c (1 - k)")
  case None
  with k r show ?thesis
    by (auto simp: slot_view_def sealed_view_def open_slot_def open_start_def open_record_db open_refused_def Let_def)
next
  case (Some x)
  obtain sq' p' where x: "x = (sq', p')" by (cases x)
  from k r other [OF Some [unfolded x]] Some x show ?thesis
    by (auto simp: slot_view_def sealed_view_def open_slot_def open_start_def open_record_db open_refused_def note_failed_def
        Let_def split: option.splits)
qed

lemma record_db_sealed:
  assumes "gcm_encrypt g key nonce AAD plain = Some (ct, tag)" "length ct = length plain" "length tag = TAG_LEN"
    and "gcm_decrypt g key nonce AAD ct tag = Some plain"
    and "length nonce = NONCE_LEN" and "length plain \<le> MAX_SEALED_PLAIN" and "decode_db C plain = Ok db"
  shows "record_db C g key (nonce @ ct @ tag) = Some db"
  using assms by (simp add: record_db_def unseal_def)

context storage_device
begin

lemma load_slot_ok:
  "valid d \<Longrightarrow> slots_fit st dsize \<Longrightarrow> i = 0 \<or> i = 1 \<Longrightarrow> \<exists>x. fst (load_slot ops st d i out) = Ok x"
  using read_slot_ok [of d st i out] by (auto simp: load_slot_def word_le_nat_alt)

lemma open_loop_ok:
  assumes "valid d" and "slots_fit st dsize"
  shows "\<exists>s' d'. open_loop C g ops st key d s [0, 1] = (Ok s', d')"
proof -
  let ?z = "replicate MAX_PAYLOAD_BYTES 0 :: bytes"
  obtain x0 d0 o0 where r0: "load_slot ops st d 0 ?z = (Ok x0, d0, o0)"
    using load_slot_ok [OF assms, of 0 ?z] by (cases "load_slot ops st d 0 ?z") auto
  have "valid d0" using load_slot_truth [OF assms _ r0] by simp
  then obtain x1 d1 o1 where r1: "load_slot ops st d0 1 ?z = (Ok x1, d1, o1)"
    using load_slot_ok [OF _ assms(2), of d0 1 ?z] by (cases "load_slot ops st d0 1 ?z") auto
  show ?thesis by (cases x0; cases x1) (auto simp: r0 r1 split: prod.splits)
qed

lemma sealed_open_ok:
  assumes "valid d" and "slots_fit st dsize" and "length key = KEY_LEN" and "slot_view C g key st (content d) = Some db"
  shows "\<exists>s d'. sealed_open C g ops d (ss_base st) (ss_slot_size st) key = (Ok s, d') \<and> sd_db s = db"
proof -
  have st: "\<lparr>ss_base = ss_base st, ss_slot_size = ss_slot_size st\<rparr> = st" by simp
  obtain s' d' where o: "open_loop C g ops st key d open_start [0, 1] = (Ok s', d')"
    using open_loop_ok [OF assms(1,2)] by blast
  with open_loop_truth [OF assms(1,2) o] assms(4) show ?thesis
    unfolding sealed_open_eq [OF assms(3)] st o by (auto simp: slot_view_def sealed_view_def Let_def split: if_splits)
qed

end

text \<open>The blob that a flush of the database writes.\<close>

definition flushed :: "Database \<Rightarrow> Database" where
  "flushed db = db\<lparr>db_counter := db_counter db + 1\<rparr>"

definition flush_blob :: "CborOps \<Rightarrow> Aead \<Rightarrow> 'd SealedStore \<Rightarrow> bytes CoreResult" where
  "flush_blob C g s =
     (let db = flushed (sd_db s); nonce = le_bytes 8 (db_counter db) @ replicate 4 0
      in and_then (encode_db C db MAX_SEALED_PLAIN) (\<lambda>plain.
           and_then (seal g (sd_sealer s) nonce plain (MAX_PAYLOAD_BYTES - NONCE_LEN)) (\<lambda>sealed. Ok (nonce @ sealed))))"

lemma flush_eq:
  "flush C g ops s =
     (case flush_blob C g s of
        Err e \<Rightarrow> (Err e, s\<lparr>sd_db := flushed (sd_db s)\<rparr>)
      | Ok blob \<Rightarrow>
          (case slot_store ops (sd_slots s) (sd_device s) blob of
             (Err e, d) \<Rightarrow> (Err e, s\<lparr>sd_db := flushed (sd_db s), sd_device := d\<rparr>)
           | (Ok _, d) \<Rightarrow> (Ok (), s\<lparr>sd_db := flushed (sd_db s), sd_device := d\<rparr>)))"
  unfolding flushed_def by (auto simp: flush_def flush_blob_def flushed_def Let_def and_then_def split: result.splits)

lemma flush_blob_db:
  assumes aead: "\<And>n a p. \<exists>c t. gcm_encrypt g (sd_sealer s) n a p = Some (c, t) \<and> length c = length p \<and> length t = TAG_LEN \<and>
      gcm_decrypt g (sd_sealer s) n a c t = Some p"
    and "cbor C" and "db_wf (sd_db s)" and "encode_db C (flushed (sd_db s)) MAX_SEALED_PLAIN = Ok plain"
  shows "\<exists>blob. flush_blob C g s = Ok blob \<and> length blob \<le> MAX_PAYLOAD_BYTES \<and>
    record_db C g (sd_sealer s) blob = Some (flushed (sd_db s))"
proof -
  let ?nonce = "le_bytes 8 (db_counter (flushed (sd_db s))) @ replicate 4 0"
  obtain c t where ct: "gcm_encrypt g (sd_sealer s) ?nonce AAD plain = Some (c, t)" "length c = length plain" "length t = TAG_LEN"
    "gcm_decrypt g (sd_sealer s) ?nonce AAD c t = Some plain" using aead by blast
  have plain: "length plain \<le> MAX_SEALED_PLAIN" using assms(4) by (auto simp: encode_db_def Let_def split: if_splits)
  have "db_wf (flushed (sd_db s))" using assms(3) by (simp add: db_wf_def flushed_def)
  then have dec: "decode_db C plain = Ok (flushed (sd_db s))" using cbor.decode_encode_db [OF assms(2)] assms(4) by blast
  have "record_db C g (sd_sealer s) (?nonce @ c @ t) = Some (flushed (sd_db s))"
    by (rule record_db_sealed [OF ct _ plain dec]) simp
  moreover have "flush_blob C g s = Ok (?nonce @ c @ t)"
    using assms(4) ct plain by (simp add: flush_blob_def seal_def Let_def)
  ultimately show ?thesis using ct plain by (auto simp: flushed_def)
qed

lemma flush_blob_sealed:
  assumes "\<And>n a p. \<exists>c t. gcm_encrypt g (sd_sealer s) n a p = Some (c, t) \<and> length c = length p \<and> length t = TAG_LEN \<and>
      gcm_decrypt g (sd_sealer s) n a c t = Some p"
    and "cbor C" and "db_wf (sd_db s)" and "flush_blob C g s = Ok blob"
  shows "record_db C g (sd_sealer s) blob = Some (flushed (sd_db s))"
proof -
  from assms(4) obtain plain where "encode_db C (flushed (sd_db s)) MAX_SEALED_PLAIN = Ok plain"
    by (auto simp: flush_blob_def Let_def and_then_def split: result.splits)
  from flush_blob_db [OF assms(1-3) this] assms(4) show ?thesis by auto
qed

section \<open>Properties\<close>

lemma u64_less_succ:
  fixes s :: u64
  assumes "s \<noteq> - 1"
  shows "s < s + 1"
proof -
  have "unat (- 1 :: u64) = 18446744073709551615" by (simp add: unsigned_minus_1_eq_mask mask_eq_exp_minus_1)
  moreover have "unat s \<noteq> unat (- 1 :: u64)" using assms by (simp only: word_unat_eq_iff) simp
  moreover have "unat s < 18446744073709551616" using unsigned_less [of s] by simp
  ultimately have "unat s + 1 < 18446744073709551616" by linarith
  then show ?thesis by (simp add: word_less_nat_alt unat_word_ariths)
qed

text \<open>C15: What a flush commits is what the next start finds. On a working device, with a cipher that
  decrypts what it encrypted and a running database of well-formed credentials, a flush
  succeeds, and opening the store again under the same key yields exactly the running
  database, until one of the two counters (the 64-bit database counter or the 32-bit
  sequence number of the slots) reaches its largest value. The invariant that no
  authenticated record is ahead of the running counter is kept.\<close>

theorem sealed_flush_durable:
  assumes dev: "storage_device ops valid content dsize erasable" "valid (sd_device s)" "slots_fit (sd_slots s) dsize"
      "erasable (slot_offset (sd_slots s) 0) (ss_slot_size (sd_slots s))"
      "erasable (slot_offset (sd_slots s) 1) (ss_slot_size (sd_slots s))"
    and aead: "\<And>n a p. \<exists>c t. gcm_encrypt g (sd_sealer s) n a p = Some (c, t) \<and> length c = length p \<and> length t = TAG_LEN \<and>
      gcm_decrypt g (sd_sealer s) n a c t = Some p" "length (sd_sealer s) = KEY_LEN"
    and db: "cbor C" "db_wf (sd_db s)" "encode_db C (flushed (sd_db s)) MAX_SEALED_PLAIN = Ok plain"
    and below: "counters_below C g (sd_sealer s) (sd_slots s) (content (sd_device s)) (db_counter (sd_db s))"
    and nowrap: "db_counter (sd_db s) \<noteq> - 1" "\<And>q. store_record (sd_slots s) (content (sd_device s)) \<noteq> Some (0xFFFFFFFF, q)"
  shows "\<exists>s' t d. flush C g ops s = (Ok (), s') \<and>
    sealed_open C g ops (sd_device s') (ss_base (sd_slots s)) (ss_slot_size (sd_slots s)) (sd_sealer s) = (Ok t, d) \<and>
    sd_db t = sd_db s' \<and>
    counters_below C g (sd_sealer s) (sd_slots s) (content (sd_device s')) (db_counter (sd_db s'))"
proof -
  let ?st = "sd_slots s" and ?c = "content (sd_device s)" and ?db = "flushed (sd_db s)"
  let ?k = "inactive_slot ?st ?c"
  define sq where "sq = (case store_record ?st ?c of Some (sq, p) \<Rightarrow> sq + 1 | None \<Rightarrow> 1)"
  from flush_blob_db [OF aead(1) db] obtain blob where blob: "flush_blob C g s = Ok blob"
    "length blob \<le> MAX_PAYLOAD_BYTES" "record_db C g (sd_sealer s) blob = Some ?db" by blast
  from storage_device.slot_store_ok [OF dev(1-3) blob(2) dev(4,5)] obtain d' rest where
    st: "slot_store ops ?st (sd_device s) blob = (Ok sq, d')" "valid d'"
    and new: "slot_bytes ?st (content d') ?k = record_header sq blob @ blob @ rest"
    and kept: "slot_bytes ?st (content d') (1 - ?k) = slot_bytes ?st ?c (1 - ?k)" unfolding sq_def by blast
  have rec: "slot_at ?st (content d') ?k = Some (sq, blob)" unfolding new by (rule slot_record_of_record [OF blob(2)])
  have k: "?k = 0 \<or> ?k = 1" by (rule inactive_slot_01)
  have newest: "store_record ?st (content d') = Some (sq, blob)"
    using store_record_next [OF refl kept rec [unfolded sq_def]] nowrap(2) by (simp add: sq_def)
  have less: "db_counter (sd_db s) < db_counter ?db" using u64_less_succ [OF nowrap(1)] by (simp add: flushed_def)
  have older: "db_counter db' < db_counter ?db" if "slot_at ?st (content d') (1 - ?k) = Some (sq', p')"
      "record_db C g (sd_sealer s) p' = Some db'" for sq' p' db'
    using that below less k kept unfolding counters_below_def by (force intro: le_less_trans)
  have view: "slot_view C g (sd_sealer s) ?st (content d') = Some ?db"
  proof (rule slot_view_selected [OF k rec blob(3)])
    fix sq' p' assume o: "slot_at ?st (content d') (1 - ?k) = Some (sq', p')"
    have "\<not> sq < sq'" using newest o rec k by (auto simp: store_record_def newest_def newer_def split: if_splits)
    with older [OF o] show "case record_db C g (sd_sealer s) p' of None \<Rightarrow> \<not> sq < sq'
        | Some db' \<Rightarrow> db_counter db' < db_counter ?db \<or> db' = ?db" by (auto split: option.splits)
  qed
  from storage_device.sealed_open_ok [OF dev(1) st(2) dev(3) aead(2) view] obtain t d where
    t: "sealed_open C g ops d' (ss_base ?st) (ss_slot_size ?st) (sd_sealer s) = (Ok t, d)" "sd_db t = ?db" by blast
  have "counters_below C g (sd_sealer s) ?st (content d') (db_counter ?db)"
    unfolding counters_below_def using older rec blob(3) k by (force intro: less_imp_le)
  with t blob(1) st(1) show ?thesis by (auto simp: flush_eq)
qed

text \<open>C16: A flush is atomic against power loss and failing flash. Whatever the device's writes and
  erases do inside the slot being rewritten, a later start that opens the store finds the
  database committed before or the new one, nothing else. The cipher decrypts what it
  encrypted, and it is authentic in this sense: a record that the flash holds afterwards and that
  authenticates is one that this store sealed, in this flush or earlier; \<open>H\<close> is what it sealed
  earlier, and of that nothing but the committed database has a counter as high as the
  committed one. The flash may thus put back any older record.\<close>

theorem sealed_flush_atomic:
  assumes dev: "faulty_storage ops valid content dsize" "valid (sd_device s)" "slots_fit (sd_slots s) dsize"
    and committed: "store_record (sd_slots s) (content (sd_device s)) = Some (sq, p)"
      "record_db C g (sd_sealer s) p = Some old"
    and aead: "\<And>n a p. \<exists>c t. gcm_encrypt g (sd_sealer s) n a p = Some (c, t) \<and> length c = length p \<and> length t = TAG_LEN \<and>
      gcm_decrypt g (sd_sealer s) n a c t = Some p"
    and db: "cbor C" "db_wf (sd_db s)"
    and history: "\<And>blob db. blob \<in> H \<Longrightarrow> record_db C g (sd_sealer s) blob = Some db \<Longrightarrow>
      db = old \<or> db_counter db < db_counter old"
    and run: "flush C g ops s = (r, s')"
    and authentic: "\<And>i sq' p' db. i = 0 \<or> i = 1 \<Longrightarrow> slot_at (sd_slots s) (content (sd_device s')) i = Some (sq', p') \<Longrightarrow>
      record_db C g (sd_sealer s) p' = Some db \<Longrightarrow> p' \<in> H \<or> flush_blob C g s = Ok p'"
    and restart: "sealed_open C g ops (sd_device s') (ss_base (sd_slots s)) (ss_slot_size (sd_slots s)) (sd_sealer s) = (Ok t, d)"
  shows "sd_db t = old \<or> sd_db t = flushed (sd_db s)"
proof -
  let ?st = "sd_slots s" and ?c = "content (sd_device s)" and ?c' = "content (sd_device s')"
  let ?k = "inactive_slot ?st ?c"
  have st: "\<lparr>ss_base = ss_base ?st, ss_slot_size = ss_slot_size ?st\<rparr> = ?st" by simp
  have k: "?k = 0 \<or> ?k = 1" by (rule inactive_slot_01)
  have s': "valid (sd_device s') \<and> slot_bytes ?st ?c' (1 - ?k) = slot_bytes ?st ?c (1 - ?k)"
  proof (cases "sd_device s' = sd_device s")
    case False
    with run obtain blob q where "slot_store ops ?st (sd_device s) blob = (q, sd_device s')"
      by (auto simp: flush_eq split: result.splits prod.splits)
    note range = faulty_storage.slot_store_range [OF dev this]
    from range slot_bytes_kept [OF conjunct2 [OF range] k] show ?thesis by simp
  qed (use dev(2) in simp)
  have view: "slot_view C g (sd_sealer s) ?st ?c' = Some (sd_db t)"
    using faulty_storage.sealed_open_truth [OF dev(1) conjunct1 [OF s'] _ restart] dev(3) st by simp
  have kept: "slot_at ?st ?c' (1 - ?k) = Some (sq, p)" using s' store_record_active [OF committed(1)] by simp
  have k': "1 - ?k = 0 \<or> 1 - ?k = 1" "1 - (1 - ?k) = ?k" using k by auto
  show ?thesis
  proof (rule ccontr)
    assume "\<not> ?thesis"
    then have "slot_view C g (sd_sealer s) ?st ?c' \<noteq> Some old" "slot_view C g (sd_sealer s) ?st ?c' \<noteq> Some (flushed (sd_db s))"
      using view by auto
    with view slot_view_selected [OF k'(1) kept committed(2), unfolded k'(2)] obtain sq' p' where
      o: "slot_at ?st ?c' ?k = Some (sq', p')" by (cases "slot_at ?st ?c' ?k") auto
    with \<open>slot_view C g (sd_sealer s) ?st ?c' \<noteq> Some old\<close> slot_view_selected [OF k'(1) kept committed(2), unfolded k'(2)]
    have bad: "\<not> (case record_db C g (sd_sealer s) p' of None \<Rightarrow> \<not> sq < sq' | Some db' \<Rightarrow> db_counter db' < db_counter old \<or> db' = old)"
      by auto
    have "db = old \<or> db = flushed (sd_db s) \<or> db_counter db < db_counter old" if "record_db C g (sd_sealer s) p' = Some db" for db
      using authentic [OF k o that] history [OF _ that] flush_blob_sealed [OF aead db] that by auto
    with bad have cases: "record_db C g (sd_sealer s) p' = None \<and> sq < sq' \<or> record_db C g (sd_sealer s) p' = Some (flushed (sd_db s))"
      by (auto split: option.splits)
    have "slot_view C g (sd_sealer s) ?st ?c' \<in> {None, Some old, Some (flushed (sd_db s))}"
      using k kept o committed(2) cases
      by (auto simp: slot_view_def sealed_view_def open_slot_def open_start_def open_record_db open_refused_def note_failed_def Let_def)
    with view \<open>\<not> ?thesis\<close> show False by auto
  qed
qed

text \<open>C6: The store opens only on authenticated data and fails closed. On any device, a start that
  succeeds has found no valid record at all, and then begins empty, or takes the database of a
  record that authenticates and decodes under the key; in that case no record with a
  higher sequence number fails to authenticate, so that tampering with the newest record
  does not roll the store back to the older one.\<close>

theorem sealed_open_authentic:
  assumes "faulty_storage ops valid content dsize" and "valid d" and "slots_fit \<lparr>ss_base = base, ss_slot_size = sz\<rparr> dsize"
    and "sealed_open C g ops d base sz key = (Ok t, d')"
  shows "(\<forall>i \<in> {0, 1}. slot_at (sd_slots t) (content d) i = None) \<and> sd_db t = db_empty \<or>
    (\<exists>i \<in> {0, 1}. \<exists>sq p. slot_at (sd_slots t) (content d) i = Some (sq, p) \<and> record_db C g key p = Some (sd_db t) \<and>
      (\<forall>j \<in> {0, 1}. \<forall>sq' p'. slot_at (sd_slots t) (content d) j = Some (sq', p') \<longrightarrow> record_db C g key p' = None \<longrightarrow> sq' \<le> sq))"
proof -
  let ?st = "\<lparr>ss_base = base, ss_slot_size = sz\<rparr>"
  have view: "slot_view C g key ?st (content d) = Some (sd_db t)" and st: "sd_slots t = ?st"
    using faulty_storage.sealed_open_truth [OF assms] by auto
  obtain r0 r1 where r: "slot_at ?st (content d) 0 = r0" "slot_at ?st (content d) 1 = r1" by simp
  from view r show ?thesis
    unfolding st
    by (cases r0; cases r1)
       (auto simp: slot_view_def sealed_view_def open_slot_def open_start_def open_record_db open_refused_def note_failed_def
         Let_def not_less split: option.splits if_splits)
qed

subsection \<open>Concrete devices\<close>

definition demo_aead :: Aead where
  "demo_aead = \<lparr>gcm_encrypt = (\<lambda>k n a p. Some (p, take 16 k)), gcm_decrypt = (\<lambda>k n a c t. if t = take 16 k then Some c else None)\<rparr>"

definition blank_sealed :: "RamStorage SealedStore" where
  "blank_sealed = \<lparr>sd_device = \<lparr>ram_data = replicate 8192 0xFF\<rparr>, sd_slots = demo_store, sd_sealer = replicate 32 1, sd_db = db_empty\<rparr>"

lemma demo_fit: "slots_fit demo_store 8192"
  by (simp add: slots_fit_def demo_store_def)

lemma blank_slots: "i = 0 \<or> i = 1 \<Longrightarrow> slot_at demo_store (replicate 8192 0xFF) i = None"
  by (auto simp: demo_store_def slot_bytes_def slot_start_def slot_record_def blank_magic Let_def)

theorem sealed_flush_durable_witness:
  "\<exists>s' t d. flush rfc8949 demo_aead ram_ops blank_sealed = (Ok (), s') \<and>
    sealed_open rfc8949 demo_aead ram_ops (sd_device s') 0 4096 (replicate 32 1) = (Ok t, d) \<and> sd_db t = sd_db s'"
proof -
  have "store_record demo_store (replicate 8192 0xFF) = None" by (simp add: store_record_def newest_def blank_slots)
  moreover have "counters_below rfc8949 demo_aead (replicate 32 1) demo_store (replicate 8192 0xFF) 0"
    by (simp add: counters_below_def blank_slots)
  moreover have "encode_db rfc8949 (flushed db_empty) MAX_SEALED_PLAIN = Ok [164, 0, 1, 1, 128, 2, 246, 3, 8]"
    by (simp add: encode_db_def rfc8949_def cbor_head_def flushed_def db_empty_def)
  moreover have "db_wf db_empty" by (simp add: db_wf_def db_empty_def)
  moreover have "ss_base demo_store = 0" "ss_slot_size demo_store = 4096" by (simp_all add: demo_store_def)
  ultimately show ?thesis
    using sealed_flush_durable [where s = blank_sealed and g = demo_aead and C = rfc8949,
        OF ram.storage_device_axioms [of 8192] _ _ _ _ _ _ rfc.cbor_axioms]
    by (auto simp: blank_sealed_def demo_fit demo_aead_def db_empty_def)
qed

theorem sealed_open_authentic_witness:
  "\<exists>t d'. sealed_open rfc8949 demo_aead ram_ops \<lparr>ram_data = replicate 8192 0xFF\<rparr> 0 4096 (replicate 32 1) = (Ok t, d') \<and>
    ((\<forall>i \<in> {0, 1}. slot_at (sd_slots t) (replicate 8192 0xFF) i = None) \<and> sd_db t = db_empty \<or>
     (\<exists>i \<in> {0, 1}. \<exists>sq p. slot_at (sd_slots t) (replicate 8192 0xFF) i = Some (sq, p) \<and>
       record_db rfc8949 demo_aead (replicate 32 1) p = Some (sd_db t)))"
proof -
  let ?d = "\<lparr>ram_data = replicate 8192 0xFF\<rparr>"
  have "slot_view rfc8949 demo_aead (replicate 32 1) demo_store (replicate 8192 0xFF) = Some db_empty"
    by (simp add: slot_view_def sealed_view_def blank_slots open_slot_def open_start_def open_refused_def Let_def)
  from ram.sealed_open_ok [of ?d 8192 demo_store, OF _ demo_fit, where C = rfc8949 and g = demo_aead and key = "replicate 32 1"] this
  obtain t d' where o: "sealed_open rfc8949 demo_aead ram_ops ?d 0 4096 (replicate 32 1) = (Ok t, d')"
    by (auto simp: demo_store_def)
  from sealed_open_authentic [OF ram.faulty_storage_axioms [of 8192] _ _ o] demo_fit o show ?thesis
    by (fastforce simp: demo_store_def)
qed

text \<open>A flash that refuses every write, with one committed record.\<close>

definition committed_plain :: bytes where
  "committed_plain = [164, 0, 1, 1, 128, 2, 246, 3, 8]"

definition committed_blob :: bytes where
  "committed_blob = le_bytes 8 (1 :: u64) @ replicate 4 0 @ committed_plain @ replicate 16 1"

definition dead_ops :: "RamStorage StorageOps" where
  "dead_ops = ram_ops\<lparr>st_write := (\<lambda>d off data. (Err StorageError, d)), st_erase := (\<lambda>d off len. (Err StorageError, d))\<rparr>"

definition committed_sealed :: "RamStorage SealedStore" where
  "committed_sealed = \<lparr>sd_device = \<lparr>ram_data = record_header 1 committed_blob @ committed_blob @ replicate 8139 0xFF\<rparr>,
     sd_slots = demo_store, sd_sealer = replicate 32 1, sd_db = (flushed db_empty)\<lparr>db_pin_retries := 7\<rparr>\<rparr>"

lemma dead_storage: "faulty_storage dead_ops (\<lambda>d. length (ram_data d) = 8192) ram_data 8192"
  by unfold_locales (auto simp: dead_ops_def dest: ram.read_truth)

lemma dead_reads: "read_slot dead_ops st d i out = read_slot ram_ops st d i out"
proof -
  have "st_read dead_ops = st_read ram_ops" by (simp add: dead_ops_def)
  then show ?thesis unfolding read_slot_def by (simp only:)
qed

lemma dead_store: "slot_store dead_ops st d payload = (r, d') \<Longrightarrow> d' = d"
proof -
  have s: "read_slot ram_ops st d i out = (r, d', out') \<Longrightarrow> d' = d" for d i out r d' out'
    by (auto simp: read_slot_def ram_ops_def ram_read_def Let_def split: if_splits prod.splits result.splits)
  have "scan dead_ops st d z = (r, d') \<Longrightarrow> d' = d" for z r d'
    by (auto simp: scan_def dead_reads split: prod.splits result.splits option.splits dest!: s)
  then show "slot_store dead_ops st d payload = (r, d') \<Longrightarrow> d' = d"
    by (auto simp: slot_store_def dead_ops_def Let_def case_prod_unfold split: prod.splits result.splits if_splits option.splits)
qed

lemma committed_slots:
  "slot_at demo_store (ram_data (sd_device committed_sealed)) 0 = Some (1, committed_blob)"
  "slot_at demo_store (ram_data (sd_device committed_sealed)) 1 = None"
  "length (ram_data (sd_device committed_sealed)) = 8192"
proof -
  have len: "length (record_header 1 committed_blob) = 16" "length committed_blob = 37"
    by (simp_all add: record_header_def SLOT_MAGIC_def committed_blob_def committed_plain_def)
  then show "length (ram_data (sd_device committed_sealed)) = 8192" by (simp add: committed_sealed_def)
  have "slot_bytes demo_store (ram_data (sd_device committed_sealed)) 0 =
      record_header 1 committed_blob @ committed_blob @ replicate 4043 0xFF"
    using len by (simp add: demo_store_def committed_sealed_def slot_bytes_def slot_start_def)
  then show "slot_at demo_store (ram_data (sd_device committed_sealed)) 0 = Some (1, committed_blob)"
    using slot_record_of_record [of committed_blob 1 "replicate 4043 0xFF"] len by simp
  have "slot_bytes demo_store (ram_data (sd_device committed_sealed)) 1 = replicate 4096 0xFF"
    using len by (simp add: demo_store_def committed_sealed_def slot_bytes_def slot_start_def)
  then show "slot_at demo_store (ram_data (sd_device committed_sealed)) 1 = None"
    by (simp add: slot_record_def blank_magic Let_def)
qed

lemma committed_decodes: "decode_db rfc8949 committed_plain = Ok (flushed db_empty)"
  by (rule rfc.decode_encode_db [where n = MAX_SEALED_PLAIN])
     (simp_all add: encode_db_def rfc8949_def cbor_head_def flushed_def db_empty_def db_wf_def committed_plain_def)

lemma committed_record: "record_db rfc8949 demo_aead (replicate 32 1) committed_blob = Some (flushed db_empty)"
  using committed_decodes
  by (auto simp: record_db_def unseal_def demo_aead_def committed_blob_def and_then_def Let_def split: if_splits result.splits)
     (simp_all add: committed_plain_def)

theorem sealed_flush_atomic_witness:
  "\<exists>r s' t d. flush rfc8949 demo_aead dead_ops committed_sealed = (r, s') \<and>
    sealed_open rfc8949 demo_aead dead_ops (sd_device s') 0 4096 (replicate 32 1) = (Ok t, d) \<and>
    (sd_db t = flushed db_empty \<or> sd_db t = flushed (sd_db committed_sealed))"
proof -
  let ?s = committed_sealed
  obtain r s' where f: "flush rfc8949 demo_aead dead_ops ?s = (r, s')" by (rule prod.exhaust)
  then have d: "sd_device s' = sd_device ?s" by (auto simp: flush_eq dest: dead_store split: result.splits prod.splits)
  have s: "sd_slots ?s = demo_store" "sd_sealer ?s = replicate 32 1" "ss_base demo_store = 0" "ss_slot_size demo_store = 4096"
    by (simp_all add: committed_sealed_def demo_store_def)
  have rec: "store_record demo_store (ram_data (sd_device ?s)) = Some (1, committed_blob)"
    by (simp add: store_record_def newest_def committed_slots [simplified])
  have view: "slot_view rfc8949 demo_aead (replicate 32 1) demo_store (ram_data (sd_device ?s)) = Some (flushed db_empty)"
    by (rule slot_view_selected [OF _ committed_slots(1) committed_record]) (simp_all add: committed_slots(2) [simplified])
  have "open_loop C g dead_ops st key d os xs = open_loop C g ram_ops st key d os xs" for C g st key d os xs
  proof (induction xs arbitrary: d os)
    case (Cons x xs)
    show ?case unfolding open_loop.simps load_slot_def dead_reads Cons.IH ..
  qed simp
  then have "sealed_open rfc8949 demo_aead dead_ops (sd_device s') 0 4096 (replicate 32 1) =
      sealed_open rfc8949 demo_aead ram_ops (sd_device s') 0 4096 (replicate 32 1)"
    by (simp only: sealed_open_eq length_replicate)
  with ram.sealed_open_ok [OF committed_slots(3) demo_fit _ view] d s obtain t d' where
    t: "sealed_open rfc8949 demo_aead dead_ops (sd_device s') 0 4096 (replicate 32 1) = (Ok t, d')" by auto
  have "sd_db t = flushed db_empty \<or> sd_db t = flushed (sd_db ?s)"
  proof (rule sealed_flush_atomic [where s = ?s and H = "{committed_blob}" and g = demo_aead, OF dead_storage committed_slots(3) _ rec [folded s(1)]])
    fix i sq p
    assume "i = 0 \<or> i = 1" "slot_at (sd_slots ?s) (ram_data (sd_device s')) i = Some (sq, p)"
    then show "p \<in> {committed_blob} \<or> flush_blob rfc8949 demo_aead ?s = Ok p" using committed_slots d s by auto
  next
    show "db_wf (sd_db ?s)" by (simp add: committed_sealed_def db_wf_def db_empty_def flushed_def)
  qed (use demo_fit s t f committed_record rfc.cbor_axioms in \<open>auto simp: demo_aead_def\<close>)
  with f t show ?thesis by blast
qed

end
