(* ===== verification/Fido_Session.thy ===== *)
theory Fido_Session
  imports U2f Ctap_Hid Presence
begin

text \<open>The FIDO task of the firmware (\<open>main.rs\<close> of \<open>firmware-universal-rp2350\<close>): the CTAP2 command
  handler with its PIN, assertion and enumeration state, the CTAPHID dispatcher with U2F,
  the wait for user presence with its keepalive reports, and the loop that turns incoming
  reports into outgoing ones. This is where the transport, the authenticator, the
  \<open>clientPIN\<close> handler and the presence state machine meet.

  Shown here: without user presence no credential is created, asserted or erased; a token
  serves one operation with user presence; a pending assertion is continued only by the
  channel that started it; and a request sent as reports is answered as the handler says.\<close>

section \<open>Session state\<close>

record EnumerationState =
  en_rps :: "RpEntry list"
  en_rp_index :: nat
  en_credentials :: "bytes list"
  en_credential_index :: nat

record FidoSession =
  fs_client_pin :: ClientPin
  fs_enumeration :: EnumerationState
  fs_assertion :: "PendingAssertion option"

definition fido_session_new :: FidoSession where
  "fido_session_new = \<lparr>fs_client_pin = client_pin_new,
     fs_enumeration = \<lparr>en_rps = [], en_rp_index = 0, en_credentials = [], en_credential_index = 0\<rparr>, fs_assertion = None\<rparr>"

text \<open>What a command works on: the session, the store and the random generator.\<close>

record ('s, 'g) Fido =
  fd_session :: FidoSession
  fd_store :: 's
  fd_rng :: 'g

definition with_pin :: "ClientPin \<Rightarrow> ('s, 'g) Fido \<Rightarrow> ('s, 'g) Fido" where
  "with_pin cp w = w\<lparr>fd_session := (fd_session w)\<lparr>fs_client_pin := cp\<rparr>\<rparr>"

text \<open>A handler ends, or awaits user presence with a keepalive status and goes on with the
  answer.\<close>

datatype 'a Await = Done 'a | AwaitPresence u8 "bool \<Rightarrow> 'a"

fun resume :: "bool \<Rightarrow> 'a Await \<Rightarrow> 'a" where
  "resume up (Done r) = r"
| "resume up (AwaitPresence status k) = k up"

abbreviation (input) "KEEPALIVE_PROCESSING \<equiv> (0x01 :: u8)"
abbreviation (input) "KEEPALIVE_UP_NEEDED \<equiv> (0x02 :: u8)"

section \<open>Responses\<close>

definition write_status :: "Ctap2Status \<Rightarrow> bytes" where
  "write_status status = [ctap2_code status]"

text \<open>The response buffer has 512 bytes, one of them for the status.\<close>

definition encode_response :: "bytes \<Rightarrow> bytes" where
  "encode_response encoded =
     (case encode_into encoded 511 of Some bs \<Rightarrow> 0x00 # bs | None \<Rightarrow> write_status C2_Other)"

definition respond :: "('a \<Rightarrow> bytes) \<Rightarrow> ('a, Ctap2Status) result \<Rightarrow> bytes" where
  "respond f r = (case r of Ok x \<Rightarrow> f x | Err status \<Rightarrow> write_status status)"

section \<open>Credential management\<close>

definition authorize_management ::
    "FidoCrypto \<Rightarrow> 's StoreOps \<Rightarrow> ClientPin \<Rightarrow> 's \<Rightarrow> bytes \<Rightarrow> bytes \<Rightarrow> ManagementScope
      \<Rightarrow> (unit, Ctap2Status) result \<times> ClientPin" where
  "authorize_management cr ops client_pin store param message scope =
     (case authorize cr ops client_pin store \<lparr>tr_param = Some param, tr_message = message, tr_uv_requested = False,
          tr_operation = Op_CredentialManagement scope\<rparr> of
        (Err e, cp) \<Rightarrow> (Err e, cp) | (Ok _, cp) \<Rightarrow> (Ok (), cp))"

definition credential_response ::
    "CborOps \<Rightarrow> FidoCrypto \<Rightarrow> 's StoreOps \<Rightarrow> 's \<Rightarrow> bytes \<Rightarrow> u32 \<Rightarrow> EnumerateCredentialsResponse option" where
  "credential_response C cr ops store credential_id total_credentials =
     (case cs_get ops store credential_id of
        None \<Rightarrow> None
      | Some credential \<Rightarrow>
          (case cose_public_key C cr credential of
             None \<Rightarrow> None
           | Some key \<Rightarrow> Some \<lparr>ecr_user_id = cred_user_id credential, ecr_credential_id = cred_id credential,
                ecr_public_key = key, ecr_total_credentials = total_credentials\<rparr>))"

definition credential_answer ::
    "CborOps \<Rightarrow> FidoCrypto \<Rightarrow> 's StoreOps \<Rightarrow> 's \<Rightarrow> bytes \<Rightarrow> u32 \<Rightarrow> bytes" where
  "credential_answer C cr ops store i total_credentials =
     (case credential_response C cr ops store i total_credentials of
        Some response \<Rightarrow> encode_response (ecr_encode C response) | None \<Rightarrow> write_status C2_NoCredentials)"

text \<open>The message of a subcommand with parameters: a vector of 128 bytes, whose overflow is
  ignored.\<close>

definition management_message :: "u8 \<Rightarrow> bytes \<Rightarrow> bytes" where
  "management_message sub params = (if 1 + length params \<le> 128 then sub # params else [sub])"

definition with_enumeration :: "EnumerationState \<Rightarrow> ('s, 'g) Fido \<Rightarrow> ('s, 'g) Fido" where
  "with_enumeration en w = w\<lparr>fd_session := (fd_session w)\<lparr>fs_enumeration := en\<rparr>\<rparr>"

definition enumerate_rps ::
    "CborOps \<Rightarrow> FidoCrypto \<Rightarrow> 's StoreOps \<Rightarrow> ('s, 'g) Fido \<Rightarrow> bytes \<times> ('s, 'g) Fido" where
  "enumerate_rps C cr ops w =
     (case list_rps cr ops (fd_store w) of
        [] \<Rightarrow> (write_status C2_NoCredentials, w)
      | first # others \<Rightarrow>
          (encode_response (err_encode C \<lparr>err_rp = first, err_total_rps = of_nat (length (first # others))\<rparr>),
           with_enumeration ((fs_enumeration (fd_session w))\<lparr>en_rps := first # others, en_rp_index := 1\<rparr>) w))"

definition enumerate_credentials ::
    "CborOps \<Rightarrow> FidoCrypto \<Rightarrow> 's StoreOps \<Rightarrow> bytes \<Rightarrow> ('s, 'g) Fido \<Rightarrow> bytes \<times> ('s, 'g) Fido" where
  "enumerate_credentials C cr ops h w =
     (case list_credentials cr ops (fd_store w) h of
        [] \<Rightarrow> (write_status C2_NoCredentials, w)
      | first # others \<Rightarrow>
          (credential_answer C cr ops (fd_store w) first (of_nat (length (first # others))),
           with_enumeration ((fs_enumeration (fd_session w))\<lparr>en_credentials := first # others, en_credential_index := 1\<rparr>) w))"

definition handle_credential_management ::
    "CborOps \<Rightarrow> FidoCrypto \<Rightarrow> 's StoreOps \<Rightarrow> CredentialManagementRequest \<Rightarrow> ('s, 'g) Fido \<Rightarrow> bytes \<times> ('s, 'g) Fido" where
  "handle_credential_management C cr ops request w =
     (let cp = fs_client_pin (fd_session w); store = fd_store w; en = fs_enumeration (fd_session w);
          sub = cm_sub_command request
      in if sub = 0x01 then
           (case cm_pin_uv_auth_param request of
              None \<Rightarrow> (write_status C2_PinRequired, w)
            | Some param \<Rightarrow>
                (case authorize_management cr ops cp store param [0x01] Scope_Device of
                   (Err status, cp) \<Rightarrow> (write_status status, with_pin cp w)
                 | (Ok _, cp) \<Rightarrow> (encode_response (cmr_encode C (creds_metadata ops store)), with_pin cp w)))
         else if sub = 0x02 then
           (case cm_pin_uv_auth_param request of
              None \<Rightarrow> (write_status C2_PinRequired, w)
            | Some param \<Rightarrow>
                (case authorize_management cr ops cp store param [0x02] Scope_Device of
                   (Err status, cp) \<Rightarrow> (write_status status, with_pin cp w)
                 | (Ok _, cp) \<Rightarrow> enumerate_rps C cr ops (with_pin cp w)))
         else if sub = 0x03 then
           (if en_rp_index en < length (en_rps en) then
              (encode_response (err_encode C \<lparr>err_rp = en_rps en ! en_rp_index en, err_total_rps = of_nat (length (en_rps en))\<rparr>),
               with_enumeration (en\<lparr>en_rp_index := en_rp_index en + 1\<rparr>) w)
            else (write_status C2_NoCredentials, w))
         else if sub = 0x04 then
           (case cm_pin_uv_auth_param request of
              None \<Rightarrow> (write_status C2_PinRequired, w)
            | Some param \<Rightarrow>
                (case cm_rp_id_hash request of
                   None \<Rightarrow> (write_status C2_MissingParameter, w)
                 | Some h \<Rightarrow>
                     (case authorize_management cr ops cp store param
                          (management_message 0x04 (cm_sub_command_params request)) (Scope_RelyingPartyHash h) of
                        (Err status, cp) \<Rightarrow> (write_status status, with_pin cp w)
                      | (Ok _, cp) \<Rightarrow> enumerate_credentials C cr ops h (with_pin cp w))))
         else if sub = 0x05 then
           (if en_credential_index en < length (en_credentials en) then
              (credential_answer C cr ops store (en_credentials en ! en_credential_index en) (of_nat (length (en_credentials en))),
               with_enumeration (en\<lparr>en_credential_index := en_credential_index en + 1\<rparr>) w)
            else (write_status C2_NoCredentials, w))
         else if sub = 0x06 then
           (case cm_pin_uv_auth_param request of
              None \<Rightarrow> (write_status C2_PinRequired, w)
            | Some param \<Rightarrow>
                (case cm_credential_id request of
                   None \<Rightarrow> (write_status C2_MissingParameter, w)
                 | Some i \<Rightarrow>
                     (case delete_credential_scoped cr ops store cp (Some param)
                          (management_message 0x06 (cm_sub_command_params request)) i of
                        (res, store, cp) \<Rightarrow> (respond (\<lambda>_. write_status C2_Ok) res, with_pin cp (w\<lparr>fd_store := store\<rparr>)))))
         else (write_status C2_InvalidSubcommand, w))"

section \<open>Commands\<close>

definition handle_make_credential ::
    "CborOps \<Rightarrow> FidoCrypto \<Rightarrow> 's StoreOps \<Rightarrow> 'g fill \<Rightarrow> MakeCredentialRequest \<Rightarrow> ('s, 'g) Fido
      \<Rightarrow> (bytes \<times> ('s, 'g) Fido) Await" where
  "handle_make_credential C cr ops fill request w =
     (case authorize cr ops (fs_client_pin (fd_session w)) (fd_store w)
          \<lparr>tr_param = mc_pin_uv_auth_param request, tr_message = mc_client_data_hash request,
           tr_uv_requested = mc_uv request, tr_operation = Op_MakeCredential (mc_rp_id request)\<rparr> of
        (Err status, cp) \<Rightarrow> Done (write_status status, with_pin cp w)
      | (Ok uv, cp) \<Rightarrow>
          AwaitPresence KEEPALIVE_PROCESSING (\<lambda>up.
            case make_credential C cr ops fill (fd_store w) (fd_rng w) request up uv of
              (res, store, rng) \<Rightarrow>
                (respond (\<lambda>r. encode_response (mcr_encode C r)) res,
                 with_pin (close_user_presence_operation cp uv (is_ok res)) (w\<lparr>fd_store := store, fd_rng := rng\<rparr>))))"

definition handle_get_assertion ::
    "CborOps \<Rightarrow> FidoCrypto \<Rightarrow> 's StoreOps \<Rightarrow> u32 \<Rightarrow> GetAssertionRequest \<Rightarrow> ('s, 'g) Fido
      \<Rightarrow> (bytes \<times> ('s, 'g) Fido) Await" where
  "handle_get_assertion C cr ops channel request w =
     (case authorize cr ops (fs_client_pin (fd_session w)) (fd_store w)
          \<lparr>tr_param = ga_pin_uv_auth_param request, tr_message = ga_client_data_hash request,
           tr_uv_requested = ga_uv request, tr_operation = Op_GetAssertion (ga_rp_id request)\<rparr> of
        (Err status, cp) \<Rightarrow> Done (write_status status, with_pin cp w)
      | (Ok uv, cp) \<Rightarrow>
          AwaitPresence KEEPALIVE_PROCESSING (\<lambda>up.
            if \<not> up then (write_status C2_UpRequired, with_pin cp w)
            else case assertion_candidates ops (fd_store w) request of
                Err status \<Rightarrow> (write_status status, with_pin cp w)
              | Ok [] \<Rightarrow> (write_status C2_NoCredentials, with_pin cp w)
              | Ok (first # others) \<Rightarrow>
                  (case sign_assertion cr ops (fd_store w) first (ga_rp_id request) (ga_client_data_hash request) uv of
                     (res, store) \<Rightarrow>
                       let w = with_pin (close_user_presence_operation cp uv (is_ok res)) (w\<lparr>fd_store := store\<rparr>)
                       in case res of
                            Err status \<Rightarrow> (write_status status, w)
                          | Ok response \<Rightarrow>
                              (encode_response (gar_encode C (response\<lparr>gar_number_of_credentials :=
                                  number_of_credentials (length (first # others)) (ga_allow_list request \<noteq> [])\<rparr>)),
                               w\<lparr>fd_session := (fd_session w)\<lparr>fs_assertion := Some (pending_begin channel (first # others)
                                  (ga_rp_id request) (ga_client_data_hash request) uv)\<rparr>\<rparr>))))"

definition handle_get_next_assertion ::
    "CborOps \<Rightarrow> FidoCrypto \<Rightarrow> 's StoreOps \<Rightarrow> u32 \<Rightarrow> ('s, 'g) Fido \<Rightarrow> bytes \<times> ('s, 'g) Fido" where
  "handle_get_next_assertion C cr ops channel w =
     (case fs_assertion (fd_session w) of
        None \<Rightarrow> (write_status C2_NoCredentials, w)
      | Some state \<Rightarrow>
          (case pending_next state channel of
             (None, state) \<Rightarrow> (write_status C2_NoCredentials, w\<lparr>fd_session := (fd_session w)\<lparr>fs_assertion := Some state\<rparr>\<rparr>)
           | (Some n, state) \<Rightarrow>
               (case sign_assertion cr ops (fd_store w) (na_credential_id n) (na_rp_id n) (na_client_data_hash n) (na_uv n) of
                  (res, store) \<Rightarrow>
                    (respond (\<lambda>r. encode_response (gar_encode C r)) res,
                     w\<lparr>fd_store := store, fd_session := (fd_session w)\<lparr>fs_assertion := Some state\<rparr>\<rparr>))))"

definition retries_encode :: "CborOps \<Rightarrow> u8 \<Rightarrow> bytes" where
  "retries_encode C retries = e_map C 1 @ e_u8 C 3 @ e_u8 C retries"

definition key_agreement_encode :: "CborOps \<Rightarrow> Ec2KeyAgreement \<Rightarrow> bytes" where
  "key_agreement_encode C key = e_map C 1 @ e_u8 C 1 @ ka_encode C key"

definition pin_token_encode :: "CborOps \<Rightarrow> bytes \<Rightarrow> bytes" where
  "pin_token_encode C token = e_map C 1 @ e_u8 C 2 @ e_bytes C token"

definition handle_client_pin ::
    "CborOps \<Rightarrow> FidoCrypto \<Rightarrow> 's StoreOps \<Rightarrow> 'g fill \<Rightarrow> bytes \<Rightarrow> ('s, 'g) Fido \<Rightarrow> bytes \<times> ('s, 'g) Fido" where
  "handle_client_pin C cr ops fill params w =
     (case client_pin_parse C params of
        Err status \<Rightarrow> (write_status status, w)
      | Ok request \<Rightarrow>
          let cp = fs_client_pin (fd_session w); store = fd_store w; sub = cpr_sub_command request
          in if sub = SUB_GET_RETRIES then (encode_response (retries_encode C (get_retries ops store)), w)
             else if sub = SUB_GET_KEY_AGREEMENT then
               (case key_agreement cr fill cp (fd_rng w) of
                  (res, cp, rng) \<Rightarrow>
                    (respond (\<lambda>k. encode_response (key_agreement_encode C k)) res, with_pin cp (w\<lparr>fd_rng := rng\<rparr>)))
             else if sub = SUB_SET_PIN then
               (case set_pin cr ops cp request store of
                  (res, store) \<Rightarrow> (respond (\<lambda>_. write_status C2_Ok) res, w\<lparr>fd_store := store\<rparr>))
             else if sub = SUB_CHANGE_PIN then
               (case change_pin cr ops cp request store of
                  (res, cp, store) \<Rightarrow> (respond (\<lambda>_. write_status C2_Ok) res, with_pin cp (w\<lparr>fd_store := store\<rparr>)))
             else if sub = SUB_GET_PIN_TOKEN \<or> sub = SUB_GET_PIN_UV_AUTH_TOKEN_WITH_PERMISSIONS then
               (case get_pin_token cr ops fill cp request store (fd_rng w) of
                  (res, cp, store, rng) \<Rightarrow>
                    (respond (\<lambda>t. encode_response (pin_token_encode C t)) res,
                     with_pin cp (w\<lparr>fd_store := store, fd_rng := rng\<rparr>)))
             else (write_status C2_InvalidSubcommand, w))"

definition handle_reset :: "'s StoreOps \<Rightarrow> ('s, 'g) Fido \<Rightarrow> (bytes \<times> ('s, 'g) Fido) Await" where
  "handle_reset ops w =
     AwaitPresence KEEPALIVE_PROCESSING (\<lambda>up.
       case reset ops (fd_store w) (fs_client_pin (fd_session w)) up of
         (res, store, cp) \<Rightarrow> (respond (\<lambda>_. write_status C2_Ok) res, with_pin cp (w\<lparr>fd_store := store\<rparr>)))"

definition handle_ctap2 ::
    "CborOps \<Rightarrow> FidoCrypto \<Rightarrow> 's StoreOps \<Rightarrow> 'g fill \<Rightarrow> u32 \<Rightarrow> bytes \<Rightarrow> ('s, 'g) Fido
      \<Rightarrow> (bytes \<times> ('s, 'g) Fido) Await" where
  "handle_ctap2 C cr ops fill channel payload w =
     (case payload of
        [] \<Rightarrow> Done (write_status C2_InvalidLength, w)
      | command # params \<Rightarrow>
          (case parse_request C command params of
             Err status \<Rightarrow> Done (write_status status, w)
           | Ok (R_MakeCredential request) \<Rightarrow> handle_make_credential C cr ops fill request w
           | Ok (R_GetAssertion request) \<Rightarrow> handle_get_assertion C cr ops channel request w
           | Ok R_GetInfo \<Rightarrow>
               Done (encode_response (get_info_encode C (get_info_default\<lparr>gi_cred_mgmt := ps_hash ops (fd_store w) \<noteq> None\<rparr>)), w)
           | Ok R_ClientPin \<Rightarrow> Done (handle_client_pin C cr ops fill params w)
           | Ok R_Reset \<Rightarrow> handle_reset ops w
           | Ok R_GetNextAssertion \<Rightarrow> Done (handle_get_next_assertion C cr ops channel w)
           | Ok R_CredentialManagement \<Rightarrow>
               (case cm_parse C params of
                  Err status \<Rightarrow> Done (write_status status, w)
                | Ok request \<Rightarrow> Done (handle_credential_management C cr ops request w))
           | Ok _ \<Rightarrow> Done (write_status C2_InvalidCommand, w)))"

section \<open>The FIDO task\<close>

text \<open>The wait for presence consumes samples of the button, one per millisecond, and collects the
  keepalive reports it sends; it returns \<open>None\<close> when it is still waiting after the given
  samples.\<close>

fun wait_presence_notifying ::
    "u32 \<Rightarrow> u8 \<Rightarrow> PresenceWaiter \<Rightarrow> u64 \<Rightarrow> bool list \<Rightarrow> (bool \<times> PresenceWaiter \<times> bytes list) option" where
  "wait_presence_notifying channel status guard elapsed [] = None"
| "wait_presence_notifying channel status guard elapsed (pressed # samples) =
     (case waiter_poll guard pressed of
        (Ok True, guard) \<Rightarrow> Some (True, guard, [])
      | (Err _, guard) \<Rightarrow> Some (False, guard, [])
      | (Ok False, guard) \<Rightarrow>
          (let elapsed = elapsed + 1
           in case wait_presence_notifying channel status guard elapsed samples of
                None \<Rightarrow> None
              | Some (up, guard, reports) \<Rightarrow>
                  Some (up, guard, (if elapsed mod 100 = 0 then [keepalive_report channel status] else []) @ reports)))"

record ('s, 'g) FidoTask =
  ft_assembler :: CtapAssembler
  ft_next_channel :: u32
  ft_fido :: "('s, 'g) Fido"
  ft_presence :: PresenceWaiter
  ft_last_command :: u8
  ft_last_status :: u8

abbreviation (input) "CTAPHID_CAPABILITIES \<equiv> (0x0D :: u8)"

text \<open>Resolve the await of a handler: the reports sent meanwhile, the answer and the presence
  source.\<close>

definition run_await ::
    "u32 \<Rightarrow> 'a Await \<Rightarrow> PresenceWaiter \<Rightarrow> bool list \<Rightarrow> (bytes list \<times> 'a \<times> PresenceWaiter) option" where
  "run_await channel a guard samples =
     (case a of
        Done r \<Rightarrow> Some ([], r, guard)
      | AwaitPresence status k \<Rightarrow>
          (case wait_presence_notifying channel status guard 0 samples of
             None \<Rightarrow> None | Some (up, guard, reports) \<Rightarrow> Some (reports, k up, guard)))"

definition handle_msg ::
    "FidoCrypto \<Rightarrow> 's StoreOps \<Rightarrow> bytes \<Rightarrow> 's \<Rightarrow> (U2fResponse \<times> 's) Await" where
  "handle_msg cr ops payload store =
     (if requires_user_presence payload
      then AwaitPresence KEEPALIVE_UP_NEEDED (\<lambda>up. u2f_handle cr ops payload store up)
      else Done (u2f_handle cr ops payload store False))"

definition handle_ctaphid ::
    "CborOps \<Rightarrow> FidoCrypto \<Rightarrow> 's StoreOps \<Rightarrow> 'g fill \<Rightarrow> Message \<Rightarrow> ('s, 'g) FidoTask \<Rightarrow> bool list
      \<Rightarrow> (bytes list \<times> ('s, 'g) FidoTask) option" where
  "handle_ctaphid C cr ops fill message t samples =
     (let channel = msg_channel message; payload = msg_payload message
      in case msg_command message of
           Init \<Rightarrow>
             (case init_response channel payload (ft_next_channel t) CTAPHID_CAPABILITIES of
                (Ok response, n) \<Rightarrow> Some (send_ctaphid channel Init response, t\<lparr>ft_next_channel := n\<rparr>)
              | (Err e, n) \<Rightarrow> Some ([error_report channel e], t\<lparr>ft_next_channel := n\<rparr>))
         | Ping \<Rightarrow> Some (send_ctaphid channel Ping payload, t)
         | Cbor \<Rightarrow>
             (case run_await channel (handle_ctap2 C cr ops fill channel payload (ft_fido t)) (ft_presence t) samples of
                None \<Rightarrow> None
              | Some (reports, (out, fido), guard) \<Rightarrow>
                  Some (reports @ send_ctaphid channel Cbor out,
                    t\<lparr>ft_fido := fido, ft_presence := guard,
                      ft_last_command := (case payload of [] \<Rightarrow> ft_last_command t | command # _ \<Rightarrow> command),
                      ft_last_status := (case out of [] \<Rightarrow> 0 | status # _ \<Rightarrow> status)\<rparr>))
         | Msg \<Rightarrow>
             (case run_await channel (handle_msg cr ops payload (fd_store (ft_fido t))) (ft_presence t) samples of
                None \<Rightarrow> None
              | Some (reports, (response, store), guard) \<Rightarrow>
                  (case u2f_encode_into response 514 of
                     None \<Rightarrow> None
                   | Some out \<Rightarrow>
                       Some (reports @ send_ctaphid channel Msg out,
                         t\<lparr>ft_fido := (ft_fido t)\<lparr>fd_store := store\<rparr>, ft_presence := guard\<rparr>)))
         | Wink \<Rightarrow> Some (send_ctaphid channel Wink [], t)
         | _ \<Rightarrow> Some ([error_report channel InvalidCmd], t))"

fun packet_channel :: "Packet \<Rightarrow> u32" where
  "packet_channel (PacketInit channel _ _ _) = channel"
| "packet_channel (PacketCont channel _ _) = channel"

fun packet_is_init :: "Packet \<Rightarrow> bool" where
  "packet_is_init (PacketInit _ command _ _) = (command = Init)"
| "packet_is_init (PacketCont _ _ _) = False"

text \<open>One turn of the loop of \<open>run_fido\<close>: a report comes in, reports go out.\<close>

definition fido_report ::
    "CborOps \<Rightarrow> FidoCrypto \<Rightarrow> 's StoreOps \<Rightarrow> 'g fill \<Rightarrow> bytes \<Rightarrow> ('s, 'g) FidoTask \<Rightarrow> bool list
      \<Rightarrow> (bytes list \<times> ('s, 'g) FidoTask) option" where
  "fido_report C cr ops fill report t samples =
     (if length report \<noteq> CTAP_REPORT_SIZE then Some ([], t)
      else case ctap_parse_report report of
          Err _ \<Rightarrow> Some ([], t)
        | Ok packet \<Rightarrow>
            (let channel = packet_channel packet
             in if \<not> packet_is_init packet \<and> \<not> allocated_channel channel (ft_next_channel t)
                then Some ([error_report channel InvalidChannel], t)
                else case ctap_accept (ft_assembler t) packet of
                    (Ok (Some message), a) \<Rightarrow> handle_ctaphid C cr ops fill message (t\<lparr>ft_assembler := a\<rparr>) samples
                  | (Ok None, a) \<Rightarrow> Some ([], t\<lparr>ft_assembler := a\<rparr>)
                  | (Err _, a) \<Rightarrow> Some ([error_report channel InvalidSeq], t\<lparr>ft_assembler := a\<rparr>)))"

text \<open>A run of the loop, with the button samples available while each report is handled.\<close>

fun run_fido ::
    "CborOps \<Rightarrow> FidoCrypto \<Rightarrow> 's StoreOps \<Rightarrow> 'g fill \<Rightarrow> (bytes \<times> bool list) list \<Rightarrow> ('s, 'g) FidoTask
      \<Rightarrow> (bytes list \<times> ('s, 'g) FidoTask) option" where
  "run_fido C cr ops fill [] t = Some ([], t)"
| "run_fido C cr ops fill ((report, samples) # inputs) t =
     (case fido_report C cr ops fill report t samples of
        None \<Rightarrow> None
      | Some (out, t) \<Rightarrow>
          (case run_fido C cr ops fill inputs t of None \<Rightarrow> None | Some (outs, t) \<Rightarrow> Some (out @ outs, t)))"

definition fido_task_new :: "PresenceTiming \<Rightarrow> 's \<Rightarrow> 'g \<Rightarrow> ('s, 'g) FidoTask" where
  "fido_task_new timing store rng =
     \<lparr>ft_assembler = ctap_assembler_new, ft_next_channel = 1,
      ft_fido = \<lparr>fd_session = fido_session_new, fd_store = store, fd_rng = rng\<rparr>, ft_presence = waiter_new timing,
      ft_last_command = 0, ft_last_status = 0\<rparr>"

section \<open>What a command can change\<close>

lemma with_pin_simps [simp]:
  "fs_client_pin (fd_session (with_pin cp w)) = cp" "fd_store (with_pin cp w) = fd_store w"
  "fd_rng (with_pin cp w) = fd_rng w" "fs_assertion (fd_session (with_pin cp w)) = fs_assertion (fd_session w)"
  "fs_enumeration (fd_session (with_pin cp w)) = fs_enumeration (fd_session w)"
  by (simp_all add: with_pin_def)

lemma with_enumeration_simps [simp]:
  "fs_client_pin (fd_session (with_enumeration en w)) = fs_client_pin (fd_session w)"
  "fd_store (with_enumeration en w) = fd_store w"
  "fs_assertion (fd_session (with_enumeration en w)) = fs_assertion (fd_session w)"
  by (simp_all add: with_enumeration_def)

lemma parse_request_command:
  "parse_request C c ps = Ok (R_MakeCredential m) \<Longrightarrow> c = 0x01"
  "parse_request C c ps = Ok (R_GetAssertion a) \<Longrightarrow> c = 0x02"
  "parse_request C c ps = Ok R_ClientPin \<Longrightarrow> c = 0x06"
  "parse_request C c ps = Ok R_Reset \<Longrightarrow> c = 0x07"
  "parse_request C c ps = Ok R_GetNextAssertion \<Longrightarrow> c = 0x08"
  "parse_request C c ps = Ok R_CredentialManagement \<Longrightarrow> c = 0x0A"
  by (auto simp: parse_request_def and_then_Ok_iff split: if_splits)

lemma make_credential_absent:
  "make_credential C cr ops fill st rng q False uv = (res, st', rng') \<Longrightarrow> st' = st"
  by (simp add: make_credential_def)

text \<open>Credential management leaves the store alone, but for a deletion that the token allows.\<close>

lemma authorize_management_cases:
  "authorize_management cr ops cp st param m scope = (res, cp') \<Longrightarrow> cp' = cp"
  using authorize_True [of cr ops cp st] authorize_Err [of cr ops cp st]  authorize_False [of cr ops cp st]
  by (auto simp: authorize_management_def split: prod.splits result.splits)
     (metis (full_types) TokenRequest.select_convs(4) token_bound.simps(3))

lemma management_store:
  assumes "handle_credential_management C cr ops q w = (out, w')" and "fd_store w' \<noteq> fd_store w"
  obtains p i res cp' where "cm_sub_command q = 0x06" and "cm_pin_uv_auth_param q = Some p" and "cm_credential_id q = Some i"
    and "delete_credential_scoped cr ops (fd_store w) (fs_client_pin (fd_session w)) (Some p)
      (management_message 0x06 (cm_sub_command_params q)) i = (res, fd_store w', cp')"
  using assms
  by (auto simp: handle_credential_management_def Let_def enumerate_rps_def enumerate_credentials_def
      split: if_splits option.splits prod.splits result.splits list.splits)

context fido_store
begin

lemma pin_command_list:
  "set_pin cr ops cp q st = (r, st') \<Longrightarrow> cs_list ops st' = cs_list ops st"
  "change_pin cr ops cp q st = (r', cp', st') \<Longrightarrow> cs_list ops st' = cs_list ops st"
  "get_pin_token cr ops fill cp q st rng = (r'', cp', st', rng') \<Longrightarrow> cs_list ops st' = cs_list ops st"
  by (auto simp: set_pin_def change_pin_def get_pin_token_def spend_retry_def Let_def
      split: if_splits option.splits result.splits prod.splits bool.splits
      dest!: set_hash_list set_retries_list)

lemma client_pin_list:
  "handle_client_pin C cr ops fill ps w = (out, w') \<Longrightarrow> cs_list ops (fd_store w') = cs_list ops (fd_store w)"
  by (auto simp: handle_client_pin_def Let_def split: if_splits result.splits prod.splits dest: pin_command_list)

end

lemma delete_changed:
  assumes "fido_store ops" and "delete_credential_scoped cr ops st cp p m i = (res, st', cp')" and "st' \<noteq> st"
  shows "\<exists>c. cs_get ops st i = Some c \<and> cs_list ops st' = cache_remove (cs_list ops st) i \<and>
    token_allows cr cp \<lparr>tr_param = p, tr_message = m, tr_uv_requested = False, tr_operation =
      Op_CredentialManagement (Scope_CredentialRelyingParty (Some (cred_rp_id c)))\<rparr>"
proof -
  let ?rq = "\<lparr>tr_param = p, tr_message = m, tr_uv_requested = False, tr_operation =
    Op_CredentialManagement (Scope_CredentialRelyingParty (map_option cred_rp_id (cs_get ops st i)))\<rparr>"
  obtain a cp1 where a: "authorize cr ops cp st ?rq = (a, cp1)" by (rule prod.exhaust)
  with assms(2,3) obtain b c where b: "a = Ok b" and c: "cs_get ops st i = Some c"
    by (auto simp: delete_credential_scoped_def Let_def split: result.splits option.splits)
  then have i: "cred_id c = i" by (simp add: fido_store.get_list [OF assms(1)] cache_get_SomeD)
  obtain u st1 where u: "cs_remove ops st i = (u, st1)" by (rule prod.exhaust)
  with assms(2) a b c i have "st' = st1" by (auto simp: delete_credential_scoped_def Let_def split: result.splits)
  with fido_store.remove_list [OF assms(1) u] have "cs_list ops st' = cache_remove (cs_list ops st) i" by simp
  moreover have "token_allows cr cp ?rq" using authorize_Ok [OF a [unfolded b]] by (auto simp: token_free_def)
  ultimately show ?thesis using c by simp
qed

text \<open>The proof of authorisation that a registration and an assertion carry.\<close>

definition registration_token :: "MakeCredentialRequest \<Rightarrow> TokenRequest" where
  "registration_token m = \<lparr>tr_param = mc_pin_uv_auth_param m, tr_message = mc_client_data_hash m, tr_uv_requested = mc_uv m,
     tr_operation = Op_MakeCredential (mc_rp_id m)\<rparr>"

definition assertion_token :: "GetAssertionRequest \<Rightarrow> TokenRequest" where
  "assertion_token q = \<lparr>tr_param = ga_pin_uv_auth_param q, tr_message = ga_client_data_hash q, tr_uv_requested = ga_uv q,
     tr_operation = Op_GetAssertion (ga_rp_id q)\<rparr>"

definition deletion_token :: "CredentialManagementRequest \<Rightarrow> bytes \<Rightarrow> TokenRequest" where
  "deletion_token q rp = \<lparr>tr_param = cm_pin_uv_auth_param q, tr_message = management_message 0x06 (cm_sub_command_params q),
     tr_uv_requested = False, tr_operation = Op_CredentialManagement (Scope_CredentialRelyingParty (Some rp))\<rparr>"

lemma registration_authorized:
  assumes "resume up (handle_make_credential C cr ops fill m w) = (out, w')" and "fd_store w' \<noteq> fd_store w"
  shows "token_allows cr (fs_client_pin (fd_session w)) (registration_token m) \<or> token_free ops (fd_store w) (registration_token m)"
proof -
  obtain a cp where a: "authorize cr ops (fs_client_pin (fd_session w)) (fd_store w) (registration_token m) = (a, cp)" by (rule prod.exhaust)
  with assms obtain b where "a = Ok b" by (cases a) (auto simp: handle_make_credential_def registration_token_def with_pin_def)
  with a show ?thesis by (intro authorize_Ok) simp
qed

lemma assertion_authorized:
  assumes "resume up (handle_get_assertion C cr ops ch q w) = (out, w')" and "fd_store w' \<noteq> fd_store w"
  shows "token_allows cr (fs_client_pin (fd_session w)) (assertion_token q) \<or> token_free ops (fd_store w) (assertion_token q)"
proof -
  obtain a cp where a: "authorize cr ops (fs_client_pin (fd_session w)) (fd_store w) (assertion_token q) = (a, cp)" by (rule prod.exhaust)
  with assms obtain b where "a = Ok b" by (cases a) (auto simp: handle_get_assertion_def assertion_token_def with_pin_def)
  with a show ?thesis by (intro authorize_Ok) simp
qed

lemma next_assertion_store:
  assumes "handle_get_next_assertion C cr ops ch w = (out, w')" and "fd_store w' \<noteq> fd_store w"
  shows "\<exists>p. fs_assertion (fd_session w) = Some p \<and> pa_channel p = ch \<and> pa_index p < length (pa_credentials p)"
  using assms
  by (auto simp: handle_get_next_assertion_def pending_next_def split: option.splits prod.splits if_splits)

lemma make_credential_needs_presence:
  "resume False (handle_make_credential C cr ops fill m w) = (out, w') \<Longrightarrow> fd_store w' = fd_store w"
  by (auto simp: handle_make_credential_def dest: make_credential_absent split: prod.splits result.splits)

lemma get_assertion_needs_presence:
  "resume False (handle_get_assertion C cr ops ch q w) = (out, w') \<Longrightarrow> fd_store w' = fd_store w"
  by (auto simp: handle_get_assertion_def split: prod.splits result.splits)

lemma reset_needs_presence:
  "resume False (handle_reset ops w) = (out, w') \<Longrightarrow> fd_store w' = fd_store w"
  by (auto simp: handle_reset_def reset_def)

lemmas needs_presence = make_credential_needs_presence get_assertion_needs_presence reset_needs_presence

text \<open>Only a PIN command gives a token permissions.\<close>

definition spent :: "ClientPin \<Rightarrow> bool" where
  "spent cp \<longleftrightarrow> cp_permissions cp = 0"

lemma spent_bound [simp]: "spent (token_bound cp op) = spent cp"
  by (cases op) (simp_all add: spent_def)

lemma spent_closed [simp]:
  "spent cp \<Longrightarrow> spent (close_user_presence_operation cp uv done)" "spent (close_user_presence_operation cp True True)"
  "spent (invalidate_token cp)"
  by (simp_all add: spent_def close_user_presence_operation_def invalidate_token_def)

lemma spent_refuses:
  "spent cp \<Longrightarrow> tr_param rq \<noteq> None \<Longrightarrow> fst (authorize cr ops cp st rq) = Err C2_PinAuthInvalid"
  by (auto simp: spent_def authorize_def Let_def)

lemma spent_authorize:
  assumes "authorize cr ops cp st rq = (r, cp')"
  shows "spent cp' = spent cp"
proof (cases r)
  case (Ok b)
  with assms authorize_True [of cr ops cp st rq cp'] authorize_False [of cr ops cp st rq cp'] show ?thesis
    by (cases b) auto
next
  case (Err e)
  with assms authorize_Err [of cr ops cp st rq e cp'] show ?thesis by simp
qed

lemma spent_management:
  "handle_credential_management C cr ops q w = (out, w') \<Longrightarrow>
     spent (fs_client_pin (fd_session w')) = spent (fs_client_pin (fd_session w))"
  by (auto simp: handle_credential_management_def Let_def enumerate_rps_def enumerate_credentials_def
      delete_credential_scoped_def
      split: if_splits option.splits prod.splits result.splits list.splits
      dest!: authorize_management_cases spent_authorize)

lemma handle_reset_pin:
  "resume up (handle_reset ops w) = (out, w') \<Longrightarrow> spent (fs_client_pin (fd_session w)) \<Longrightarrow> spent (fs_client_pin (fd_session w'))"
  by (auto simp: handle_reset_def reset_def split: if_splits prod.splits result.splits)

lemma spent_make_credential:
  "resume up (handle_make_credential C cr ops fill m w) = (out, w') \<Longrightarrow>
     spent (fs_client_pin (fd_session w)) \<Longrightarrow> spent (fs_client_pin (fd_session w'))"
  by (auto simp: handle_make_credential_def split: prod.splits result.splits dest!: spent_authorize)

lemma spent_get_assertion:
  "resume up (handle_get_assertion C cr ops ch q w) = (out, w') \<Longrightarrow>
     spent (fs_client_pin (fd_session w)) \<Longrightarrow> spent (fs_client_pin (fd_session w'))"
  by (auto simp: handle_get_assertion_def Let_def split: prod.splits result.splits list.splits if_splits dest!: spent_authorize)

lemma next_assertion_pin:
  "handle_get_next_assertion C cr ops ch w = (out, w') \<Longrightarrow> fs_client_pin (fd_session w') = fs_client_pin (fd_session w)"
  by (auto simp: handle_get_next_assertion_def split: option.splits prod.splits)

lemma spent_step:
  assumes "resume up (handle_ctap2 C cr ops fill ch payload w) = (out, w')" and "take 1 payload \<noteq> [0x06]"
    and "spent (fs_client_pin (fd_session w))"
  shows "spent (fs_client_pin (fd_session w'))"
proof (cases payload)
  case (Cons c ps)
  show ?thesis
  proof (cases "parse_request C c ps")
    case (Ok r)
    with parse_request_command [of C c ps] Cons assms show ?thesis
      by (auto simp: handle_ctap2_def split: Ctap2Request.splits result.splits
          dest: handle_reset_pin spent_make_credential spent_get_assertion next_assertion_pin spent_management)
  qed (use assms Cons in \<open>auto simp: handle_ctap2_def\<close>)
qed (use assms in \<open>auto simp: handle_ctap2_def\<close>)

text \<open>A run of requests, each with its channel and the answer to the wait for presence, and the
  responses to it.\<close>

fun fido_run ::
    "CborOps \<Rightarrow> FidoCrypto \<Rightarrow> 's StoreOps \<Rightarrow> 'g fill \<Rightarrow> (u32 \<times> bytes \<times> bool) list \<Rightarrow> ('s, 'g) Fido
      \<Rightarrow> bytes list \<times> ('s, 'g) Fido" where
  "fido_run C cr ops fill [] w = ([], w)"
| "fido_run C cr ops fill ((ch, payload, up) # rs) w =
     (case resume up (handle_ctap2 C cr ops fill ch payload w) of
        (out, w) \<Rightarrow> (case fido_run C cr ops fill rs w of (outs, w) \<Rightarrow> (out # outs, w)))"

definition avoids :: "u8 \<Rightarrow> (u32 \<times> bytes \<times> bool) list \<Rightarrow> bool" where
  "avoids c rs = list_all (\<lambda>(ch, payload, up). take 1 payload \<noteq> [c]) rs"

lemma avoids_Cons [simp]: "avoids c ((ch, p, up) # rs) \<longleftrightarrow> take 1 p \<noteq> [c] \<and> avoids c rs"
  by (simp add: avoids_def)

lemma spent_run:
  assumes "spent (fs_client_pin (fd_session w))" and "avoids 0x06 rs"
  shows "spent (fs_client_pin (fd_session (snd (fido_run C cr ops fill rs w))))"
  using assms
proof (induction rs arbitrary: w)
  case (Cons r rs)
  obtain ch p up where r: "r = (ch, p, up)" by (rule prod_cases3)
  obtain out w' where step: "resume up (handle_ctap2 C cr ops fill ch p w) = (out, w')" by (rule prod.exhaust)
  with Cons r spent_step [OF step] have "spent (fs_client_pin (fd_session w'))" by auto
  with Cons r have "spent (fs_client_pin (fd_session (snd (fido_run C cr ops fill rs w'))))" by simp
  then show ?case using step r by (auto split: prod.splits)
qed simp

lemma authorize_with_param:
  "authorize cr ops cp st rq = (Ok uv, cp') \<Longrightarrow> tr_param rq \<noteq> None \<Longrightarrow> uv"
  using authorize_False [of cr ops cp st rq cp'] by (cases uv) auto

lemma respond_body: "Suc 0 < length (respond f r) \<Longrightarrow> is_ok r"
  by (cases r) (simp_all add: respond_def write_status_def)

lemma make_credential_spends:
  assumes "resume up (handle_make_credential C cr ops fill m w) = (out, w')" and "mc_pin_uv_auth_param m \<noteq> None"
    and "1 < length out"
  shows "spent (fs_client_pin (fd_session w'))"
  using assms
  by (auto simp: handle_make_credential_def write_status_def split: prod.splits result.splits
      dest!: authorize_with_param respond_body)

lemma get_assertion_spends:
  assumes "resume up (handle_get_assertion C cr ops ch q w) = (out, w')" and "ga_pin_uv_auth_param q \<noteq> None"
    and "1 < length out"
  shows "spent (fs_client_pin (fd_session w'))"
  using assms
  by (auto simp: handle_get_assertion_def write_status_def Let_def
      split: prod.splits result.splits list.splits if_splits dest!: authorize_with_param)

text \<open>How many assertions are still pending, and for which channel.\<close>

definition pending_left :: "('s, 'g) Fido \<Rightarrow> nat" where
  "pending_left w = (case fs_assertion (fd_session w) of None \<Rightarrow> 0 | Some p \<Rightarrow> length (pa_credentials p) - pa_index p)"

definition pending_channel :: "u32 \<Rightarrow> ('s, 'g) Fido \<Rightarrow> bool" where
  "pending_channel ch w \<longleftrightarrow> (\<forall>p. fs_assertion (fd_session w) = Some p \<longrightarrow> pa_channel p = ch)"

lemma next_assertion_left:
  assumes "handle_get_next_assertion C cr ops ch w = (out, w')" and "pending_channel ch0 w"
  shows "pending_channel ch0 w' \<and> pending_left w' \<le> pending_left w \<and>
    (1 < length out \<longrightarrow> ch = ch0 \<and> pending_left w = Suc (pending_left w'))"
  using assms
  by (auto simp: handle_get_next_assertion_def pending_next_def pending_left_def pending_channel_def write_status_def
      split: option.splits prod.splits if_splits)

lemma other_pending:
  "handle_client_pin C cr ops fill ps w = (out, w') \<Longrightarrow> fs_assertion (fd_session w') = fs_assertion (fd_session w)"
  "handle_credential_management C cr ops q w = (out, w') \<Longrightarrow> fs_assertion (fd_session w') = fs_assertion (fd_session w)"
  "resume up (handle_make_credential C cr ops fill m w) = (out, w') \<Longrightarrow> fs_assertion (fd_session w') = fs_assertion (fd_session w)"
  "resume up (handle_reset ops w) = (out, w') \<Longrightarrow> fs_assertion (fd_session w') = fs_assertion (fd_session w)"
  subgoal by (auto simp: handle_client_pin_def Let_def split: if_splits result.splits prod.splits)
  subgoal by (auto simp: handle_credential_management_def Let_def enumerate_rps_def enumerate_credentials_def
      split: if_splits option.splits prod.splits result.splits list.splits)
  subgoal by (auto simp: handle_make_credential_def split: result.splits prod.splits)
  subgoal by (auto simp: handle_reset_def split: result.splits prod.splits)
  done

lemma other_step_pending:
  assumes "resume up (handle_ctap2 C cr ops fill ch payload w) = (out, w')" and "take 1 payload \<noteq> [0x02]" and "take 1 payload \<noteq> [0x08]"
  shows "fs_assertion (fd_session w') = fs_assertion (fd_session w)"
proof (cases payload)
  case (Cons c ps)
  show ?thesis
  proof (cases "parse_request C c ps")
    case (Ok r)
    with parse_request_command [of C c ps] Cons assms show ?thesis
      by (auto simp: handle_ctap2_def split: Ctap2Request.splits result.splits dest: other_pending)
  qed (use assms Cons in \<open>auto simp: handle_ctap2_def\<close>)
qed (use assms in \<open>auto simp: handle_ctap2_def\<close>)

text \<open>The requests for a further assertion that were answered with one.\<close>

definition further_assertions :: "(u32 \<times> bytes \<times> bool) list \<Rightarrow> bytes list \<Rightarrow> (u32 \<times> bytes) list" where
  "further_assertions rs outs = [(ch, out). ((ch, payload, up), out) \<leftarrow> zip rs outs, take 1 payload = [0x08] \<and> 1 < length out]"

lemma further_run:
  assumes "fido_run C cr ops fill rs w = (outs, w')" and "pending_channel ch0 w"
    and "avoids 0x02 rs"
  shows "length (further_assertions rs outs) \<le> pending_left w \<and> (\<forall>x \<in> set (further_assertions rs outs). fst x = ch0)"
  using assms
proof (induction rs arbitrary: w outs)
  case (Cons r rs)
  obtain ch p up where r: "r = (ch, p, up)" by (rule prod_cases3)
  obtain out w1 where step: "resume up (handle_ctap2 C cr ops fill ch p w) = (out, w1)" by (rule prod.exhaust)
  from Cons.prems(1) step r obtain outs1 where run: "fido_run C cr ops fill rs w1 = (outs1, w')" and outs: "outs = out # outs1"
    by (auto split: prod.splits)
  have fa: "further_assertions (r # rs) outs =
      (if take 1 p = [0x08] \<and> 1 < length out then [(ch, out)] else []) @ further_assertions rs outs1"
    by (simp add: further_assertions_def r outs)
  have av: "take 1 p \<noteq> [0x02]" "avoids 0x02 rs" using Cons.prems(3) by (simp_all add: r)
  note ih = Cons.IH [OF run _ av(2)]
  show ?case
  proof (cases "take 1 p = [0x08]")
    case True
    then obtain ps where p: "p = 0x08 # ps" by (cases p) auto
    from step have "handle_get_next_assertion C cr ops ch w = (out, w1)"
      by (simp add: p handle_ctap2_def parse_request_def)
    from next_assertion_left [OF this Cons.prems(2)] ih show ?thesis by (auto simp: fa)
  next
    case False
    with other_step_pending [OF step av(1)] have "fs_assertion (fd_session w1) = fs_assertion (fd_session w)" by simp
    then have "pending_left w1 = pending_left w" "pending_channel ch0 w1"
      using Cons.prems(2) by (simp_all add: pending_left_def pending_channel_def)
    with ih False show ?thesis by (auto simp: fa)
  qed
qed (simp add: further_assertions_def)

lemma get_assertion_pending:
  assumes "resume up (handle_get_assertion C cr ops ch q w) = (out, w')" and "1 < length out"
  shows "\<exists>cs. assertion_candidates ops (fd_store w) q = Ok cs \<and> pending_channel ch w' \<and> Suc (pending_left w') = length cs"
  using assms
  by (auto simp: handle_get_assertion_def write_status_def Let_def pending_left_def pending_channel_def pending_begin_def
      split: prod.splits result.splits list.splits if_splits)

section \<open>From reports to requests\<close>

text \<open>Every report of a message carries the message's channel, so on an allocated channel the
  loop feeds all of them to the assembler.\<close>

lemma conts_addressed:
  "r \<in> set (frag_conts CONT_DATA_LEN (ctap_cont ch) i xs) \<Longrightarrow>
     length r = CTAP_REPORT_SIZE \<and> (\<exists>pk. ctap_parse_report r = Ok pk \<and> packet_channel pk = ch)"
proof (induction xs arbitrary: i rule: length_induct)
  case (1 xs)
  then have "xs \<noteq> []" by auto
  with 1 have "r = ctap_cont ch i (take CONT_DATA_LEN xs) \<or>
      r \<in> set (frag_conts CONT_DATA_LEN (ctap_cont ch) (Suc i) (drop CONT_DATA_LEN xs))"
    by (subst (asm) (2) frag_conts.simps) auto
  moreover have "length (drop CONT_DATA_LEN xs) < length xs" using \<open>xs \<noteq> []\<close> by simp
  moreover have "length (ctap_cont ch i (take CONT_DATA_LEN xs)) = CTAP_REPORT_SIZE" by (simp add: ctap_cont_def)
  moreover have "ctap_parse_report (ctap_cont ch i d) = Ok (PacketCont ch (seq_of i) (pad 59 d))" for d
    unfolding ctap_cont_def by (rule parse_cont [OF seq_of_le])
  ultimately show ?case using 1(1) [rule_format, of "drop CONT_DATA_LEN xs" "Suc i"] 1(2) by auto
qed

lemma send_addressed:
  assumes "r \<in> set (send_ctaphid ch cmd p)"
  shows "length r = CTAP_REPORT_SIZE \<and> (\<exists>pk. ctap_parse_report r = Ok pk \<and> packet_channel pk = ch)"
  using assms conts_addressed [of r ch 0] parse_init [of ch]
  unfolding send_ctaphid_eq fragment_def by (auto simp: ctap_first_def)

lemma run_fido_feed:
  assumes "feed_all ctap_step (ft_assembler t) rs = (replicate (length rs - 1) (Ok None) @ [Ok (Some m)], a)"
    and "rs \<noteq> []" and "length samples = length rs" and "allocated_channel ch (ft_next_channel t)"
    and "\<And>r. r \<in> set rs \<Longrightarrow> length r = CTAP_REPORT_SIZE \<and> (\<exists>pk. ctap_parse_report r = Ok pk \<and> packet_channel pk = ch)"
  shows "run_fido C cr ops fill (zip rs samples) t =
    handle_ctaphid C cr ops fill m (t\<lparr>ft_assembler := a\<rparr>) (last samples)"
  using assms
proof (induction rs arbitrary: t samples)
  case (Cons r rs)
  from Cons.prems(3) obtain sm sms where sm: "samples = sm # sms" "length sms = length rs" by (cases samples) auto
  from Cons.prems(5) [of r] obtain pk where pk: "ctap_parse_report r = Ok pk" "packet_channel pk = ch" "length r = CTAP_REPORT_SIZE"
    by auto
  obtain x a1 where acc: "ctap_accept (ft_assembler t) pk = (x, a1)" by (rule prod.exhaust)
  then have step: "ctap_step (ft_assembler t) r = (x, a1)" by (simp add: ctap_step_def pk)
  show ?case
  proof (cases rs)
    case Nil
    with Cons.prems(1) step have "x = Ok (Some m)" "a1 = a" by auto
    with pk acc Cons.prems(4)
    have "fido_report C cr ops fill r t sm = handle_ctaphid C cr ops fill m (t\<lparr>ft_assembler := a\<rparr>) sm"
      by (simp add: fido_report_def Let_def)
    with Nil sm show ?thesis by (simp split: option.splits prod.splits)
  next
    case (Cons r' rs')
    with Cons.prems(1) step have "x = Ok None"
      and feed: "feed_all ctap_step a1 rs = (replicate (length rs - 1) (Ok None) @ [Ok (Some m)], a)"
      by (auto split: prod.splits)
    with pk acc Cons.prems(4) have "fido_report C cr ops fill r t sm = Some ([], t\<lparr>ft_assembler := a1\<rparr>)"
      by (simp add: fido_report_def Let_def)
    moreover have "run_fido C cr ops fill (zip rs sms) (t\<lparr>ft_assembler := a1\<rparr>) =
        handle_ctaphid C cr ops fill m (t\<lparr>ft_assembler := a\<rparr>) (last sms)"
      using Cons.IH [of "t\<lparr>ft_assembler := a1\<rparr>" sms] feed sm(2) Cons Cons.prems(4,5) by simp
    moreover have "sms \<noteq> []" using sm(2) Cons by auto
    ultimately show ?thesis by (simp add: sm(1) split: option.splits prod.splits)
  qed
qed simp

section \<open>Properties\<close>

text \<open>C2: The credentials of the device change only behind a gate. Whatever CTAP2 request arrives on
  whatever channel, if the stored credentials differ afterwards, then it is one of five
  requests. A registration or an assertion, when user presence was confirmed and the
  token allows this very request or none is needed; a reset, when user presence was confirmed;
  the continuation of an assertion that was pending for this channel; or a deletion whose
  parameter authenticates it under the live token, which has the permission and is unbound
  or bound to the relying party that owns the named credential, and then exactly that
  credential is removed.\<close>

theorem credentials_change_gated:
  assumes "fido_store ops" and "resume up (handle_ctap2 C cr ops fill ch payload w) = (out, w')"
    and "cs_list ops (fd_store w') \<noteq> cs_list ops (fd_store w)"
  shows "\<exists>c params. payload = c # params \<and> ((\<exists>m. parse_request C c params = Ok (R_MakeCredential m) \<and> up \<and>
      (token_allows cr (fs_client_pin (fd_session w)) (registration_token m) \<or> token_free ops (fd_store w) (registration_token m))) \<or>
    (\<exists>q. parse_request C c params = Ok (R_GetAssertion q) \<and> up \<and>
      (token_allows cr (fs_client_pin (fd_session w)) (assertion_token q) \<or> token_free ops (fd_store w) (assertion_token q))) \<or>
    parse_request C c params = Ok R_Reset \<and> up \<or>
    parse_request C c params = Ok R_GetNextAssertion \<and>
      (\<exists>p. fs_assertion (fd_session w) = Some p \<and> pa_channel p = ch \<and> pa_index p < length (pa_credentials p)) \<or>
    parse_request C c params = Ok R_CredentialManagement \<and>
      (\<exists>q i cred. cm_parse C params = Ok q \<and> cm_sub_command q = 0x06 \<and> cm_credential_id q = Some i \<and>
        cs_get ops (fd_store w) i = Some cred \<and> token_allows cr (fs_client_pin (fd_session w)) (deletion_token q (cred_rp_id cred)) \<and>
        cs_list ops (fd_store w') = cache_remove (cs_list ops (fd_store w)) i))"
    (is "\<exists>c params. _ \<and> ?P c params")
proof -
  from assms(3) have changed: "fd_store w' \<noteq> fd_store w" by auto
  with assms(2) obtain c params where payload: "payload = c # params" by (cases payload) (auto simp: handle_ctap2_def)
  with assms(2) changed obtain r where r: "parse_request C c params = Ok r"
    by (cases "parse_request C c params") (auto simp: handle_ctap2_def)
  note assms = assms(1) assms(2) [unfolded payload] assms(3)
  have "?P c params"
  proof (cases r)
    case (R_MakeCredential m)
    with assms(2) r have run: "resume up (handle_make_credential C cr ops fill m w) = (out, w')" by (simp add: handle_ctap2_def)
    with registration_authorized [OF run changed] needs_presence(1) [of C cr ops fill m w out w'] changed R_MakeCredential r
    show ?thesis by (cases up) auto
  next
    case (R_GetAssertion q)
    with assms(2) r have run: "resume up (handle_get_assertion C cr ops ch q w) = (out, w')" by (simp add: handle_ctap2_def)
    with assertion_authorized [OF run changed] needs_presence(2) [of C cr ops ch q w out w'] changed R_GetAssertion r
    show ?thesis by (cases up) auto
  next
    case R_Reset
    with assms(2) r changed needs_presence(3) [of ops w out w'] show ?thesis by (cases up) (auto simp: handle_ctap2_def)
  next
    case R_GetNextAssertion
    with assms(2) r changed next_assertion_store [of C cr ops ch w out w'] show ?thesis by (auto simp: handle_ctap2_def)
  next
    case R_ClientPin
    with assms(2,3) r fido_store.client_pin_list [OF assms(1), of C cr fill params w out w'] show ?thesis
      by (auto simp: handle_ctap2_def)
  next
    case R_CredentialManagement
    with assms(2) r changed obtain q where q: "cm_parse C params = Ok q" "handle_credential_management C cr ops q w = (out, w')"
      by (cases "cm_parse C params") (auto simp: handle_ctap2_def)
    from q(2) changed obtain p i res cp' where d: "cm_sub_command q = 0x06" "cm_pin_uv_auth_param q = Some p" "cm_credential_id q = Some i"
      "delete_credential_scoped cr ops (fd_store w) (fs_client_pin (fd_session w)) (Some p)
        (management_message 0x06 (cm_sub_command_params q)) i = (res, fd_store w', cp')" by (rule management_store)
    with delete_changed [OF assms(1) d(4) changed] q(1) r R_CredentialManagement show ?thesis by (auto simp: deletion_token_def)
  qed (use assms(2) r changed in \<open>auto simp: handle_ctap2_def\<close>)
  with payload show ?thesis by blast
qed

text \<open>C11: A token serves one operation that needed user presence. Once a registration or an assertion
  that carried a \<open>pinUvAuthParam\<close> has been answered with a body, every further
  \<open>pinUvAuthParam\<close> is refused, for every operation, whatever other commands arrive on
  whatever channels, until the next PIN command.\<close>

theorem token_single_use:
  assumes "parse_request C c params = Ok (R_MakeCredential m) \<and> mc_pin_uv_auth_param m \<noteq> None \<or>
      parse_request C c params = Ok (R_GetAssertion q) \<and> ga_pin_uv_auth_param q \<noteq> None"
    and "resume up (handle_ctap2 C cr ops fill ch (c # params) w) = (out, w')" and "1 < length out"
    and "avoids 0x06 later" and "tr_param rq \<noteq> None"
  shows "fst (authorize cr ops (fs_client_pin (fd_session (snd (fido_run C cr ops fill later w')))) st rq) =
    Err C2_PinAuthInvalid"
proof -
  have "spent (fs_client_pin (fd_session w'))"
    using assms(1-3) make_credential_spends [of up C cr ops fill m w out w'] get_assertion_spends [of up C cr ops ch q w out w']
    by (auto simp: handle_ctap2_def)
  then show ?thesis by (rule spent_refuses [OF spent_run [OF _ assms(4)] assms(5)])
qed

text \<open>C18: One confirmation of presence for an assertion over \<open>n\<close> candidate credentials yields at most
  \<open>n\<close> signatures. After an answered \<open>authenticatorGetAssertion\<close>, whatever requests
  follow, until the next one of these at most \<open>n - 1\<close> requests for a further
  assertion are answered with one, all of them on the channel of the first request.\<close>

theorem presence_bounds_signatures:
  assumes "parse_request C c params = Ok (R_GetAssertion q)"
    and "resume up (handle_ctap2 C cr ops fill ch (c # params) w) = (out, w')" and "1 < length out"
    and "avoids 0x02 later"
  shows "\<exists>cs. up \<and> assertion_candidates ops (fd_store w) q = Ok cs \<and>
    length (further_assertions later (fst (fido_run C cr ops fill later w'))) < length cs \<and>
    (\<forall>x \<in> set (further_assertions later (fst (fido_run C cr ops fill later w'))). fst x = ch)"
proof -
  have ga: "resume up (handle_get_assertion C cr ops ch q w) = (out, w')" using assms(1,2) by (simp add: handle_ctap2_def)
  from get_assertion_pending [OF ga assms(3)] obtain cs where
    cs: "assertion_candidates ops (fd_store w) q = Ok cs" "pending_channel ch w'" "Suc (pending_left w') = length cs" by blast
  have "up" using ga assms(3) by (auto simp: handle_get_assertion_def write_status_def split: prod.splits result.splits if_splits)
  moreover obtain outs w'' where "fido_run C cr ops fill later w' = (outs, w'')" by (rule prod.exhaust)
  ultimately show ?thesis using further_run [OF _ cs(2) assms(4)] cs by fastforce
qed

text \<open>C19: The transport carries requests to their handlers. A message of up to 1024 bytes sent as
  reports on an allocated channel is reassembled, whatever the assembler held before, and
  handled once, with the answer and the state that its handler gives.\<close>

theorem fido_transport:
  assumes "allocated_channel ch (ft_next_channel t)" and "length p \<le> CTAP_MAX_MESSAGE"
    and "cmd \<in> {Ping, Msg, Lock, Init, Wink, Cbor, Cancel, Keepalive, CmdError}"
    and "length samples = length (send_ctaphid ch cmd p)"
  shows "run_fido C cr ops fill (zip (send_ctaphid ch cmd p) samples) t =
    handle_ctaphid C cr ops fill \<lparr>msg_channel = ch, msg_command = cmd, msg_payload = p\<rparr>
      (t\<lparr>ft_assembler := ctap_assembler_new\<rparr>) (last samples)"
proof -
  from ctap.fragment_reassembles [OF assms(2), of "ft_assembler t" ch cmd] obtain a where
    feed: "feed_all ctap_step (ft_assembler t) (send_ctaphid ch cmd p) =
      (replicate (length (send_ctaphid ch cmd p) - 1) (Ok None) @
       [Ok (Some \<lparr>msg_channel = ch, msg_command = wire_command cmd, msg_payload = p\<rparr>)], a)" and "ca_current a = None"
    by (auto simp: send_ctaphid_eq)
  then have a: "a = ctap_assembler_new" by (simp add: ctap_assembler_new_def)
  have "send_ctaphid ch cmd p \<noteq> []" by (simp add: send_ctaphid_eq fragment_def)
  with run_fido_feed [OF feed _ assms(4,1) send_addressed] wire_known [OF assms(3)] a show ?thesis by simp
qed

section \<open>Concrete runs\<close>

text \<open>A device with two credentials of one relying party and a live token for it.\<close>

definition demo_fido :: "(MemoryStore, u8) Fido" where
  "demo_fido = \<lparr>fd_session = fido_session_new\<lparr>fs_client_pin := demo_token\<lparr>cp_permissions := 6\<rparr>\<rparr>,
     fd_store = memory_new\<lparr>ms_credentials := [demo_credential, demo_credential\<lparr>cred_id := replicate 16 2\<rparr>]\<rparr>, fd_rng = 0\<rparr>"

definition demo_delete :: bytes where
  "demo_delete = 0x0A # e_map rfc8949 3 @ e_u8 rfc8949 1 @ e_u8 rfc8949 6 @ e_u8 rfc8949 2 @ e_bytes rfc8949 (replicate 16 1) @
     e_u8 rfc8949 4 @ e_bytes rfc8949 (take 16 (c_hmac demo_crypto (replicate 32 5) [6]))"

definition demo_assert_params :: bytes where
  "demo_assert_params = e_map rfc8949 3 @ e_i64 rfc8949 1 @ e_str rfc8949 (ascii ''example.com'') @
     e_i64 rfc8949 2 @ e_bytes rfc8949 (replicate 32 7) @
     e_i64 rfc8949 6 @ e_bytes rfc8949 (take 16 (c_hmac demo_crypto (replicate 32 5) (replicate 32 7)))"

theorem credentials_change_gated_witness:
  "\<exists>q cred. cm_parse rfc8949 (tl demo_delete) = Ok q \<and> cs_get memory_ops (fd_store demo_fido) (replicate 16 1) = Some cred \<and>
     token_allows demo_crypto (fs_client_pin (fd_session demo_fido)) (deletion_token q (cred_rp_id cred))"
proof -
  let ?r = "resume False (handle_ctap2 rfc8949 demo_crypto memory_ops demo_fill 1 (0x0A # tl demo_delete) demo_fido)"
  obtain out w' where r: "?r = (out, w')" by (rule prod.exhaust)
  have "cs_list memory_ops (fd_store (snd ?r)) \<noteq> cs_list memory_ops (fd_store demo_fido)"
    and c: "(case parse_request rfc8949 0x0A (tl demo_delete) of Ok R_CredentialManagement \<Rightarrow> True | _ \<Rightarrow> False) \<and>
      (case cm_parse rfc8949 (tl demo_delete) of Ok q \<Rightarrow> cm_credential_id q = Some (replicate 16 1) | Err _ \<Rightarrow> False)"
    by code_simp+
  with r credentials_change_gated [OF memory.fido_store_axioms r] show ?thesis by (auto split: result.splits)
qed

definition demo_first :: "bytes \<times> (MemoryStore, u8) Fido" where
  "demo_first = resume True (handle_ctap2 rfc8949 demo_crypto memory_ops demo_fill 1 (0x02 # demo_assert_params) demo_fido)"

lemma demo_assertion_answered:
  "1 < length (fst demo_first)"
  "case parse_request rfc8949 0x02 demo_assert_params of
     Ok (R_GetAssertion q) \<Rightarrow> ga_pin_uv_auth_param q \<noteq> None \<and>
       (case assertion_candidates memory_ops (fd_store demo_fido) q of Ok cs \<Rightarrow> length cs = 2 | Err _ \<Rightarrow> False)
   | _ \<Rightarrow> False"
  by code_simp+

lemma demo_assertion_request:
  obtains q cs where "parse_request rfc8949 0x02 demo_assert_params = Ok (R_GetAssertion q)" "ga_pin_uv_auth_param q \<noteq> None"
    "assertion_candidates memory_ops (fd_store demo_fido) q = Ok cs" "length cs = 2"
proof (cases "parse_request rfc8949 0x02 demo_assert_params")
  case (Ok r)
  with demo_assertion_answered(2) obtain q where "r = R_GetAssertion q" by (cases r) auto
  with Ok demo_assertion_answered(2) that show thesis by (cases "assertion_candidates memory_ops (fd_store demo_fido) q") auto
qed (use demo_assertion_answered(2) in simp)

theorem token_single_use_witness:
  "fst (authorize demo_crypto memory_ops (fs_client_pin (fd_session (snd (fido_run rfc8949 demo_crypto memory_ops demo_fill
      [(2, [0x04], False), (1, [0x08], False)] (snd demo_first))))) (fd_store demo_fido)
    \<lparr>tr_param = Some (take 16 (c_hmac demo_crypto (replicate 32 5) (replicate 32 7))), tr_message = replicate 32 7,
     tr_uv_requested = False, tr_operation = Op_GetAssertion (ascii ''example.com'')\<rparr>) = Err C2_PinAuthInvalid"
proof -
  obtain out w' where r: "demo_first = (out, w')" by (rule prod.exhaust)
  obtain q cs where q: "parse_request rfc8949 0x02 demo_assert_params = Ok (R_GetAssertion q)" "ga_pin_uv_auth_param q \<noteq> None"
    by (rule demo_assertion_request)
  from demo_assertion_answered(1) have "1 < length out" by (simp add: r)
  from token_single_use [OF disjI2 [OF conjI [OF q]] r [unfolded demo_first_def] this] show ?thesis
    unfolding r snd_conv by (rule meta_mp) (simp_all add: avoids_def)
qed

theorem presence_bounds_signatures_witness:
  "length (further_assertions [(1, [0x08], False), (2, [0x08], False), (1, [0x08], False)]
     (fst (fido_run rfc8949 demo_crypto memory_ops demo_fill
       [(1, [0x08], False), (2, [0x08], False), (1, [0x08], False)] (snd demo_first)))) < 2"
proof -
  obtain out w' where r: "demo_first = (out, w')" by (rule prod.exhaust)
  obtain q cs where q: "parse_request rfc8949 0x02 demo_assert_params = Ok (R_GetAssertion q)"
    "assertion_candidates memory_ops (fd_store demo_fido) q = Ok cs" "length cs = 2"
    by (rule demo_assertion_request)
  from demo_assertion_answered(1) have "1 < length out" by (simp add: r)
  from presence_bounds_signatures [OF q(1) r [unfolded demo_first_def] this,
      of "[(1, [0x08], False), (2, [0x08], False), (1, [0x08], False)]"] q
  show ?thesis by (auto simp: r avoids_def)
qed

text \<open>A ping of two reports on channel 1.\<close>

definition demo_task :: "(MemoryStore, u8) FidoTask" where
  "demo_task = (fido_task_new \<lparr>debounce_ms = 30, timeout_ms = 30000\<rparr> memory_new 0)\<lparr>ft_next_channel := 2\<rparr>"

theorem fido_transport_witness:
  "run_fido rfc8949 demo_crypto memory_ops demo_fill (zip (send_ctaphid 1 Ping (replicate 100 7)) [[], []]) demo_task =
     Some (send_ctaphid 1 Ping (replicate 100 7), demo_task)"
proof -
  have "length (send_ctaphid 1 Ping (replicate 100 7)) = 2" by code_simp
  moreover have "allocated_channel 1 (ft_next_channel demo_task)"
    by (simp add: demo_task_def allocated_channel_def)
  ultimately show ?thesis
    using fido_transport [of 1 demo_task "replicate 100 7" Ping "[[], []]" rfc8949 demo_crypto memory_ops demo_fill]
    by (simp add: handle_ctaphid_def demo_task_def fido_task_new_def)
qed

end
