(* ===== verification/Oath.thy ===== *)
theory Oath
  imports Router Pin_Slot Tlv
begin

text \<open>
  The OATH applet, \<open>crates/aegis-applets/src/oath.rs\<close>: named HOTP and TOTP credentials behind
  an optional access code, their one-time codes, the touch requests, and the serialized
  state. The store behind the applet is any implementation of \<open>OathStore\<close>, a record of its
  three operations; the HMACs and SHA-256 are third-party code, a record of functions. The
  scratch buffers \<open>out\<close> and \<open>state\<close> of the source are cleared before every use, and are
  here the values that the responses and the store receive.

  Shown here: with an access code set, a host that cannot answer the challenge reads and
  changes nothing; an HOTP counter value is used for at most one code, across failing
  writes and power cycles; a touch answers for the credential that asked for it; and a
  stored credential yields the codes of RFC 4226 after a power cycle.
\<close>

abbreviation (input) "OATH_MAX_CREDENTIALS \<equiv> 16 :: nat"
abbreviation (input) "MAX_NAME \<equiv> 64 :: nat"
abbreviation (input) "MAX_SECRET \<equiv> 64 :: nat"
abbreviation (input) "STATE_BYTES \<equiv> 4096 :: nat"
abbreviation (input) "OATH_OUT \<equiv> 2048 :: nat"

abbreviation (input) "INS_PUT \<equiv> 0x01 :: u8"
abbreviation (input) "INS_DELETE \<equiv> 0x02 :: u8"
abbreviation (input) "INS_SET_CODE \<equiv> 0x03 :: u8"
abbreviation (input) "INS_RESET \<equiv> 0x04 :: u8"
abbreviation (input) "INS_LIST \<equiv> 0xA1 :: u8"
abbreviation (input) "INS_CALCULATE \<equiv> 0xA2 :: u8"
abbreviation (input) "INS_VALIDATE \<equiv> 0xA3 :: u8"
abbreviation (input) "INS_CALCULATE_ALL \<equiv> 0xA4 :: u8"

abbreviation (input) "TAG_NAME \<equiv> 0x71 :: u32"
abbreviation (input) "TAG_NAME_LIST \<equiv> 0x72 :: u32"
abbreviation (input) "TAG_KEY \<equiv> 0x73 :: u32"
abbreviation (input) "TAG_CHALLENGE \<equiv> 0x74 :: u32"
abbreviation (input) "TAG_RESPONSE \<equiv> 0x75 :: u32"
abbreviation (input) "TAG_TRUNCATED \<equiv> 0x76 :: u32"
abbreviation (input) "TAG_HOTP \<equiv> 0x77 :: u32"
abbreviation (input) "TAG_PROPERTY \<equiv> 0x78 :: u32"
abbreviation (input) "TAG_VERSION \<equiv> 0x79 :: u32"
abbreviation (input) "TAG_IMF \<equiv> 0x7A :: u32"
abbreviation (input) "TAG_TOUCH \<equiv> 0x7C :: u32"

abbreviation (input) "TYPE_HOTP \<equiv> 0x10 :: u8"
abbreviation (input) "TYPE_TOTP \<equiv> 0x20 :: u8"
abbreviation (input) "ALGORITHM_SHA1 \<equiv> 0x01 :: u8"
abbreviation (input) "ALGORITHM_SHA256 \<equiv> 0x02 :: u8"
abbreviation (input) "ALGORITHM_SHA512 \<equiv> 0x03 :: u8"
abbreviation (input) "PROPERTY_ONLY_INCREASING \<equiv> 0x01 :: u8"
abbreviation (input) "PROPERTY_TOUCH \<equiv> 0x02 :: u8"
abbreviation (input) "STATE_VERSION \<equiv> 1 :: u8"

abbreviation "SW_AUTH_NOT_ENABLED \<equiv> Sw 0x6984"
abbreviation "SW_AUTHENTICATION_FAILED \<equiv> Sw 0x6984"

definition DEVICE_ID :: bytes where
  "DEVICE_ID = [0x41, 0x65, 0x67, 0x69, 0x73, 0x4F, 0x41, 0x54]"

definition DEFAULT_CHALLENGE :: bytes where
  "DEFAULT_CHALLENGE = replicate 8 0xA5"

section \<open>The store\<close>

text \<open>\<open>load\<close> takes the size of the buffer and gives the stored state, the empty one when there is
  none, or \<open>None\<close> when reading failed.\<close>

record 's OathStoreOps =
  ost_load :: "nat \<Rightarrow> 's \<Rightarrow> bytes option \<times> 's"
  ost_save :: "'s \<Rightarrow> bytes \<Rightarrow> bool \<times> 's"
  ost_clear :: "'s \<Rightarrow> bool \<times> 's"

record MemoryOathStore =
  mo_data :: bytes
  mo_len :: nat

definition memory_oath_new :: MemoryOathStore where
  "memory_oath_new = \<lparr>mo_data = replicate STATE_BYTES 0, mo_len = 0\<rparr>"

definition memory_oath_load :: "nat \<Rightarrow> MemoryOathStore \<Rightarrow> bytes option \<times> MemoryOathStore" where
  "memory_oath_load N self =
     (if mo_len self = 0 then (Some [], self)
      else if N < mo_len self then (None, self)
      else (Some (take (mo_len self) (mo_data self)), self))"

definition memory_oath_save :: "MemoryOathStore \<Rightarrow> bytes \<Rightarrow> bool \<times> MemoryOathStore" where
  "memory_oath_save self data =
     (if length data > STATE_BYTES then (False, self)
      else (True, self\<lparr>mo_data := copy_at 0 data (mo_data self), mo_len := length data\<rparr>))"

definition memory_oath_clear :: "MemoryOathStore \<Rightarrow> bool \<times> MemoryOathStore" where
  "memory_oath_clear self = (True, self\<lparr>mo_data := replicate (length (mo_data self)) 0, mo_len := 0\<rparr>)"

definition memory_oath_ops :: "MemoryOathStore OathStoreOps" where
  "memory_oath_ops = \<lparr>ost_load = memory_oath_load, ost_save = memory_oath_save, ost_clear = memory_oath_clear\<rparr>"

section \<open>Primitives\<close>

record OathCrypto =
  oh_sha1 :: "bytes \<Rightarrow> bytes \<Rightarrow> bytes"
  oh_sha256 :: "bytes \<Rightarrow> bytes \<Rightarrow> bytes"
  oh_sha512 :: "bytes \<Rightarrow> bytes \<Rightarrow> bytes"
  oh_digest :: "bytes \<Rightarrow> bytes"

definition hmac_digest :: "OathCrypto \<Rightarrow> u8 \<Rightarrow> bytes \<Rightarrow> bytes \<Rightarrow> bytes option" where
  "hmac_digest cr algorithm key data =
     (if algorithm = ALGORITHM_SHA1 then ok_of (extend_vec 64 () [] (oh_sha1 cr key data))
      else if algorithm = ALGORITHM_SHA256 then ok_of (extend_vec 64 () [] (oh_sha256 cr key data))
      else if algorithm = ALGORITHM_SHA512 then ok_of (extend_vec 64 () [] (oh_sha512 cr key data))
      else None)"

definition derive_challenge :: "OathCrypto \<Rightarrow> bytes \<Rightarrow> bytes \<Rightarrow> bytes" where
  "derive_challenge cr previous input = take 8 (oh_digest cr (previous @ input))"

definition append_tlv :: "nat \<Rightarrow> bytes \<Rightarrow> u32 \<Rightarrow> bytes \<Rightarrow> bytes option" where
  "append_tlv N out tag value =
     (let needed = encoded_len tag (length value)
      in if length out + needed > N then None
         else case tlv_write tag value (replicate needed 0) of
                (Some _, written) \<Rightarrow> Some (out @ written) | (None, _) \<Rightarrow> None)"

definition oath_take :: "nat \<Rightarrow> bytes \<Rightarrow> (bytes \<times> bytes) option" where
  "oath_take n bs = (if n \<le> length bs then Some (take n bs, drop n bs) else None)"

definition oath_take_u8 :: "bytes \<Rightarrow> (u8 \<times> bytes) option" where
  "oath_take_u8 bs = (case bs of [] \<Rightarrow> None | b # bs \<Rightarrow> Some (b, bs))"

section \<open>Credentials\<close>

record OathCredential =
  oc_name :: bytes
  oc_kind :: u8
  oc_algorithm :: u8
  oc_digits :: u8
  oc_property :: u8
  oc_counter :: u32
  oc_period :: u32
  oc_secret :: bytes

record ParsedKey =
  pk_kind :: u8
  pk_algorithm :: u8
  pk_digits :: u8
  pk_secret :: bytes

fun period_loop :: "u32 \<Rightarrow> bytes \<Rightarrow> u32 option" where
  "period_loop period [] = Some period"
| "period_loop period (b # bs) =
     (if \<not> (0x30 \<le> b \<and> b \<le> 0x39) then None
      else period_loop (saturating_add (saturating_mul period 10) (ucast (b - 0x30))) bs)"

definition credential_period :: "bytes \<Rightarrow> u32" where
  "credential_period name =
     (case position (\<lambda>b. b = 0x2F) name of
        None \<Rightarrow> 30
      | Some separator \<Rightarrow>
          if separator = 0 then 30
          else case period_loop 0 (take separator name) of
                 None \<Rightarrow> 30 | Some period \<Rightarrow> if period = 0 then 30 else period)"

definition parse_put :: "bytes \<Rightarrow> (bytes \<times> ParsedKey \<times> u8 \<times> u32) option" where
  "parse_put data =
     (case (tlv_find data TAG_NAME, tlv_find data TAG_KEY) of
        (Some name, Some key_value) \<Rightarrow>
          if length key_value < 3 then None
          else let kind = key_value ! 0 AND 0xF0; algorithm = key_value ! 0 AND 0x0F
          in if kind \<noteq> TYPE_HOTP \<and> kind \<noteq> TYPE_TOTP then None
          else if algorithm \<noteq> ALGORITHM_SHA1 \<and> algorithm \<noteq> ALGORITHM_SHA256 \<and> algorithm \<noteq> ALGORITHM_SHA512 then None
          else if key_value ! 1 \<noteq> 6 \<and> key_value ! 1 \<noteq> 7 \<and> key_value ! 1 \<noteq> 8 then None
          else (case extend_vec MAX_SECRET () [] (drop 2 key_value) of
                  Err _ \<Rightarrow> None
                | Ok secret \<Rightarrow>
                    let property = (case tlv_find data TAG_PROPERTY of
                          None \<Rightarrow> 0 | Some v \<Rightarrow> (case v of [] \<Rightarrow> 0 | b # _ \<Rightarrow> b))
                    in if property AND NOT (PROPERTY_ONLY_INCREASING OR PROPERTY_TOUCH) \<noteq> 0 then None
                    else (case (case tlv_find data TAG_IMF of
                                  Some v \<Rightarrow> if length v = 4 then Some (of_be_bytes v) else None
                                | None \<Rightarrow> Some 0) of
                            None \<Rightarrow> None
                          | Some counter \<Rightarrow>
                              if kind = TYPE_TOTP \<and> tlv_find data TAG_IMF \<noteq> None then None
                              else Some (name, \<lparr>pk_kind = kind, pk_algorithm = algorithm,
                                     pk_digits = key_value ! 1, pk_secret = secret\<rparr>, property, counter)))
      | _ \<Rightarrow> None)"

definition compute_credential :: "OathCrypto \<Rightarrow> OathCredential \<Rightarrow> bytes \<Rightarrow> bool \<Rightarrow> bytes option" where
  "compute_credential cr credential challenge truncated =
     (case (if oc_kind credential = TYPE_HOTP then Some (be_bytes 8 (ucast (oc_counter credential) :: u64))
            else if length challenge \<noteq> 8 then None else Some challenge) of
        None \<Rightarrow> None
      | Some moving_factor \<Rightarrow>
          (case hmac_digest cr (oc_algorithm credential) (oc_secret credential) moving_factor of
             None \<Rightarrow> None
           | Some digest \<Rightarrow>
               if \<not> truncated then ok_of (extend_vec 65 () [oc_digits credential] digest)
               else if digest = [] then None
               else let offset = unat (last digest AND 0x0F)
                    in if offset + 4 > length digest then None
                       else let binary = push_bit 24 (ucast (digest ! offset) AND 0x7F)
                                OR push_bit 16 (ucast (digest ! (offset + 1)))
                                OR push_bit 8 (ucast (digest ! (offset + 2)))
                                OR (ucast (digest ! (offset + 3)) :: u32)
                            in ok_of (extend_vec 65 () [oc_digits credential] (be_bytes 4 binary))))"

section \<open>Applet state\<close>

record PendingCalculation =
  pn_index :: nat
  pn_challenge :: bytes
  pn_truncated :: bool

record 's Oath =
  oa_store :: 's
  oa_credentials :: "OathCredential list"
  oa_auth_key :: bytes
  oa_auth_algorithm :: u8
  oa_auth_challenge :: bytes
  oa_authenticated :: bool
  oa_pending :: "PendingCalculation option"
  oa_loaded :: bool
  oa_closed :: bool

definition oath_new :: "'s \<Rightarrow> 's Oath" where
  "oath_new store = \<lparr>oa_store = store, oa_credentials = [], oa_auth_key = [], oa_auth_algorithm = ALGORITHM_SHA1,
     oa_auth_challenge = DEFAULT_CHALLENGE, oa_authenticated = False, oa_pending = None, oa_loaded = False,
     oa_closed = False\<rparr>"

definition reset_volatile_state :: "'s Oath \<Rightarrow> 's Oath" where
  "reset_volatile_state self = self\<lparr>oa_credentials := [], oa_auth_key := [], oa_auth_algorithm := ALGORITHM_SHA1,
     oa_auth_challenge := DEFAULT_CHALLENGE, oa_authenticated := False, oa_pending := None, oa_closed := False\<rparr>"

definition oath_close :: "'s Oath \<Rightarrow> 's Oath" where
  "oath_close self = (reset_volatile_state self)\<lparr>oa_closed := True\<rparr>"

text \<open>The writer of the state drops what exceeds the capacity of the buffer.\<close>

definition push_state_bytes :: "bytes \<Rightarrow> bytes \<Rightarrow> bytes" where
  "push_state_bytes state bs = (case extend_vec STATE_BYTES () state bs of Ok state \<Rightarrow> state | Err _ \<Rightarrow> state)"

definition push_state :: "bytes \<Rightarrow> u8 \<Rightarrow> bytes" where
  "push_state state b = (case vec_push STATE_BYTES state b of Some state \<Rightarrow> state | None \<Rightarrow> state)"

definition push_fixed :: "bytes \<Rightarrow> bytes \<Rightarrow> nat \<Rightarrow> bytes" where
  "push_fixed state bs width = fold (\<lambda>_ state. push_state state 0) [length bs..<width] (push_state_bytes state bs)"

definition encode_credential :: "OathCredential \<Rightarrow> bytes \<Rightarrow> bytes" where
  "encode_credential c state =
     (let state = push_state state (oc_kind c);
          state = push_state state (oc_algorithm c);
          state = push_state state (oc_digits c);
          state = push_state state (oc_property c);
          state = push_state_bytes state (be_bytes 4 (oc_counter c));
          state = push_state_bytes state (be_bytes 4 (oc_period c));
          state = push_state state (of_nat (length (oc_name c)));
          state = push_fixed state (oc_name c) MAX_NAME;
          state = push_state state (of_nat (length (oc_secret c)))
      in push_fixed state (oc_secret c) MAX_SECRET)"

definition encode_state :: "'s Oath \<Rightarrow> bytes" where
  "encode_state self =
     (let state = push_state [] STATE_VERSION;
          state = push_state state (of_nat (length (oa_credentials self)));
          state = push_state state (if oa_auth_key self \<noteq> [] then 1 else 0);
          state = push_state state (oa_auth_algorithm self);
          state = push_state state (of_nat (length (oa_auth_key self)));
          state = push_fixed state (oa_auth_key self) MAX_SECRET;
          state = push_fixed state (oa_auth_challenge self) 8
      in fold encode_credential (oa_credentials self) state)"

definition save_state :: "'s OathStoreOps \<Rightarrow> 's Oath \<Rightarrow> bool \<times> 's Oath" where
  "save_state ops self =
     (case ost_save ops (oa_store self) (encode_state self) of (saved, store) \<Rightarrow> (saved, self\<lparr>oa_store := store\<rparr>))"

definition decode_credential :: "bytes \<Rightarrow> (OathCredential \<times> bytes) option" where
  "decode_credential bs =
     Option.bind (oath_take_u8 bs) (\<lambda>(kind, bs).
     Option.bind (oath_take_u8 bs) (\<lambda>(algorithm, bs).
     Option.bind (oath_take_u8 bs) (\<lambda>(digits, bs).
     Option.bind (oath_take_u8 bs) (\<lambda>(property, bs).
     Option.bind (oath_take 4 bs) (\<lambda>(counter_bytes, bs).
     Option.bind (oath_take 4 bs) (\<lambda>(period_bytes, bs).
     Option.bind (oath_take_u8 bs) (\<lambda>(name_len, bs).
     Option.bind (oath_take MAX_NAME bs) (\<lambda>(name_bytes, bs).
     Option.bind (oath_take_u8 bs) (\<lambda>(secret_len, bs).
     Option.bind (oath_take MAX_SECRET bs) (\<lambda>(secret_bytes, bs).
       if unat name_len > MAX_NAME \<or> unat secret_len > MAX_SECRET then None
       else Some (\<lparr>oc_name = take (unat name_len) name_bytes, oc_kind = kind, oc_algorithm = algorithm,
              oc_digits = digits, oc_property = property, oc_counter = of_be_bytes counter_bytes,
              oc_period = of_be_bytes period_bytes, oc_secret = take (unat secret_len) secret_bytes\<rparr>, bs)))))))))))"

fun decode_credentials :: "nat \<Rightarrow> bytes \<Rightarrow> OathCredential list \<Rightarrow> bool \<times> OathCredential list" where
  "decode_credentials 0 bs acc = (True, acc)"
| "decode_credentials (Suc n) bs acc =
     (case decode_credential bs of
        None \<Rightarrow> (False, acc)
      | Some (c, bs) \<Rightarrow>
          (case vec_push OATH_MAX_CREDENTIALS acc c of
             None \<Rightarrow> (False, acc) | Some acc \<Rightarrow> decode_credentials n bs acc))"

text \<open>The fixed part: the number of credentials, the access code when there is one, its
  algorithm and the challenge, with the rest of the input.\<close>

definition decode_header :: "bytes \<Rightarrow> (u8 \<times> bytes \<times> u8 \<times> bytes \<times> bytes) option" where
  "decode_header bs =
     Option.bind (oath_take_u8 bs) (\<lambda>(version, bs).
     if version \<noteq> STATE_VERSION then None
     else Option.bind (oath_take_u8 bs) (\<lambda>(count, bs).
     if unat count > OATH_MAX_CREDENTIALS then None
     else Option.bind (oath_take_u8 bs) (\<lambda>(auth_present, bs).
     Option.bind (oath_take_u8 bs) (\<lambda>(auth_algorithm, bs).
     Option.bind (oath_take_u8 bs) (\<lambda>(auth_len, bs).
     Option.bind (oath_take MAX_SECRET bs) (\<lambda>(auth_bytes, bs).
     Option.bind (oath_take 8 bs) (\<lambda>(challenge, bs).
       if unat auth_len > MAX_SECRET then None
       else Some (count, if auth_present \<noteq> 0 then take (unat auth_len) auth_bytes else [], auth_algorithm, challenge, bs))))))))"

definition decode_state :: "'s Oath \<Rightarrow> bytes \<Rightarrow> bool \<times> 's Oath" where
  "decode_state self bs =
     (case decode_header bs of
        None \<Rightarrow> (False, self)
      | Some (count, key, algorithm, challenge, bs) \<Rightarrow>
          (case decode_credentials (unat count) bs [] of
             (decoded, cs) \<Rightarrow> (decoded, self\<lparr>oa_credentials := cs, oa_auth_key := key, oa_auth_algorithm := algorithm,
                oa_auth_challenge := challenge\<rparr>)))"

definition load_state :: "'s OathStoreOps \<Rightarrow> 's Oath \<Rightarrow> 's Oath" where
  "load_state ops self =
     (if oa_loaded self then self
      else case ost_load ops STATE_BYTES (oa_store self) of (loaded, store) \<Rightarrow>
        let self = self\<lparr>oa_loaded := True, oa_store := store\<rparr>
        in case loaded of
             None \<Rightarrow> oath_close self
           | Some encoded \<Rightarrow>
               if encoded = [] then reset_volatile_state self
               else (case decode_state self encoded of
                       (True, self) \<Rightarrow> self\<lparr>oa_closed := False\<rparr> | (False, self) \<Rightarrow> oath_close self))"

section \<open>Commands\<close>

definition require_auth :: "'s Oath \<Rightarrow> (unit, Sw) result" where
  "require_auth self =
     (if oa_auth_key self = [] \<or> oa_authenticated self then Ok () else Err SW_SECURITY_STATUS_NOT_SATISFIED)"

definition oath_find :: "'s Oath \<Rightarrow> bytes \<Rightarrow> nat option" where
  "oath_find self name = position (\<lambda>c. oc_name c = name) (oa_credentials self)"

definition saved_status :: "bool \<Rightarrow> Response" where
  "saved_status saved = response_status (if saved then SW_OK else SW_NOT_ENOUGH_MEMORY)"

definition oath_put :: "'s OathStoreOps \<Rightarrow> Apdu \<Rightarrow> 's Oath \<Rightarrow> Response \<times> 's Oath" where
  "oath_put ops apdu self =
     (let self = self\<lparr>oa_pending := None\<rparr>
      in case require_auth self of
           Err status \<Rightarrow> (response_status status, self)
         | Ok _ \<Rightarrow>
             (case parse_put (apdu_data apdu) of
                None \<Rightarrow> (response_status SW_WRONG_DATA, self)
              | Some (name, key, property, counter) \<Rightarrow>
                  if name = [] \<or> length name > MAX_NAME \<or> pk_secret key = [] then (response_status SW_WRONG_DATA, self)
                  else let credential = \<lparr>oc_name = name, oc_kind = pk_kind key, oc_algorithm = pk_algorithm key,
                           oc_digits = pk_digits key, oc_property = property, oc_counter = counter,
                           oc_period = credential_period name, oc_secret = pk_secret key\<rparr>
                       in case (case oath_find self name of
                                  Some index \<Rightarrow> Some ((oa_credentials self)[index := credential])
                                | None \<Rightarrow> vec_push OATH_MAX_CREDENTIALS (oa_credentials self) credential) of
                            None \<Rightarrow> (response_status SW_NOT_ENOUGH_MEMORY, self)
                          | Some cs \<Rightarrow>
                              (case save_state ops (self\<lparr>oa_credentials := cs\<rparr>) of
                                 (saved, self) \<Rightarrow> (saved_status saved, self))))"

definition oath_delete :: "'s OathStoreOps \<Rightarrow> Apdu \<Rightarrow> 's Oath \<Rightarrow> Response \<times> 's Oath" where
  "oath_delete ops apdu self =
     (let self = self\<lparr>oa_pending := None\<rparr>
      in case require_auth self of
           Err status \<Rightarrow> (response_status status, self)
         | Ok _ \<Rightarrow>
             (case tlv_find (apdu_data apdu) TAG_NAME of
                None \<Rightarrow> (response_status SW_WRONG_DATA, self)
              | Some name \<Rightarrow>
                  (case oath_find self name of
                     None \<Rightarrow> (response_status SW_OATH_OBJECT_NOT_FOUND, self)
                   | Some index \<Rightarrow>
                       (case save_state ops (self\<lparr>oa_credentials := swap_remove index (oa_credentials self)\<rparr>) of
                          (saved, self) \<Rightarrow> (saved_status saved, self)))))"

fun list_loop :: "OathCredential list \<Rightarrow> bytes \<Rightarrow> bytes option" where
  "list_loop [] out = Some out"
| "list_loop (c # cs) out =
     (case append_tlv OATH_OUT out TAG_NAME_LIST ((oc_kind c OR oc_algorithm c) # oc_name c) of
        None \<Rightarrow> None | Some out \<Rightarrow> list_loop cs out)"

definition oath_list :: "'s Oath \<Rightarrow> Response \<times> 's Oath" where
  "oath_list self =
     (case require_auth self of
        Err status \<Rightarrow> (response_status status, self)
      | Ok _ \<Rightarrow>
          (case list_loop (oa_credentials self) [] of
             None \<Rightarrow> (response_status SW_NOT_ENOUGH_MEMORY, self) | Some out \<Rightarrow> (response_ok out, self)))"

definition code_tag :: "bool \<Rightarrow> u32" where
  "code_tag truncated = (if truncated then TAG_TRUNCATED else TAG_RESPONSE)"

definition calculate_index ::
    "OathCrypto \<Rightarrow> 's OathStoreOps \<Rightarrow> nat \<Rightarrow> bytes \<Rightarrow> bool \<Rightarrow> 's Oath \<Rightarrow> Response \<times> 's Oath" where
  "calculate_index cr ops index challenge truncated self =
     (let credential = oa_credentials self ! index
      in case compute_credential cr credential challenge truncated of
           None \<Rightarrow> (response_status SW_NO_PRECISE_DIAGNOSIS, self)
         | Some code \<Rightarrow>
             (case (if oc_kind credential = TYPE_HOTP
                    then save_state ops (self\<lparr>oa_credentials :=
                           (oa_credentials self)[index := credential\<lparr>oc_counter := oc_counter credential + 1\<rparr>]\<rparr>)
                    else (True, self)) of
                (False, self) \<Rightarrow> (response_status SW_NOT_ENOUGH_MEMORY, self)
              | (True, self) \<Rightarrow>
                  (case append_tlv OATH_OUT [] (code_tag truncated) code of
                     None \<Rightarrow> (response_status SW_NOT_ENOUGH_MEMORY, self) | Some out \<Rightarrow> (response_ok out, self))))"

definition calculate ::
    "OathCrypto \<Rightarrow> 's OathStoreOps \<Rightarrow> Apdu \<Rightarrow> 's Oath \<Rightarrow> Response \<times> 's Oath" where
  "calculate cr ops apdu self =
     (case require_auth self of
        Err status \<Rightarrow> (response_status status, self)
      | Ok _ \<Rightarrow>
          (case tlv_find (apdu_data apdu) TAG_NAME of
             None \<Rightarrow> (response_status SW_WRONG_DATA, self)
           | Some name \<Rightarrow>
               let challenge = (case tlv_find (apdu_data apdu) TAG_CHALLENGE of Some c \<Rightarrow> c | None \<Rightarrow> [])
               in case oath_find self name of
                    None \<Rightarrow> (response_status SW_OATH_OBJECT_NOT_FOUND, self)
                  | Some index \<Rightarrow>
                      if oc_property (oa_credentials self ! index) AND PROPERTY_TOUCH \<noteq> 0 then
                        if length challenge > 8 then (response_status SW_WRONG_DATA, self)
                        else (presence_required, self\<lparr>oa_pending := Some \<lparr>pn_index = index,
                               pn_challenge = replicate (8 - length challenge) 0 @ challenge,
                               pn_truncated = (apdu_p2 apdu = 0x01)\<rparr>\<rparr>)
                      else calculate_index cr ops index challenge (apdu_p2 apdu = 0x01) self))"

fun calculate_all_loop :: "OathCrypto \<Rightarrow> bytes \<Rightarrow> bool \<Rightarrow> OathCredential list \<Rightarrow> bytes \<Rightarrow> (bytes, Sw) result" where
  "calculate_all_loop cr challenge truncated [] out = Ok out"
| "calculate_all_loop cr challenge truncated (c # cs) out =
     (case append_tlv OATH_OUT out TAG_NAME (oc_name c) of
        None \<Rightarrow> Err SW_NOT_ENOUGH_MEMORY
      | Some out \<Rightarrow>
          if oc_kind c = TYPE_HOTP then
            (case append_tlv OATH_OUT out TAG_HOTP [] of
               None \<Rightarrow> Err SW_NOT_ENOUGH_MEMORY | Some out \<Rightarrow> calculate_all_loop cr challenge truncated cs out)
          else if oc_property c AND PROPERTY_TOUCH \<noteq> 0 then
            (case append_tlv OATH_OUT out TAG_TOUCH [] of
               None \<Rightarrow> Err SW_NOT_ENOUGH_MEMORY | Some out \<Rightarrow> calculate_all_loop cr challenge truncated cs out)
          else (case compute_credential cr c challenge truncated of
                  None \<Rightarrow> Err SW_NO_PRECISE_DIAGNOSIS
                | Some code \<Rightarrow>
                    (case append_tlv OATH_OUT out (code_tag truncated) code of
                       None \<Rightarrow> Err SW_NOT_ENOUGH_MEMORY
                     | Some out \<Rightarrow> calculate_all_loop cr challenge truncated cs out)))"

definition calculate_all :: "OathCrypto \<Rightarrow> Apdu \<Rightarrow> 's Oath \<Rightarrow> Response \<times> 's Oath" where
  "calculate_all cr apdu self =
     (case require_auth self of
        Err status \<Rightarrow> (response_status status, self)
      | Ok _ \<Rightarrow>
          (case tlv_find (apdu_data apdu) TAG_CHALLENGE of
             None \<Rightarrow> (response_status SW_WRONG_DATA, self)
           | Some challenge \<Rightarrow>
               if length challenge \<noteq> 8 then (response_status SW_WRONG_DATA, self)
               else (case calculate_all_loop cr challenge (apdu_p2 apdu = 0x01) (oa_credentials self) [] of
                       Err status \<Rightarrow> (response_status status, self) | Ok out \<Rightarrow> (response_ok out, self))))"

definition set_code :: "OathCrypto \<Rightarrow> 's OathStoreOps \<Rightarrow> Apdu \<Rightarrow> 's Oath \<Rightarrow> Response \<times> 's Oath" where
  "set_code cr ops apdu self =
     (case require_auth self of
        Err status \<Rightarrow> (response_status status, self)
      | Ok _ \<Rightarrow>
          if apdu_data apdu = [] then
            (case save_state ops (self\<lparr>oa_auth_key := [], oa_authenticated := False\<rparr>) of
               (saved, self) \<Rightarrow> (saved_status saved, self))
          else
            (case tlv_find (apdu_data apdu) TAG_KEY of
               None \<Rightarrow> (response_status SW_WRONG_DATA, self)
             | Some [] \<Rightarrow> (response_status SW_WRONG_DATA, self)
             | Some (algorithm # key) \<Rightarrow>
                 (case tlv_find (apdu_data apdu) TAG_CHALLENGE of
                    None \<Rightarrow> (response_status SW_WRONG_DATA, self)
                  | Some challenge \<Rightarrow>
                      (case tlv_find (apdu_data apdu) TAG_RESPONSE of
                         None \<Rightarrow> (response_status SW_WRONG_DATA, self)
                       | Some response \<Rightarrow>
                           (case hmac_digest cr algorithm key challenge of
                              None \<Rightarrow> (response_status SW_WRONG_DATA, self)
                            | Some expected \<Rightarrow>
                                if \<not> constant_time_eq expected response
                                then (response_status SW_AUTHENTICATION_FAILED, self)
                                else (case extend_vec MAX_SECRET () [] key of
                                        Err _ \<Rightarrow> (response_status SW_NOT_ENOUGH_MEMORY, self\<lparr>oa_auth_key := []\<rparr>)
                                      | Ok key' \<Rightarrow>
                                          (case save_state ops (self\<lparr>oa_auth_key := key', oa_auth_algorithm := algorithm,
                                               oa_auth_challenge := derive_challenge cr challenge key,
                                               oa_authenticated := True\<rparr>) of
                                             (saved, self) \<Rightarrow> (saved_status saved, self))))))))"

definition validate :: "OathCrypto \<Rightarrow> 's OathStoreOps \<Rightarrow> Apdu \<Rightarrow> 's Oath \<Rightarrow> Response \<times> 's Oath" where
  "validate cr ops apdu self =
     (if oa_auth_key self = [] then (response_status SW_AUTH_NOT_ENABLED, self)
      else case tlv_find (apdu_data apdu) TAG_RESPONSE of
          None \<Rightarrow> (response_status SW_WRONG_DATA, self)
        | Some response \<Rightarrow>
            (case tlv_find (apdu_data apdu) TAG_CHALLENGE of
               None \<Rightarrow> (response_status SW_WRONG_DATA, self)
             | Some challenge \<Rightarrow>
                 (case hmac_digest cr (oa_auth_algorithm self) (oa_auth_key self) (oa_auth_challenge self) of
                    None \<Rightarrow> (response_status SW_NO_PRECISE_DIAGNOSIS, self)
                  | Some expected \<Rightarrow>
                      if \<not> constant_time_eq expected response then (response_status SW_AUTHENTICATION_FAILED, self)
                      else (case hmac_digest cr (oa_auth_algorithm self) (oa_auth_key self) challenge of
                              None \<Rightarrow> (response_status SW_NO_PRECISE_DIAGNOSIS, self)
                            | Some verification \<Rightarrow>
                                (case save_state ops (self\<lparr>oa_auth_challenge := derive_challenge cr (oa_auth_challenge self) challenge,
                                     oa_authenticated := True\<rparr>) of
                                   (False, self) \<Rightarrow> (response_status SW_NOT_ENOUGH_MEMORY, self)
                                 | (True, self) \<Rightarrow>
                                     (case append_tlv OATH_OUT [] TAG_RESPONSE verification of
                                        None \<Rightarrow> (response_status SW_NOT_ENOUGH_MEMORY, self)
                                      | Some out \<Rightarrow> (response_ok out, self)))))))"

definition oath_reset :: "'s OathStoreOps \<Rightarrow> 's Oath \<Rightarrow> Response \<times> 's Oath" where
  "oath_reset ops self =
     (case ost_clear ops (oa_store self) of
        (False, store) \<Rightarrow> (response_status SW_NOT_ENOUGH_MEMORY, self\<lparr>oa_pending := None, oa_store := store\<rparr>)
      | (True, store) \<Rightarrow> (response_status SW_OK, self\<lparr>oa_pending := None, oa_store := store, oa_credentials := [],
            oa_auth_key := [], oa_authenticated := False, oa_auth_challenge := DEFAULT_CHALLENGE,
            oa_loaded := True, oa_closed := False\<rparr>))"

definition select_response :: "'s Oath \<Rightarrow> Response \<times> 's Oath" where
  "select_response self =
     (let self = self\<lparr>oa_authenticated := \<not> oa_closed self \<and> oa_auth_key self = [], oa_pending := None\<rparr>
      in case Option.bind (append_tlv OATH_OUT [] TAG_VERSION [5, 0, 0]) (\<lambda>out.
              Option.bind (append_tlv OATH_OUT out TAG_NAME DEVICE_ID) (\<lambda>out.
                if \<not> oa_closed self \<and> oa_auth_key self \<noteq> [] then
                  Option.bind (append_tlv OATH_OUT out TAG_CHALLENGE (oa_auth_challenge self)) (\<lambda>out.
                    append_tlv OATH_OUT out 0x7B [oa_auth_algorithm self])
                else Some out)) of
           None \<Rightarrow> (response_status SW_NOT_ENOUGH_MEMORY, self) | Some out \<Rightarrow> (response_ok out, self))"

definition oath_select :: "'s OathStoreOps \<Rightarrow> 'g fill \<Rightarrow> 's Oath \<Rightarrow> 'g \<Rightarrow> Response \<times> 's Oath \<times> 'g" where
  "oath_select ops fill self rng =
     (let self = load_state ops (self\<lparr>oa_loaded := False\<rparr>)
      in case (if oa_auth_key self \<noteq> [] then (case fill 8 rng of (c, rng) \<Rightarrow> (self\<lparr>oa_auth_challenge := c\<rparr>, rng))
               else (self, rng)) of
           (self, rng) \<Rightarrow> (case select_response self of (response, self) \<Rightarrow> (response, self, rng)))"

definition oath_process :: "OathCrypto \<Rightarrow> 's OathStoreOps \<Rightarrow> Apdu \<Rightarrow> 's Oath \<Rightarrow> Response \<times> 's Oath" where
  "oath_process cr ops apdu self =
     (let self = load_state ops self
      in if oa_closed self \<and> apdu_ins apdu \<noteq> INS_RESET then (response_status SW_NO_PRECISE_DIAGNOSIS, self)
         else if apdu_ins apdu = INS_PUT then oath_put ops apdu self
         else if apdu_ins apdu = INS_DELETE then oath_delete ops apdu self
         else if apdu_ins apdu = INS_SET_CODE then set_code cr ops apdu self
         else if apdu_ins apdu = INS_RESET \<and> apdu_p1 apdu = 0xDE \<and> apdu_p2 apdu = 0xAD then oath_reset ops self
         else if apdu_ins apdu = INS_LIST \<and> apdu_p1 apdu = 0 \<and> apdu_p2 apdu = 0 then oath_list self
         else if apdu_ins apdu = INS_CALCULATE then calculate cr ops apdu self
         else if apdu_ins apdu = INS_VALIDATE then validate cr ops apdu self
         else if apdu_ins apdu = INS_CALCULATE_ALL then calculate_all cr apdu self
         else (response_status SW_INS_NOT_SUPPORTED, self))"

definition oath_confirm :: "OathCrypto \<Rightarrow> 's OathStoreOps \<Rightarrow> 's Oath \<Rightarrow> Response \<times> 's Oath" where
  "oath_confirm cr ops self =
     (let self = load_state ops self
      in if oa_closed self then (response_status SW_NO_PRECISE_DIAGNOSIS, self)
         else case oa_pending self of
             None \<Rightarrow> (response_status SW_CONDITIONS_NOT_SATISFIED, self)
           | Some pending \<Rightarrow>
               let self = self\<lparr>oa_pending := None\<rparr>
               in if pn_index pending \<ge> length (oa_credentials self) then (response_status SW_CONDITIONS_NOT_SATISFIED, self)
                  else calculate_index cr ops (pn_index pending) (pn_challenge pending) (pn_truncated pending) self)"

definition oath_deny :: "'s Oath \<Rightarrow> Response \<times> 's Oath" where
  "oath_deny self = (response_status SW_SECURITY_STATUS_NOT_SATISFIED, self\<lparr>oa_pending := None\<rparr>)"

definition oath_ops :: "OathCrypto \<Rightarrow> 's OathStoreOps \<Rightarrow> 'g fill \<Rightarrow> ('s Oath, 'g) AppletOps" where
  "oath_ops cr ops fill = \<lparr>op_aid = (\<lambda>_. AID_OATH), op_select = oath_select ops fill,
     op_process = (\<lambda>apdu self rng. case oath_process cr ops apdu self of (r, self) \<Rightarrow> (r, self, rng)),
     op_confirm = (\<lambda>self rng. case oath_confirm cr ops self of (r, self) \<Rightarrow> (r, self, rng)),
     op_deny = oath_deny\<rparr>"

interpretation oath: applet "oath_ops cr ops fill" for cr ops fill
  by unfold_locales (auto simp: oath_ops_def)

text \<open>The router keeps the instruction byte of CALCULATE ALL for SELECT: such a frame never reaches the applet.\<close>

lemma calculate_all_unreachable:
  assumes "apdu_parse frame = Ok a" and "apdu_cla a = CLA_INTERINDUSTRY" and "apdu_ins a = INS_CALCULATE_ALL" and "apdu_p1 a = 0"
  shows "router_command (oath_ops cr ops fill) N self frame rng = (response_status SW_INCORRECT_PARAMETERS, self, rng)"
  using assms by (simp add: router_command_def)

section \<open>The serialized state\<close>

definition oath_credential_wf :: "OathCredential \<Rightarrow> bool" where
  "oath_credential_wf c \<longleftrightarrow> length (oc_name c) \<le> MAX_NAME \<and> length (oc_secret c) \<le> MAX_SECRET"

text \<open>The type invariant: what the capacities of the vectors and the array of the source bound.\<close>

definition oath_wf :: "'s Oath \<Rightarrow> bool" where
  "oath_wf o' \<longleftrightarrow> length (oa_credentials o') \<le> OATH_MAX_CREDENTIALS \<and>
     (\<forall>c \<in> set (oa_credentials o'). oath_credential_wf c) \<and>
     length (oa_auth_key o') \<le> MAX_SECRET \<and> length (oa_auth_challenge o') = 8"

definition fixed_field :: "nat \<Rightarrow> bytes \<Rightarrow> bytes" where
  "fixed_field w bs = bs @ replicate (w - length bs) 0"

definition credential_bytes :: "OathCredential \<Rightarrow> bytes" where
  "credential_bytes c = [oc_kind c, oc_algorithm c, oc_digits c, oc_property c] @ be_bytes 4 (oc_counter c) @
     be_bytes 4 (oc_period c) @ [of_nat (length (oc_name c))] @ fixed_field MAX_NAME (oc_name c) @
     [of_nat (length (oc_secret c))] @ fixed_field MAX_SECRET (oc_secret c)"

definition state_bytes :: "'s Oath \<Rightarrow> bytes" where
  "state_bytes o' = [STATE_VERSION, of_nat (length (oa_credentials o')), if oa_auth_key o' \<noteq> [] then 1 else 0,
     oa_auth_algorithm o', of_nat (length (oa_auth_key o'))] @ fixed_field MAX_SECRET (oa_auth_key o') @
     oa_auth_challenge o' @ concat (map credential_bytes (oa_credentials o'))"

lemma length_fixed_field [simp]: "length bs \<le> w \<Longrightarrow> length (fixed_field w bs) = w"
  by (simp add: fixed_field_def)

lemma push_state_fits [simp]: "length st < STATE_BYTES \<Longrightarrow> push_state st b = st @ [b]"
  by (simp add: push_state_def vec_push_def)

lemma push_state_bytes_fits [simp]:
  "length st + length bs \<le> STATE_BYTES \<Longrightarrow> push_state_bytes st bs = st @ bs"
  by (simp add: push_state_bytes_def extend_vec_def)

lemma push_zeros: "length st + length xs \<le> STATE_BYTES \<Longrightarrow> fold (\<lambda>_ st. push_state st 0) xs st = st @ replicate (length xs) 0"
  by (induction xs arbitrary: st) (simp_all add: replicate_append_same)

lemma push_fixed_fits:
  "length bs \<le> w \<Longrightarrow> length st + w \<le> STATE_BYTES \<Longrightarrow> push_fixed st bs w = st @ fixed_field w bs"
  by (simp add: push_fixed_def fixed_field_def push_zeros)

lemma length_credential_bytes: "oath_credential_wf c \<Longrightarrow> length (credential_bytes c) = 142"
  by (simp add: credential_bytes_def oath_credential_wf_def)

lemma encode_credential_fits:
  "oath_credential_wf c \<Longrightarrow> length st + 142 \<le> STATE_BYTES \<Longrightarrow> encode_credential c st = st @ credential_bytes c"
  by (simp add: encode_credential_def Let_def push_fixed_fits oath_credential_wf_def credential_bytes_def)

lemma encode_credentials_fits:
  "(\<forall>c \<in> set cs. oath_credential_wf c) \<Longrightarrow> length st + 142 * length cs \<le> STATE_BYTES \<Longrightarrow>
     fold encode_credential cs st = st @ concat (map credential_bytes cs)"
  by (induction cs arbitrary: st) (simp_all add: encode_credential_fits length_credential_bytes)

lemma encode_state_eq: "oath_wf o' \<Longrightarrow> encode_state o' = state_bytes o'"
  by (simp add: encode_state_def Let_def push_fixed_fits encode_credentials_fits oath_wf_def state_bytes_def fixed_field_def)

lemma oath_take_append [simp]: "length xs = n \<Longrightarrow> oath_take n (xs @ ys) = Some (xs, ys)"
  by (simp add: oath_take_def)

lemma oath_take_u8_Cons [simp]: "oath_take_u8 (b # bs) = Some (b, bs)"
  by (simp add: oath_take_u8_def)

lemma take_fixed_field [simp]: "take (length bs) (fixed_field w bs) = bs"
  by (simp add: fixed_field_def)

lemma unat_small [simp]: "n \<le> 64 \<Longrightarrow> unat (of_nat n :: u8) = n"
  by (simp add: unat_of_nat)

lemma decode_credential_bytes:
  assumes "oath_credential_wf c"
  shows "decode_credential (credential_bytes c @ rest) = Some (c, rest)"
  using assms by (simp add: decode_credential_def credential_bytes_def oath_credential_wf_def)

lemma decode_credentials_bytes:
  "(\<forall>c \<in> set cs. oath_credential_wf c) \<Longrightarrow> length acc + length cs \<le> OATH_MAX_CREDENTIALS \<Longrightarrow>
     decode_credentials (length cs) (concat (map credential_bytes cs) @ rest) acc = (True, acc @ cs)"
  by (induction cs arbitrary: acc) (simp_all add: decode_credential_bytes vec_push_def)

text \<open>What a stored state stands for: the credentials, the access code, its algorithm and the
  challenge.\<close>

definition oath_parse :: "bytes \<Rightarrow> (OathCredential list \<times> bytes \<times> u8 \<times> bytes) option" where
  "oath_parse bs =
     (case decode_header bs of
        None \<Rightarrow> None
      | Some (count, key, algorithm, challenge, bs) \<Rightarrow>
          (case decode_credentials (unat count) bs [] of
             (True, cs) \<Rightarrow> Some (cs, key, algorithm, challenge) | (False, _) \<Rightarrow> None))"

lemma oath_roundtrip:
  assumes "oath_wf o'"
  shows "oath_parse (encode_state o') =
    Some (oa_credentials o', oa_auth_key o', oa_auth_algorithm o', oa_auth_challenge o')"
proof -
  have n: "unat (of_nat (length (oa_credentials o')) :: u8) = length (oa_credentials o')"
    using assms by (simp add: oath_wf_def)
  have "decode_header (encode_state o') = Some (of_nat (length (oa_credentials o')), oa_auth_key o', oa_auth_algorithm o',
      oa_auth_challenge o', concat (map credential_bytes (oa_credentials o')))"
    using assms n by (simp add: encode_state_eq state_bytes_def decode_header_def oath_wf_def)
  then show ?thesis
    using assms n decode_credentials_bytes [of "oa_credentials o'" "[]" "[]"] by (simp add: oath_parse_def oath_wf_def)
qed

section \<open>The contract of a store\<close>

text \<open>What \<open>OathStore\<close> promises: reading gives the stored state or fails; a write that reports
  success has replaced the state, and one that reports failure has replaced it or not, or has left
  the store unreadable (\<open>holds\<close> is \<open>None\<close>). \<open>inv n\<close> says that the store is good for \<open>n\<close> more writes.\<close>

locale oath_store =
  fixes ops :: "'s OathStoreOps" and inv :: "nat \<Rightarrow> 's \<Rightarrow> bool" and holds :: "'s \<Rightarrow> bytes option"
  assumes inv_mono: "inv n s \<Longrightarrow> m \<le> n \<Longrightarrow> inv m s"
    and load_law: "inv n s \<Longrightarrow> ost_load ops STATE_BYTES s = (r, s') \<Longrightarrow>
      inv n s' \<and> holds s' = holds s \<and> (r = None \<or> r = holds s)"
    and save_law: "inv (Suc n) s \<Longrightarrow> length d \<le> STATE_BYTES \<Longrightarrow> ost_save ops s d = (b, s') \<Longrightarrow>
      inv n s' \<and> (if b then holds s' = Some d else holds s' \<in> {holds s, Some d, None})"
    and clear_law: "inv (Suc n) s \<Longrightarrow> ost_clear ops s = (b, s') \<Longrightarrow>
      inv n s' \<and> (if b then holds s' = Some [] else holds s' \<in> {holds s, Some [], None})"

text \<open>A store that does not fail.\<close>

locale working_oath_store = oath_store ops inv holds
  for ops :: "'s OathStoreOps" and inv :: "nat \<Rightarrow> 's \<Rightarrow> bool" and holds :: "'s \<Rightarrow> bytes option" +
  assumes load_works: "inv n s \<Longrightarrow> holds s \<noteq> None \<and> fst (ost_load ops STATE_BYTES s) = holds s"
    and save_works: "inv (Suc n) s \<Longrightarrow> length d \<le> STATE_BYTES \<Longrightarrow> fst (ost_save ops s d)"

definition memory_oath_inv :: "nat \<Rightarrow> MemoryOathStore \<Rightarrow> bool" where
  "memory_oath_inv n s \<longleftrightarrow> length (mo_data s) = STATE_BYTES \<and> mo_len s \<le> STATE_BYTES"

definition memory_oath_holds :: "MemoryOathStore \<Rightarrow> bytes option" where
  "memory_oath_holds s = Some (take (mo_len s) (mo_data s))"

lemmas memory_oath_defs = memory_oath_ops_def memory_oath_load_def memory_oath_save_def memory_oath_clear_def
  memory_oath_inv_def memory_oath_holds_def memory_oath_new_def

interpretation memory_oath: working_oath_store memory_oath_ops memory_oath_inv memory_oath_holds
  by unfold_locales (auto simp: memory_oath_defs split: if_splits)

section \<open>Type invariant\<close>

lemma decode_credential_wf: "decode_credential bs = Some (c, rest) \<Longrightarrow> oath_credential_wf c"
  by (auto simp: decode_credential_def oath_take_def oath_take_u8_def oath_credential_wf_def
      split: Option.bind_splits if_splits list.splits)

lemma decode_credentials_wf:
  "decode_credentials n bs acc = (b, cs) \<Longrightarrow> (\<forall>c \<in> set acc. oath_credential_wf c) \<Longrightarrow> length acc \<le> OATH_MAX_CREDENTIALS \<Longrightarrow>
     (\<forall>c \<in> set cs. oath_credential_wf c) \<and> length cs \<le> OATH_MAX_CREDENTIALS"
  by (induction n bs acc arbitrary: b cs rule: decode_credentials.induct)
     (auto simp: vec_push_Some_iff dest: decode_credential_wf split: option.splits)

lemma decode_header_wf:
  "decode_header bs = Some (count, key, algorithm, challenge, rest) \<Longrightarrow> length key \<le> MAX_SECRET \<and> length challenge = 8"
  by (auto simp: decode_header_def oath_take_def oath_take_u8_def split: Option.bind_splits if_splits list.splits)

lemma decode_state_wf:
  "decode_state o' bs = (b, o'') \<Longrightarrow> oath_wf o' \<Longrightarrow> oath_wf o''"
  using decode_credentials_wf [of _ _ "[]"]
  by (fastforce simp: decode_state_def oath_wf_def dest: decode_header_wf split: option.splits prod.splits)

lemma close_wf [simp]: "oath_wf (oath_close o')" "oath_wf (reset_volatile_state o')"
  by (simp_all add: oath_close_def reset_volatile_state_def oath_wf_def DEFAULT_CHALLENGE_def)

lemma wf_updates [simp]:
  "oath_wf (o'\<lparr>oa_store := x\<rparr>) = oath_wf o'" "oath_wf (o'\<lparr>oa_loaded := b\<rparr>) = oath_wf o'"
  "oath_wf (o'\<lparr>oa_closed := b\<rparr>) = oath_wf o'" "oath_wf (o'\<lparr>oa_pending := p\<rparr>) = oath_wf o'"
  "oath_wf (o'\<lparr>oa_authenticated := b\<rparr>) = oath_wf o'" "oath_wf (o'\<lparr>oa_auth_algorithm := a\<rparr>) = oath_wf o'"
  by (simp_all add: oath_wf_def)

lemma load_state_wf: "oath_wf o' \<Longrightarrow> oath_wf (load_state ops o')"
  by (auto simp: load_state_def Let_def dest: decode_state_wf split: option.splits prod.splits bool.splits)

lemma decode_state_parse:
  "decode_state o' bs = (True, o'') \<longleftrightarrow> (\<exists>cs key alg ch. oath_parse bs = Some (cs, key, alg, ch) \<and>
     o'' = o'\<lparr>oa_credentials := cs, oa_auth_key := key, oa_auth_algorithm := alg, oa_auth_challenge := ch\<rparr>)"
  by (auto simp: decode_state_def oath_parse_def split: option.splits prod.splits bool.splits)

lemma oath_parse_Nil [simp]: "oath_parse [] = None"
  by (simp add: oath_parse_def decode_header_def oath_take_u8_def)

lemma encode_state_length: "oath_wf o' \<Longrightarrow> length (encode_state o') \<le> STATE_BYTES"
proof -
  assume wf: "oath_wf o'"
  have "length (concat (map credential_bytes cs)) = 142 * length cs" if "\<forall>c \<in> set cs. oath_credential_wf c" for cs
    using that by (induction cs) (simp_all add: length_credential_bytes)
  then show ?thesis using wf by (simp add: encode_state_eq state_bytes_def oath_wf_def)
qed

lemma append_tlv_eq:
  "append_tlv N out tag v = (if length out + encoded_len tag (length v) \<le> N
     then Some (out @ tlv_bytes \<lparr>tlv_tag = tag, tlv_value = v\<rparr>) else None)"
  using tlv_write_eq [of tag v "replicate (encoded_len tag (length v)) 0"]
  by (cases "tlv_write tag v (replicate (encoded_len tag (length v)) 0)") (auto simp: append_tlv_def Let_def)

section \<open>Runs of the applet\<close>

text \<open>What can happen to the applet: the host selects it or sends a command, the user confirms or
  the card denies presence, and the device loses power.\<close>

datatype OathEvent = Ev_Select | Ev_Apdu Apdu | Ev_Confirm | Ev_Deny | Ev_Power

fun oath_event ::
    "OathCrypto \<Rightarrow> 's OathStoreOps \<Rightarrow> 'g fill \<Rightarrow> OathEvent \<Rightarrow> 's Oath \<times> 'g \<Rightarrow> Response option \<times> 's Oath \<times> 'g" where
  "oath_event cr ops fill Ev_Select (o', g) = (case oath_select ops fill o' g of (r, o', g) \<Rightarrow> (Some r, o', g))"
| "oath_event cr ops fill (Ev_Apdu a) (o', g) = (case oath_process cr ops a o' of (r, o') \<Rightarrow> (Some r, o', g))"
| "oath_event cr ops fill Ev_Confirm (o', g) = (case oath_confirm cr ops o' of (r, o') \<Rightarrow> (Some r, o', g))"
| "oath_event cr ops fill Ev_Deny (o', g) = (case oath_deny o' of (r, o') \<Rightarrow> (Some r, o', g))"
| "oath_event cr ops fill Ev_Power (o', g) = (None, oath_new (oa_store o'), g)"

fun oath_run ::
    "OathCrypto \<Rightarrow> 's OathStoreOps \<Rightarrow> 'g fill \<Rightarrow> OathEvent list \<Rightarrow> 's Oath \<times> 'g \<Rightarrow> Response option list \<times> 's Oath \<times> 'g" where
  "oath_run cr ops fill [] w = ([], w)"
| "oath_run cr ops fill (e # es) w =
     (case oath_event cr ops fill e w of (r, w) \<Rightarrow>
       (case oath_run cr ops fill es w of (rs, w) \<Rightarrow> (r # rs, w)))"

text \<open>The same credentials with counters that may have moved on.\<close>

definition ahead :: "OathCredential list \<Rightarrow> OathCredential list \<Rightarrow> bool" where
  "ahead ds cs \<longleftrightarrow> list_all2 (\<lambda>d c. oc_counter d \<le> oc_counter c \<and> d\<lparr>oc_counter := 0\<rparr> = c\<lparr>oc_counter := 0\<rparr>) ds cs"

lemma ahead_refl [simp]: "ahead cs cs"
  by (simp add: ahead_def list_all2_refl)

lemma ahead_trans: "ahead as bs \<Longrightarrow> ahead bs cs \<Longrightarrow> ahead as cs"
  by (fastforce simp: ahead_def list_all2_conv_all_nth intro: order_trans)

lemma ahead_nth: "ahead ds cs \<Longrightarrow> i < length cs \<Longrightarrow> i < length ds \<and> oc_counter (ds ! i) \<le> oc_counter (cs ! i)"
  by (auto simp: ahead_def list_all2_conv_all_nth)

lemma ahead_step:
  "i < length cs \<Longrightarrow> oc_counter (cs ! i) \<le> n \<Longrightarrow> ahead cs (cs[i := (cs ! i)\<lparr>oc_counter := n\<rparr>])"
  by (auto simp: ahead_def list_all2_conv_all_nth nth_list_update)

text \<open>The credential a calculation is about, and the counter of the HOTP code it is answered with.\<close>

definition oath_index :: "'s OathStoreOps \<Rightarrow> 's Oath \<Rightarrow> OathEvent \<Rightarrow> nat option" where
  "oath_index ops o' e =
     (let o' = load_state ops o'
      in case e of
           Ev_Apdu a \<Rightarrow>
             if apdu_ins a = INS_CALCULATE then Option.bind (tlv_find (apdu_data a) TAG_NAME) (oath_find o') else None
         | Ev_Confirm \<Rightarrow> map_option pn_index (oa_pending o')
         | _ \<Rightarrow> None)"

definition used_counter :: "'s OathStoreOps \<Rightarrow> 's Oath \<Rightarrow> OathEvent \<Rightarrow> Response option \<Rightarrow> (nat \<times> u32) option" where
  "used_counter ops o' e r =
     (case (oath_index ops o' e, r) of
        (Some i, Some r) \<Rightarrow>
          let c = oa_credentials (load_state ops o') ! i
          in if resp_sw r = SW_OK \<and> oc_kind c = TYPE_HOTP then Some (i, oc_counter c) else None
      | _ \<Rightarrow> None)"

fun used_counters :: "OathCrypto \<Rightarrow> 's OathStoreOps \<Rightarrow> 'g fill \<Rightarrow> OathEvent list \<Rightarrow> 's Oath \<times> 'g \<Rightarrow> (nat \<times> u32) list" where
  "used_counters cr ops fill [] w = []"
| "used_counters cr ops fill (e # es) w =
     (case oath_event cr ops fill e w of (r, w') \<Rightarrow>
       (case used_counter ops (fst w) e r of Some x \<Rightarrow> [x] | None \<Rightarrow> []) @ used_counters cr ops fill es w')"

lemma require_auth_Err: "require_auth o' = Err e \<Longrightarrow> e = SW_SECURITY_STATUS_NOT_SATISFIED"
  by (simp add: require_auth_def split: if_splits)

text \<open>Events that replace credentials.\<close>

definition is_mutation :: "OathEvent \<Rightarrow> bool" where
  "is_mutation e \<longleftrightarrow> (case e of
     Ev_Apdu a \<Rightarrow> apdu_ins a \<in> {INS_PUT, INS_DELETE} \<or> apdu_ins a = INS_RESET \<and> apdu_p1 a = 0xDE \<and> apdu_p2 a = 0xAD
   | _ \<Rightarrow> False)"

definition is_oath_reset :: "OathEvent \<Rightarrow> bool" where
  "is_oath_reset e \<longleftrightarrow> (case e of Ev_Apdu a \<Rightarrow> apdu_ins a = INS_RESET \<and> apdu_p1 a = 0xDE \<and> apdu_p2 a = 0xAD | _ \<Rightarrow> False)"

text \<open>The command answers the challenge of the access code.\<close>

definition answers :: "OathCrypto \<Rightarrow> 's OathStoreOps \<Rightarrow> 's Oath \<Rightarrow> OathEvent \<Rightarrow> bool" where
  "answers cr ops o' e \<longleftrightarrow> (case e of
     Ev_Apdu a \<Rightarrow> let o' = load_state ops o' in apdu_ins a = INS_VALIDATE \<and>
       hmac_digest cr (oa_auth_algorithm o') (oa_auth_key o') (oa_auth_challenge o') \<noteq> None \<and>
       hmac_digest cr (oa_auth_algorithm o') (oa_auth_key o') (oa_auth_challenge o') = tlv_find (apdu_data a) TAG_RESPONSE
   | _ \<Rightarrow> False)"

fun never_answers :: "OathCrypto \<Rightarrow> 's OathStoreOps \<Rightarrow> 'g fill \<Rightarrow> OathEvent list \<Rightarrow> 's Oath \<times> 'g \<Rightarrow> bool" where
  "never_answers cr ops fill [] w = True"
| "never_answers cr ops fill (e # es) w \<longleftrightarrow>
     \<not> answers cr ops (fst w) e \<and> never_answers cr ops fill es (snd (oath_event cr ops fill e w))"

text \<open>What SELECT tells about the applet, and that a response tells no more.\<close>

definition select_data :: "(bytes \<times> u8) option \<Rightarrow> bytes" where
  "select_data c = tlv_bytes \<lparr>tlv_tag = TAG_VERSION, tlv_value = [5, 0, 0]\<rparr> @ tlv_bytes \<lparr>tlv_tag = TAG_NAME, tlv_value = DEVICE_ID\<rparr> @
     (case c of None \<Rightarrow> [] | Some (ch, alg) \<Rightarrow>
        tlv_bytes \<lparr>tlv_tag = TAG_CHALLENGE, tlv_value = ch\<rparr> @ tlv_bytes \<lparr>tlv_tag = 0x7B, tlv_value = [alg]\<rparr>)"

definition public_response :: "'g fill \<Rightarrow> u8 \<Rightarrow> OathEvent \<Rightarrow> Response option \<Rightarrow> bool" where
  "public_response fill alg e r \<longleftrightarrow> (\<forall>r'. r = Some r' \<longrightarrow> resp_data r' = [] \<or>
     e = Ev_Select \<and> (resp_data r' = select_data None \<or> (\<exists>g. resp_data r' = select_data (Some (fst (fill 8 g), alg)))))"

lemma select_response_data:
  "select_response o' = (r, o'') \<Longrightarrow> resp_data r = [] \<or> resp_data r = select_data (if \<not> oa_closed o' \<and> oa_auth_key o' \<noteq> []
     then Some (oa_auth_challenge o', oa_auth_algorithm o') else None)"
  by (auto simp: select_response_def select_data_def append_tlv_eq Let_def response_defs split: if_splits option.splits Option.bind_splits)

lemma oath_select_data:
  assumes "oath_select ops fill o' g = (r, o'', g')"
  defines "o1 \<equiv> load_state ops (o'\<lparr>oa_loaded := False\<rparr>)"
  shows "resp_data r = [] \<or> resp_data r = select_data None \<or>
    \<not> oa_closed o1 \<and> resp_data r = select_data (Some (fst (fill 8 g), oa_auth_algorithm o1))"
  using assms by (auto simp: oath_select_def Let_def dest!: select_response_data split: prod.splits if_splits)

lemma select_response_keeps:
  "select_response o' = (r, o'') \<Longrightarrow>
     o'' = o'\<lparr>oa_authenticated := \<not> oa_closed o' \<and> oa_auth_key o' = [], oa_pending := None\<rparr>"
  by (auto simp: select_response_def Let_def split: option.splits)

lemma oath_select_keeps:
  assumes "oath_select ops fill o' g = (r, o'', g')"
  shows "\<exists>c. c \<in> {oa_auth_challenge (load_state ops (o'\<lparr>oa_loaded := False\<rparr>)), fst (fill 8 g)} \<and>
    o'' = (load_state ops (o'\<lparr>oa_loaded := False\<rparr>))\<lparr>oa_auth_challenge := c, oa_pending := None,
      oa_authenticated := \<not> oa_closed (load_state ops (o'\<lparr>oa_loaded := False\<rparr>)) \<and>
        oa_auth_key (load_state ops (o'\<lparr>oa_loaded := False\<rparr>)) = []\<rparr>"
proof -
  let ?o = "load_state ops (o'\<lparr>oa_loaded := False\<rparr>)"
  obtain c g1 where f: "fill 8 g = (c, g1)" by (rule prod.exhaust)
  define o1 where "o1 = (if oa_auth_key ?o \<noteq> [] then ?o\<lparr>oa_auth_challenge := c\<rparr> else ?o)"
  obtain r1 o2 where sr: "select_response o1 = (r1, o2)" by (rule prod.exhaust)
  have "o'' = o2" using assms sr f by (simp add: oath_select_def Let_def o1_def split: if_splits)
  then have "o'' = ?o\<lparr>oa_auth_challenge := oa_auth_challenge o1, oa_pending := None,
      oa_authenticated := \<not> oa_closed ?o \<and> oa_auth_key ?o = []\<rparr>"
    using select_response_keeps [OF sr] by (simp add: o1_def)
  moreover have "oa_auth_challenge o1 \<in> {oa_auth_challenge ?o, fst (fill 8 g)}" by (simp add: o1_def f)
  ultimately show ?thesis by blast
qed

lemma decode_state_loaded: "decode_state o' bs = (b, o'') \<Longrightarrow> oa_loaded o'' = oa_loaded o'"
  by (auto simp: decode_state_def split: option.splits prod.splits)

lemma load_state_already [simp]: "oa_loaded o' \<Longrightarrow> load_state ops o' = o'"
  by (simp add: load_state_def)

lemma load_state_loaded [simp]: "oa_loaded (load_state ops o')"
  by (auto simp: load_state_def Let_def oath_close_def reset_volatile_state_def dest: decode_state_loaded
      split: prod.splits option.splits bool.splits)

lemma load_state_idem [simp]: "load_state ops (load_state ops o') = load_state ops o'"
  by (subst load_state_def) simp

lemma load_state_first:
  "oath_process cr ops a (load_state ops o') = oath_process cr ops a o'"
  "oath_confirm cr ops (load_state ops o') = oath_confirm cr ops o'"
  "used_counter ops (load_state ops o') e r = used_counter ops o' e r"
  by (simp_all add: oath_process_def oath_confirm_def) (simp only: used_counter_def oath_index_def load_state_idem)

lemma decode_state_close:
  "decode_state o' bs = (b, o'') \<Longrightarrow> oath_close o'' = oath_close o'"
  by (auto simp: decode_state_def oath_close_def reset_volatile_state_def split: option.splits prod.splits)

definition stored_algorithm :: "bytes \<Rightarrow> u8" where
  "stored_algorithm b = (case oath_parse b of Some (_, _, alg, _) \<Rightarrow> alg | None \<Rightarrow> 0)"

text \<open>Credentials ahead of \<open>f\<close> with counters up to \<open>k\<close>.\<close>

definition within :: "nat \<Rightarrow> OathCredential list \<Rightarrow> OathCredential list \<Rightarrow> bool" where
  "within k f cs \<longleftrightarrow> ahead f cs \<and> list_all (\<lambda>c. unat (oc_counter c) \<le> k) cs"

lemma within_mono: "within k f cs \<Longrightarrow> k \<le> k' \<Longrightarrow> within k' f cs"
  by (fastforce simp: within_def list_all_iff)

context oath_store
begin

text \<open>Loading gives the state that the store holds, or an applet that serves nothing.\<close>

lemma load_state_cases:
  assumes "inv n (oa_store o')" and "\<not> oa_loaded o'"
  shows "\<exists>s. inv n s \<and> holds s = holds (oa_store o') \<and>
    (load_state ops o' = oath_close (o'\<lparr>oa_loaded := True, oa_store := s\<rparr>) \<or>
     holds s = Some [] \<and> load_state ops o' = reset_volatile_state (o'\<lparr>oa_loaded := True, oa_store := s\<rparr>) \<or>
     (\<exists>b cs key alg ch. holds s = Some b \<and> oath_parse b = Some (cs, key, alg, ch) \<and>
        load_state ops o' = o'\<lparr>oa_loaded := True, oa_store := s, oa_credentials := cs, oa_auth_key := key,
          oa_auth_algorithm := alg, oa_auth_challenge := ch, oa_closed := False\<rparr>))"
proof -
  obtain r s where l: "ost_load ops STATE_BYTES (oa_store o') = (r, s)" by (rule prod.exhaust)
  with load_law [OF assms(1) l] have s: "inv n s" "holds s = holds (oa_store o')" "r = None \<or> r = holds s" by auto
  let ?o = "o'\<lparr>oa_loaded := True, oa_store := s\<rparr>"
  show ?thesis
  proof (cases r)
    case None
    with l s assms(2) show ?thesis by (intro exI [of _ s]) (simp add: load_state_def)
  next
    case (Some e)
    obtain b o1 where d: "decode_state ?o e = (b, o1)" by (rule prod.exhaust)
    have "load_state ops o' = (if e = [] then reset_volatile_state ?o else if b then o1\<lparr>oa_closed := False\<rparr> else oath_close o1)"
      using assms(2) l Some d by (auto simp: load_state_def Let_def split: bool.splits)
    moreover have "holds s = Some e" using s(3) Some by auto
    ultimately show ?thesis
      using s(1,2) d decode_state_close [OF d] decode_state_parse [of ?o e o1]
      by (intro exI [of _ s]) (cases b; cases "e = []"; auto)
  qed
qed

text \<open>The applet is locked under the stored state \<open>b\<close>.\<close>

definition locked :: "bytes \<Rightarrow> 's Oath \<Rightarrow> bool" where
  "locked b o' \<longleftrightarrow> inv 0 (oa_store o') \<and> holds (oa_store o') = Some b \<and> \<not> oa_authenticated o' \<and> oa_pending o' = None \<and>
     (\<exists>cs key alg ch. oath_parse b = Some (cs, key, alg, ch) \<and> key \<noteq> [] \<and>
        (oa_loaded o' \<longrightarrow> oa_closed o' \<or> oa_auth_key o' = key \<and> oa_auth_algorithm o' = alg))"

lemma load_state_locked:
  assumes "locked b o'"
  shows "locked b (load_state ops o') \<and> oa_loaded (load_state ops o')"
proof (cases "oa_loaded o'")
  case True
  with assms show ?thesis by (simp add: load_state_def)
next
  case False
  with assms load_state_cases [of 0 o'] show ?thesis
    by (auto simp: locked_def oath_close_def reset_volatile_state_def)
qed

lemma process_locked:
  assumes "locked b o'" and "\<not> is_oath_reset (Ev_Apdu a)" and "\<not> answers cr ops o' (Ev_Apdu a)"
    and "oath_process cr ops a o' = (r, o'')"
  shows "resp_data r = [] \<and> locked b o''"
proof -
  let ?o = "load_state ops o'"
  from load_state_locked [OF assms(1)] have l: "locked b ?o" "oa_loaded ?o" by auto
  show ?thesis
  proof (cases "oa_closed ?o")
    case True
    with assms(2,4) l show ?thesis
      by (auto simp: oath_process_def is_oath_reset_def Let_def response_defs split: if_splits)
  next
    case False
    then have "oa_auth_key ?o \<noteq> []" "\<not> oa_authenticated ?o" using l by (auto simp: locked_def)
    then have ra: "require_auth ?o = Err SW_SECURITY_STATUS_NOT_SATISFIED"
      "require_auth (?o\<lparr>oa_pending := None\<rparr>) = Err SW_SECURITY_STATUS_NOT_SATISFIED"
      by (simp_all add: require_auth_def)
    have "locked b (?o\<lparr>oa_pending := None\<rparr>)" using l by (simp add: locked_def)
    with ra assms(2-4) l False show ?thesis
      by (auto simp: oath_process_def oath_put_def oath_delete_def set_code_def oath_list_def calculate_def
          calculate_all_def validate_def is_oath_reset_def answers_def Let_def response_defs
          split: if_splits option.splits)
  qed
qed

lemma locked_selected:
  "locked b o' \<Longrightarrow> oa_loaded o' \<Longrightarrow>
     locked b (o'\<lparr>oa_auth_challenge := c, oa_pending := None, oa_authenticated := \<not> oa_closed o' \<and> oa_auth_key o' = []\<rparr>)"
  by (auto simp: locked_def)

lemma event_locked:
  assumes "locked b o'" and "\<not> is_oath_reset e" and "\<not> answers cr ops o' e"
    and "oath_event cr ops fill e (o', g) = (r, o'', g')"
  shows "locked b o'' \<and> public_response fill (stored_algorithm b) e r"
proof (cases e)
  case Ev_Select
  have "locked b (o'\<lparr>oa_loaded := False\<rparr>)" using assms(1) by (auto simp: locked_def)
  note l = load_state_locked [OF this]
  obtain c where "o'' = (load_state ops (o'\<lparr>oa_loaded := False\<rparr>))\<lparr>oa_auth_challenge := c, oa_pending := None,
      oa_authenticated := \<not> oa_closed (load_state ops (o'\<lparr>oa_loaded := False\<rparr>)) \<and>
        oa_auth_key (load_state ops (o'\<lparr>oa_loaded := False\<rparr>)) = []\<rparr>"
    using oath_select_keeps assms(4) Ev_Select by (fastforce split: prod.splits)
  with locked_selected [of b "load_state ops (o'\<lparr>oa_loaded := False\<rparr>)" c] l have "locked b o''" by simp
  moreover obtain r1 where "oath_select ops fill o' g = (r1, o'', g')" "r = Some r1"
    using assms(4) Ev_Select by (auto split: prod.splits)
  ultimately show ?thesis
    using oath_select_data [of ops fill o' g r1 o'' g'] l Ev_Select
    by (auto simp: public_response_def locked_def stored_algorithm_def)
next
  case (Ev_Apdu a)
  obtain r1 o1 where p: "oath_process cr ops a o' = (r1, o1)" by (rule prod.exhaust)
  with process_locked [OF assms(1) _ _ p] assms(2-4) Ev_Apdu show ?thesis by (auto simp: public_response_def)
next
  case Ev_Confirm
  with assms(4) load_state_locked [OF assms(1)] show ?thesis
    by (auto simp: oath_confirm_def Let_def locked_def public_response_def response_defs split: prod.splits if_splits option.splits)
next
  case Ev_Deny
  with assms show ?thesis by (auto simp: oath_deny_def locked_def public_response_def response_defs)
next
  case Ev_Power
  with assms show ?thesis by (auto simp: oath_new_def locked_def public_response_def)
qed

lemma run_locked:
  assumes "locked b o'" and "list_all (\<lambda>e. \<not> is_oath_reset e) es" and "never_answers cr ops fill es (o', g)"
    and "oath_run cr ops fill es (o', g) = (rs, o'', g')"
  shows "locked b o'' \<and> list_all2 (public_response fill (stored_algorithm b)) es rs"
  using assms
proof (induction es arbitrary: o' g rs)
  case (Cons e es)
  obtain r o1 g1 where ev: "oath_event cr ops fill e (o', g) = (r, o1, g1)" by (rule prod_cases3)
  with Cons.prems obtain rs' where "oath_run cr ops fill es (o1, g1) = (rs', o'', g')" "rs = r # rs'"
    by (auto split: prod.splits)
  moreover from event_locked [OF Cons.prems(1) _ _ ev] Cons.prems(2,3) have
    "locked b o1" "public_response fill (stored_algorithm b) e r" by simp_all
  moreover have "never_answers cr ops fill es (o1, g1)" using Cons.prems(3) ev by simp
  ultimately show ?case using Cons.IH [of o1 g1 rs'] Cons.prems(2) by simp
qed simp

text \<open>The credentials the store holds and those of the running applet may differ in counters. Both are
  ahead of the credentials \<open>f\<close>, and bounded by \<open>k\<close>; the store is good for \<open>n\<close> more writes.\<close>

definition stored_within :: "nat \<Rightarrow> OathCredential list \<Rightarrow> 's \<Rightarrow> bool" where
  "stored_within k f s \<longleftrightarrow> (\<forall>b. holds s = Some b \<longrightarrow>
     (\<exists>cs key alg ch. oath_parse b = Some (cs, key, alg, ch) \<and> within k f cs))"

definition hotp_inv :: "nat \<Rightarrow> nat \<Rightarrow> OathCredential list \<Rightarrow> 's Oath \<Rightarrow> bool" where
  "hotp_inv n k f o' \<longleftrightarrow> inv n (oa_store o') \<and> oath_wf o' \<and> stored_within k f (oa_store o') \<and>
     (oa_loaded o' \<longrightarrow> oa_closed o' \<or> within k f (oa_credentials o'))"

text \<open>A step moves the counters on from \<open>f\<close>, and past the counter \<open>u\<close> that it used.\<close>

definition moved :: "nat \<Rightarrow> nat \<Rightarrow> OathCredential list \<Rightarrow> 's Oath \<Rightarrow> (nat \<times> u32) option \<Rightarrow> bool" where
  "moved n k f o' u \<longleftrightarrow> (\<exists>f'. ahead f f' \<and> hotp_inv n (Suc k) f' o' \<and>
     (\<forall>i m. u = Some (i, m) \<longrightarrow> i < length f \<and> oc_counter (f ! i) \<le> m \<and> m < oc_counter (f' ! i)))"

lemma hotp_inv_mono: "hotp_inv n k f o' \<Longrightarrow> m \<le> n \<Longrightarrow> k \<le> k' \<Longrightarrow> hotp_inv m k' f o'"
  unfolding hotp_inv_def stored_within_def using inv_mono within_mono by blast

lemma moved_same: "hotp_inv (Suc n) k f o' \<Longrightarrow> moved n k f o' None" "hotp_inv n k f o' \<Longrightarrow> moved n k f o' None"
  unfolding moved_def using hotp_inv_mono [of _ k f o' n "Suc k"] by (auto intro!: exI [of _ f])

lemma load_state_hotp:
  assumes "hotp_inv n k f o'"
  shows "hotp_inv n k f (load_state ops o')"
proof (cases "oa_loaded o'")
  case False
  have wf: "oath_wf (load_state ops o')" using assms load_state_wf by (auto simp: hotp_inv_def)
  have "inv n (oa_store o')" using assms by (simp add: hotp_inv_def)
  from load_state_cases [OF this False] obtain s where s: "inv n s" "holds s = holds (oa_store o')"
    "load_state ops o' = oath_close (o'\<lparr>oa_loaded := True, oa_store := s\<rparr>) \<or>
     holds s = Some [] \<and> load_state ops o' = reset_volatile_state (o'\<lparr>oa_loaded := True, oa_store := s\<rparr>) \<or>
     (\<exists>b cs key alg ch. holds s = Some b \<and> oath_parse b = Some (cs, key, alg, ch) \<and>
        load_state ops o' = o'\<lparr>oa_loaded := True, oa_store := s, oa_credentials := cs, oa_auth_key := key,
          oa_auth_algorithm := alg, oa_auth_challenge := ch, oa_closed := False\<rparr>)"
    by blast
  have st: "stored_within k f s" using assms s(2) by (simp add: hotp_inv_def stored_within_def)
  then have "holds s \<noteq> Some []" by (auto simp: stored_within_def)
  with s(1,3) st wf show ?thesis
    by (auto simp: hotp_inv_def oath_close_def reset_volatile_state_def stored_within_def)
qed (use assms in simp)

text \<open>Saving an applet whose counters have only moved on.\<close>

lemma save_state_hotp:
  assumes "inv (Suc n) (oa_store o')" and "oath_wf o'" and "within k f (oa_credentials o')"
    and "stored_within k f (oa_store o')" and "save_state ops o' = (b, o'')"
  shows "hotp_inv n k f o'' \<and> (\<exists>s. o'' = o'\<lparr>oa_store := s\<rparr>) \<and> (b \<longrightarrow> hotp_inv n k (oa_credentials o') o'')"
proof -
  obtain s where sv: "ost_save ops (oa_store o') (encode_state o') = (b, s)" "o'' = o'\<lparr>oa_store := s\<rparr>"
    using assms(5) by (auto simp: save_state_def split: prod.splits)
  note law = save_law [OF assms(1) encode_state_length [OF assms(2)] sv(1)]
  have w: "within k (oa_credentials o') (oa_credentials o')" using assms(3) by (simp add: within_def)
  have "stored_within k f s" "b \<longrightarrow> stored_within k (oa_credentials o') s"
    using law assms(3,4) w oath_roundtrip [OF assms(2)] by (auto simp: stored_within_def split: if_splits)
  with law assms(2,3) w sv(2) show ?thesis by (auto simp: hotp_inv_def)
qed

lemma calculate_index_hotp:
  assumes inv: "hotp_inv (Suc n) k f o'" "oa_loaded o'" "\<not> oa_closed o'" "k < 2 ^ 32 - 1" "i < length (oa_credentials o')"
    and calc: "calculate_index cr ops i ch t o' = (r, o'')"
  shows "(resp_sw r = SW_OK \<and> oc_kind (oa_credentials o' ! i) = TYPE_HOTP \<longrightarrow> moved n k f o'' (Some (i, oc_counter (oa_credentials o' ! i)))) \<and>
    (\<not> (resp_sw r = SW_OK \<and> oc_kind (oa_credentials o' ! i) = TYPE_HOTP) \<longrightarrow> moved n k f o'' None)"
proof -
  let ?c = "oa_credentials o' ! i"
  let ?o = "o'\<lparr>oa_credentials := (oa_credentials o')[i := ?c\<lparr>oc_counter := oc_counter ?c + 1\<rparr>]\<rparr>"
  have o': "oa_store ?o = oa_store o'" "inv (Suc n) (oa_store o')" "oath_wf o'" "stored_within k f (oa_store o')"
    "within k f (oa_credentials o')" using inv by (auto simp: hotp_inv_def)
  have c: "unat (oc_counter ?c) \<le> k" using o'(5) inv(5) by (simp add: within_def list_all_iff)
  then have m: "unat (oc_counter ?c + 1) = Suc (unat (oc_counter ?c))" "oc_counter ?c < oc_counter ?c + 1"
    using inv(4) by (simp_all add: unat_word_ariths word_less_nat_alt)
  have wf: "oath_wf ?o" using o'(3) inv(5) by (auto simp: oath_wf_def oath_credential_wf_def dest!: set_update_subset_insert [THEN subsetD])
  have "ahead f (oa_credentials ?o)"
    using ahead_trans [OF _ ahead_step [OF inv(5), of "oc_counter ?c + 1"]] o'(5) m(2) by (simp add: within_def)
  moreover have "list_all (\<lambda>c. unat (oc_counter c) \<le> Suc k) (oa_credentials ?o)"
    using o'(5) m(1) c inv(5) by (fastforce simp: within_def list_all_iff dest!: set_update_subset_insert [THEN subsetD])
  ultimately have w: "within (Suc k) f (oa_credentials ?o)" by (simp add: within_def)
  have sw: "stored_within (Suc k) f (oa_store ?o)" using o'(4) within_mono [of k f] by (fastforce simp: stored_within_def)
  obtain b o1 where sv: "save_state ops ?o = (b, o1)" by (rule prod.exhaust)
  note s1 = save_state_hotp [OF _ wf w sw sv]
  have i: "i < length f \<and> oc_counter (f ! i) \<le> oc_counter ?c" using o'(5) inv(5) ahead_nth by (auto simp: within_def)
  have "moved n k f o1 None" using s1 o'(2) by (auto simp: moved_def intro!: exI [of _ f])
  moreover have "moved n k f o1 (Some (i, oc_counter ?c))" if b
    unfolding moved_def using s1 o'(2) that w i m(2) inv(5) by (intro exI [of _ "oa_credentials ?o"]) (auto simp: within_def)
  moreover note moved_same(1) [OF inv(1)]
  ultimately show ?thesis
    using calc sv by (auto simp: calculate_index_def Let_def response_defs split: option.splits prod.splits if_splits bool.splits)
qed

text \<open>A command that saves the credentials as they are.\<close>

lemma save_same_hotp:
  assumes "hotp_inv (Suc n) k f o'" and "oa_loaded o'" and "\<not> oa_closed o'" and "oath_wf o1"
    and "oa_credentials o1 = oa_credentials o'" and "oa_store o1 = oa_store o'" and "save_state ops o1 = (b, o'')"
  shows "hotp_inv n k f o''"
  using assms(1-6) save_state_hotp [OF _ assms(4) _ _ assms(7), of n k f] by (auto simp: hotp_inv_def)

lemma set_code_hotp:
  assumes "\<And>x. length (oh_digest cr x) = 32"
    and "hotp_inv (Suc n) k f o'" and "oa_loaded o'" and "\<not> oa_closed o'" and "set_code cr ops a o' = (r, o'')"
  shows "hotp_inv n k f o''"
proof -
  have wf: "oath_wf o'" using assms(2) by (simp add: hotp_inv_def)
  have wf1: "oath_wf (o'\<lparr>oa_auth_key := [], oa_authenticated := False\<rparr>)"
    "length key \<le> 64 \<Longrightarrow> oath_wf (o'\<lparr>oa_auth_key := key, oa_auth_algorithm := alg,
       oa_auth_challenge := derive_challenge cr ch key', oa_authenticated := True\<rparr>)" for key alg ch key'
    using wf assms(1) by (simp_all add: oath_wf_def derive_challenge_def)
  have less: "hotp_inv n k f o'" using hotp_inv_mono [OF assms(2)] by simp
  then have key: "hotp_inv n k f (o'\<lparr>oa_auth_key := []\<rparr>)" by (simp add: hotp_inv_def oath_wf_def)
  show ?thesis
    using assms(5) key less save_same_hotp [OF assms(2-4) wf1(1)] save_same_hotp [OF assms(2-4) wf1(2)]
    by (auto simp: set_code_def extend_vec_def split: result.splits if_splits option.splits list.splits prod.splits)
qed

lemma validate_hotp:
  assumes "\<And>x. length (oh_digest cr x) = 32"
    and "hotp_inv (Suc n) k f o'" and "oa_loaded o'" and "\<not> oa_closed o'" and "validate cr ops a o' = (r, o'')"
  shows "hotp_inv n k f o''"
proof -
  have wf1: "oath_wf (o'\<lparr>oa_auth_challenge := derive_challenge cr p c, oa_authenticated := True\<rparr>)" for p c
    using assms(1,2) by (simp add: oath_wf_def derive_challenge_def hotp_inv_def)
  show ?thesis
    using assms(5) hotp_inv_mono [OF assms(2), of n k] save_same_hotp [OF assms(2-4) wf1]
    by (auto simp: validate_def split: if_splits option.splits prod.splits bool.splits)
qed

lemma hotp_inv_volatile [simp]:
  "hotp_inv n k f (o'\<lparr>oa_pending := p\<rparr>) = hotp_inv n k f o'" "hotp_inv n k f (o'\<lparr>oa_authenticated := b\<rparr>) = hotp_inv n k f o'"
  "length c = 8 \<Longrightarrow> hotp_inv n k f o' \<Longrightarrow> hotp_inv n k f (o'\<lparr>oa_auth_challenge := c\<rparr>)"
  by (simp_all add: hotp_inv_def oath_wf_def)

lemma moved_volatile [simp]: "moved n k f (o'\<lparr>oa_pending := p\<rparr>) u = moved n k f o' u"
  by (simp add: moved_def)

lemma process_hotp:
  assumes "\<And>x. length (oh_digest cr x) = 32" and "\<not> is_mutation (Ev_Apdu a)"
    and inv: "hotp_inv (Suc n) k f o'" "oa_loaded o'" "k < 2 ^ 32 - 1" and "oath_process cr ops a o' = (r, o'')"
  shows "moved n k f o'' (used_counter ops o' (Ev_Apdu a) (Some r))"
proof -
  note same = moved_same(1) [OF inv(1)]
  show ?thesis
  proof (cases "oa_closed o'")
    case True
    with assms(2,6) inv(2) same show ?thesis
      by (auto simp: oath_process_def is_mutation_def used_counter_def response_defs Let_def split: if_splits option.splits)
  next
    case False
    note calc = calculate_index_hotp [OF inv(1,2) False inv(3)]
    show ?thesis
    proof (cases "apdu_ins a = INS_CALCULATE")
      case True
      with assms(6) False inv(2) have "calculate cr ops a o' = (r, o'')" by (simp add: oath_process_def)
      with True False inv(2) calc same show ?thesis
        by (auto simp: calculate_def used_counter_def oath_index_def oath_find_def response_defs Let_def
            dest!: position_Some require_auth_Err split: result.splits option.splits if_splits)
    next
      case other: False
      have "hotp_inv n k f o''"
        using assms(2,6) False other inv(2) hotp_inv_mono [OF inv(1), of n k] set_code_hotp [OF assms(1) inv(1,2) False]
          validate_hotp [OF assms(1) inv(1,2) False]
        by (auto simp: oath_process_def is_mutation_def oath_list_def calculate_all_def split: if_splits result.splits option.splits)
      with other moved_same(2) show ?thesis by (auto simp: used_counter_def oath_index_def Let_def split: option.splits)
    qed
  qed
qed

lemma confirm_hotp:
  assumes inv: "hotp_inv (Suc n) k f o'" "oa_loaded o'" "k < 2 ^ 32 - 1" and conf: "oath_confirm cr ops o' = (r, o'')"
  shows "moved n k f o'' (used_counter ops o' Ev_Confirm (Some r))"
proof -
  have ran: "(resp_sw r = SW_OK \<and> oc_kind (oa_credentials o' ! pn_index p) = TYPE_HOTP \<longrightarrow>
        moved n k f o'' (Some (pn_index p, oc_counter (oa_credentials o' ! pn_index p)))) \<and>
      (\<not> (resp_sw r = SW_OK \<and> oc_kind (oa_credentials o' ! pn_index p) = TYPE_HOTP) \<longrightarrow> moved n k f o'' None)"
    if "\<not> oa_closed o'" "pn_index p < length (oa_credentials o')"
      "calculate_index cr ops (pn_index p) (pn_challenge p) (pn_truncated p) (o'\<lparr>oa_pending := None\<rparr>) = (r, o'')" for p
  proof -
    have "hotp_inv (Suc n) k f (o'\<lparr>oa_pending := None\<rparr>)" using inv(1) by simp
    from calculate_index_hotp [OF this _ _ inv(3) _ that(3)] inv(2) that(1,2) show ?thesis by simp
  qed
  show ?thesis
    using conf inv(2) moved_same(1) [OF inv(1)] ran
    by (auto simp: oath_confirm_def used_counter_def oath_index_def response_defs Let_def not_le split: option.splits if_splits)
qed

lemma event_hotp:
  assumes "\<And>x. length (oh_digest cr x) = 32" and "\<And>n g. length (fst (fill n g)) = n" and "\<not> is_mutation e"
    and "hotp_inv (Suc n) k f o'" and "k < 2 ^ 32 - 1" and ev: "oath_event cr ops fill e (o', g) = (r, o'', g')"
  shows "moved n k f o'' (used_counter ops o' e r)"
proof -
  let ?o = "load_state ops o'"
  note l = load_state_hotp [OF assms(4)]
  show ?thesis
  proof (cases e)
    case Ev_Select
    let ?l = "load_state ops (o'\<lparr>oa_loaded := False\<rparr>)"
    obtain r1 where sel: "oath_select ops fill o' g = (r1, o'', g')" using ev Ev_Select by (auto split: prod.splits)
    have "hotp_inv (Suc n) k f (o'\<lparr>oa_loaded := False\<rparr>)" using assms(4) by (simp add: hotp_inv_def)
    note ld = load_state_hotp [OF this]
    from oath_select_keeps [OF sel] obtain c where c: "c \<in> {oa_auth_challenge ?l, fst (fill 8 g)}"
      "o'' = ?l\<lparr>oa_auth_challenge := c, oa_pending := None, oa_authenticated := \<not> oa_closed ?l \<and> oa_auth_key ?l = []\<rparr>" by blast
    have "length c = 8" using c(1) ld assms(2) by (auto simp: hotp_inv_def oath_wf_def)
    with ld have "hotp_inv (Suc n) k f o''" unfolding c(2) by simp
    with moved_same(1) Ev_Select show ?thesis by (simp add: used_counter_def oath_index_def Let_def)
  next
    case (Ev_Apdu a)
    then obtain r1 where p: "oath_process cr ops a ?o = (r1, o'')" "r = Some r1"
      using ev by (auto simp: load_state_first split: prod.splits)
    from process_hotp [OF assms(1) _ l _ assms(5) p(1)] assms(3) Ev_Apdu p(2) show ?thesis by (simp add: load_state_first)
  next
    case Ev_Confirm
    then obtain r1 where p: "oath_confirm cr ops ?o = (r1, o'')" "r = Some r1"
      using ev by (auto simp: load_state_first split: prod.splits)
    from confirm_hotp [OF l _ assms(5) p(1)] Ev_Confirm p(2) show ?thesis by (simp add: load_state_first)
  next
    case Ev_Deny
    with ev moved_same(1) [OF assms(4)] show ?thesis
      by (auto simp: oath_deny_def used_counter_def oath_index_def split: option.splits)
  next
    case Ev_Power
    then have "hotp_inv (Suc n) k f o''" using ev assms(4) by (auto simp: oath_new_def hotp_inv_def oath_wf_def DEFAULT_CHALLENGE_def)
    with moved_same(1) Ev_Power show ?thesis by (simp add: used_counter_def oath_index_def split: option.splits)
  qed
qed

lemma run_hotp:
  assumes "\<And>x. length (oh_digest cr x) = 32" and "\<And>n g. length (fst (fill n g)) = n"
    and "list_all (\<lambda>e. \<not> is_mutation e) es" and "hotp_inv (length es) k f o'" and "k + length es < 2 ^ 32"
  shows "sorted_wrt (\<lambda>x y. fst x = fst y \<longrightarrow> snd x < snd y) (used_counters cr ops fill es (o', g)) \<and>
    (\<forall>x \<in> set (used_counters cr ops fill es (o', g)). fst x < length f \<and> oc_counter (f ! fst x) \<le> snd x)"
  using assms(3-5)
proof (induction es arbitrary: k f o' g)
  case (Cons e es)
  obtain r o1 g1 where ev: "oath_event cr ops fill e (o', g) = (r, o1, g1)" by (rule prod_cases3)
  have "k < 2 ^ 32 - 1" "hotp_inv (Suc (length es)) k f o'" using Cons.prems(2,3) by simp_all
  with event_hotp [OF assms(1,2) _ this(2,1) ev] Cons.prems(1) obtain f' where st: "hotp_inv (length es) (Suc k) f' o1" "ahead f f'"
    "\<And>i m. used_counter ops o' e r = Some (i, m) \<Longrightarrow> i < length f \<and> oc_counter (f ! i) \<le> m \<and> m < oc_counter (f' ! i)"
    by (auto simp: moved_def)
  have ih: "sorted_wrt (\<lambda>x y. fst x = fst y \<longrightarrow> snd x < snd y) (used_counters cr ops fill es (o1, g1))"
    "\<And>x. x \<in> set (used_counters cr ops fill es (o1, g1)) \<Longrightarrow> fst x < length f' \<and> oc_counter (f' ! fst x) \<le> snd x"
    using Cons.IH [OF _ st(1), of g1] Cons.prems by auto
  have later: "fst x < length f \<and> oc_counter (f ! fst x) \<le> snd x"
    if "x \<in> set (used_counters cr ops fill es (o1, g1))" for x
    using ih(2) [OF that] ahead_nth [OF st(2)] by (auto intro: order_trans)
  show ?case
  proof (cases "used_counter ops o' e r")
    case None
    with ih(1) later ev show ?thesis by simp
  next
    case (Some u)
    obtain i m where u: "u = (i, m)" by (rule prod.exhaust)
    note m = st(3) [OF Some [unfolded u]]
    have "fst x = i \<Longrightarrow> m < snd x" if "x \<in> set (used_counters cr ops fill es (o1, g1))" for x
      using ih(2) [OF that] m by auto
    with ih(1) later m ev Some u show ?thesis by auto
  qed
qed simp

end

section \<open>Touch\<close>

text \<open>The command arms the request \<open>p\<close>.\<close>

definition arms :: "'s OathStoreOps \<Rightarrow> 's Oath \<Rightarrow> Apdu \<Rightarrow> PendingCalculation \<Rightarrow> bool" where
  "arms ops o' a p \<longleftrightarrow> apdu_ins a = INS_CALCULATE \<and>
     Option.bind (tlv_find (apdu_data a) TAG_NAME) (oath_find (load_state ops o')) = Some (pn_index p) \<and>
     oc_property (oa_credentials (load_state ops o') ! pn_index p) AND PROPERTY_TOUCH \<noteq> 0 \<and>
     (let c = (case tlv_find (apdu_data a) TAG_CHALLENGE of Some c \<Rightarrow> c | None \<Rightarrow> [])
      in pn_challenge p = replicate (8 - length c) 0 @ c) \<and>
     pn_truncated p = (apdu_p2 a = 0x01)"

text \<open>A command leaves the request for touch alone, drops it, or replaces it by its own.\<close>

lemma calculate_index_keeps:
  assumes "calculate_index cr ops i ch t o' = (r, o'')"
  shows "oa_pending o'' = oa_pending o' \<and> oa_loaded o'' = oa_loaded o' \<and>
    length (oa_credentials o'') = length (oa_credentials o') \<and>
    (\<forall>j. j \<noteq> i \<longrightarrow> oa_credentials o'' ! j = oa_credentials o' ! j)"
  using assms
  by (auto simp: calculate_index_def save_state_def Let_def split: option.splits prod.splits if_splits bool.splits)

lemma calculate_index_code:
  assumes "calculate_index cr ops i ch t o' = (r, o'')" and "resp_sw r = SW_OK"
  shows "\<exists>code. compute_credential cr (oa_credentials o' ! i) ch t = Some code \<and>
    resp_data r = tlv_bytes \<lparr>tlv_tag = code_tag t, tlv_value = code\<rparr>"
  using assms by (auto simp: calculate_index_def append_tlv_eq Let_def response_defs
      split: option.splits prod.splits bool.splits if_splits)

lemma calculate_cases:
  assumes "oa_loaded o'" and "apdu_ins a = INS_CALCULATE" and "calculate cr ops a o' = (r, o'')"
  shows "o'' = o' \<or> (\<exists>p. oa_pending o'' = Some p \<and> arms ops o' a p \<and> o'' = o'\<lparr>oa_pending := Some p\<rparr> \<and> pn_index p < length (oa_credentials o')) \<or>
    (\<exists>i ch t. oc_property (oa_credentials o' ! i) AND PROPERTY_TOUCH = 0 \<and> calculate_index cr ops i ch t o' = (r, o''))"
proof -
  have "load_state ops o' = o'" using assms(1) by (simp add: load_state_def)
  with assms(2,3) show ?thesis
    by (auto simp: calculate_def arms_def oath_find_def dest: position_Some split: result.splits option.splits if_splits)
qed

lemma calculate_touch:
  assumes "oa_loaded o'" and "apdu_ins a = INS_CALCULATE" and "calculate cr ops a o' = (r, o'')" and "oa_pending o'' = Some p"
  shows "oa_loaded o'' \<and> (arms ops o' a p \<and> oa_credentials o'' = oa_credentials o' \<and> pn_index p < length (oa_credentials o') \<or>
    oa_pending o' = Some p \<and> length (oa_credentials o'') = length (oa_credentials o') \<and>
    (\<forall>j. oc_property (oa_credentials o' ! j) AND PROPERTY_TOUCH \<noteq> 0 \<longrightarrow> oa_credentials o'' ! j = oa_credentials o' ! j))"
  using calculate_cases [OF assms(1-3)]
proof (elim disjE exE conjE)
  fix i ch t
  assume i: "oc_property (oa_credentials o' ! i) AND PROPERTY_TOUCH = 0" "calculate_index cr ops i ch t o' = (r, o'')"
  have "oa_credentials o'' ! j = oa_credentials o' ! j" if "oc_property (oa_credentials o' ! j) AND PROPERTY_TOUCH \<noteq> 0" for j
    using calculate_index_keeps [OF i(2)] i(1) that by (cases "j = i") auto
  with calculate_index_keeps [OF i(2)] assms(1,4) show ?thesis by simp
qed (use assms in auto)

lemma calculate_closed: "calculate cr ops a o' = (r, o'') \<Longrightarrow> oa_closed o'' = oa_closed o'"
  by (auto simp: calculate_def calculate_index_def save_state_def Let_def split: result.splits option.splits if_splits prod.splits bool.splits)

text \<open>The other commands that keep the request keep the credentials.\<close>

lemma process_touch:
  assumes "oa_loaded o'" and "oa_closed o' \<longrightarrow> oa_pending o' = None"
    and "oath_process cr ops a o' = (r, o'')" and "oa_pending o'' = Some p"
  shows "oa_loaded o'' \<and> \<not> oa_closed o'' \<and>
    (arms ops o' a p \<and> oa_credentials o'' = oa_credentials o' \<and> pn_index p < length (oa_credentials o') \<or>
     \<not> is_mutation (Ev_Apdu a) \<and> oa_pending o' = Some p \<and> length (oa_credentials o'') = length (oa_credentials o') \<and>
     (\<forall>j. oc_property (oa_credentials o' ! j) AND PROPERTY_TOUCH \<noteq> 0 \<longrightarrow> oa_credentials o'' ! j = oa_credentials o' ! j))"
proof (cases "apdu_ins a = INS_CALCULATE \<and> \<not> oa_closed o'")
  case True
  with assms have "calculate cr ops a o' = (r, o'')" by (simp add: oath_process_def load_state_def)
  with calculate_touch [OF assms(1) _ this assms(4)] calculate_closed [OF this] True show ?thesis
    by (auto simp: is_mutation_def)
next
  case False
  with assms have "oa_loaded o'' \<and> \<not> oa_closed o'' \<and> \<not> is_mutation (Ev_Apdu a) \<and> oa_pending o' = Some p \<and>
      oa_credentials o'' = oa_credentials o'"
    by (auto simp: oath_process_def load_state_def is_mutation_def oath_put_def oath_delete_def set_code_def oath_reset_def
        oath_list_def validate_def calculate_all_def save_state_def Let_def
        split: if_splits result.splits option.splits prod.splits list.splits bool.splits)
  then show ?thesis by simp
qed

text \<open>A request for touch is alive only on a loaded applet that is not closed.\<close>

text \<open>Other secrets for the credentials that require touch, and what an answer may carry that no touch confirmed.\<close>

definition hide_touch :: "(OathCredential \<Rightarrow> bytes) \<Rightarrow> 's Oath \<Rightarrow> 's Oath" where
  "hide_touch secret o' = o'\<lparr>oa_credentials :=
     map (\<lambda>c. if oc_property c AND PROPERTY_TOUCH \<noteq> 0 then c\<lparr>oc_secret := secret c\<rparr> else c) (oa_credentials o')\<rparr>"

definition without_touch :: "OathCrypto \<Rightarrow> 's OathStoreOps \<Rightarrow> 's Oath \<Rightarrow> Apdu \<Rightarrow> Response \<Rightarrow> bool" where
  "without_touch cr ops o' a r \<longleftrightarrow>
     resp_data r = [] \<or>
     apdu_ins a = INS_CALCULATE \<and> (\<exists>i ch code. oath_index ops o' (Ev_Apdu a) = Some i \<and>
       oc_property (oa_credentials (load_state ops o') ! i) AND PROPERTY_TOUCH = 0 \<and>
       compute_credential cr (oa_credentials (load_state ops o') ! i) ch (apdu_p2 a = 0x01) = Some code \<and>
       resp_data r = tlv_bytes \<lparr>tlv_tag = code_tag (apdu_p2 a = 0x01), tlv_value = code\<rparr>) \<or>
     apdu_ins a = INS_VALIDATE \<and> (\<exists>ch v. hmac_digest cr (oa_auth_algorithm (load_state ops o')) (oa_auth_key (load_state ops o')) ch = Some v \<and>
       resp_data r = tlv_bytes \<lparr>tlv_tag = TAG_RESPONSE, tlv_value = v\<rparr>) \<or>
     apdu_ins a \<in> {INS_LIST, INS_CALCULATE_ALL} \<and> (\<forall>secret. fst (oath_process cr ops a (hide_touch secret (load_state ops o'))) = r)"

lemma load_hidden: "load_state ops (hide_touch secret (load_state ops o')) = hide_touch secret (load_state ops o')"
  using load_state_loaded [of ops o'] by (simp add: load_state_def [of _ "hide_touch _ _"] hide_touch_def)

lemma hide_touch_simps:
  "oa_closed (hide_touch secret o') = oa_closed o'" "require_auth (hide_touch secret o') = require_auth o'"
  by (simp_all add: hide_touch_def require_auth_def)

lemma list_loop_hidden: "list_loop (oa_credentials (hide_touch secret o')) out = list_loop (oa_credentials o') out"
proof -
  have "list_loop (map (\<lambda>c. if oc_property c AND PROPERTY_TOUCH \<noteq> 0 then c\<lparr>oc_secret := secret c\<rparr> else c) cs) out = list_loop cs out" for cs out
    by (induction cs out rule: list_loop.induct) (auto split: option.splits)
  then show ?thesis by (simp add: hide_touch_def)
qed

lemma calculate_all_hidden:
  "calculate_all_loop cr ch t (oa_credentials (hide_touch secret o')) out = calculate_all_loop cr ch t (oa_credentials o') out"
proof -
  have "calculate_all_loop cr ch t (map (\<lambda>c. if oc_property c AND PROPERTY_TOUCH \<noteq> 0 then c\<lparr>oc_secret := secret c\<rparr> else c) cs) out =
      calculate_all_loop cr ch t cs out" for cs out
    by (induction cs arbitrary: out) (auto split: option.splits)
  then show ?thesis by (simp add: hide_touch_def)
qed

lemma answers_hidden:
  "fst (oath_list (hide_touch secret o')) = fst (oath_list o')"
  "fst (calculate_all cr a (hide_touch secret o')) = fst (calculate_all cr a o')"
  by (simp_all add: oath_list_def calculate_all_def hide_touch_simps list_loop_hidden calculate_all_hidden split: result.split option.split)

lemma silent_commands:
  "resp_data (fst (oath_put ops a o')) = []" "resp_data (fst (oath_delete ops a o')) = []"
  "resp_data (fst (set_code cr ops a o')) = []" "resp_data (fst (oath_reset ops o')) = []"
  by (auto simp: oath_put_def oath_delete_def set_code_def oath_reset_def saved_status_def Let_def response_defs
      split: result.splits option.splits prod.splits list.splits bool.splits if_splits)

lemma calculate_index_answer:
  "resp_data (fst (calculate_index cr ops i ch t o')) = [] \<or>
   (\<exists>code. compute_credential cr (oa_credentials o' ! i) ch t = Some code \<and>
      resp_data (fst (calculate_index cr ops i ch t o')) = tlv_bytes \<lparr>tlv_tag = code_tag t, tlv_value = code\<rparr>)"
  by (auto simp: calculate_index_def append_tlv_eq Let_def response_defs split: option.splits prod.splits bool.splits)

lemma calculate_answer:
  "resp_data (fst (calculate cr ops a o')) = [] \<or>
   (\<exists>i ch code. Option.bind (tlv_find (apdu_data a) TAG_NAME) (oath_find o') = Some i \<and> oc_property (oa_credentials o' ! i) AND PROPERTY_TOUCH = 0 \<and>
      compute_credential cr (oa_credentials o' ! i) ch (apdu_p2 a = 0x01) = Some code \<and>
      resp_data (fst (calculate cr ops a o')) = tlv_bytes \<lparr>tlv_tag = code_tag (apdu_p2 a = 0x01), tlv_value = code\<rparr>)"
proof (cases "\<exists>i ch. calculate cr ops a o' = calculate_index cr ops i ch (apdu_p2 a = 0x01) o' \<and>
    Option.bind (tlv_find (apdu_data a) TAG_NAME) (oath_find o') = Some i \<and> oc_property (oa_credentials o' ! i) AND PROPERTY_TOUCH = 0")
  case True
  with calculate_index_answer show ?thesis by metis
next
  case False
  then show ?thesis by (auto simp: calculate_def Let_def response_defs split: result.splits option.splits if_splits)
qed

lemma validate_answer:
  "resp_data (fst (validate cr ops a o')) = [] \<or>
   (\<exists>ch v. hmac_digest cr (oa_auth_algorithm o') (oa_auth_key o') ch = Some v \<and>
      resp_data (fst (validate cr ops a o')) = tlv_bytes \<lparr>tlv_tag = TAG_RESPONSE, tlv_value = v\<rparr>)"
  by (auto simp: validate_def append_tlv_eq response_defs split: option.splits prod.splits bool.splits)

lemma process_without_touch: "without_touch cr ops o' a (fst (oath_process cr ops a o'))"
proof -
  let ?o = "load_state ops o'"
  have same: "fst (oath_process cr ops a (hide_touch secret ?o)) = fst (oath_process cr ops a o')" if "apdu_ins a \<in> {INS_LIST, INS_CALCULATE_ALL}" for secret
    using that by (auto simp: oath_process_def Let_def load_hidden hide_touch_simps answers_hidden)
  show ?thesis
  proof (cases "apdu_ins a \<in> {INS_LIST, INS_CALCULATE_ALL}")
    case True
    with same show ?thesis by (simp add: without_touch_def)
  next
    case False
    with calculate_answer [of cr ops a ?o] validate_answer [of cr ops a ?o] show ?thesis
      by (auto simp: without_touch_def oath_process_def oath_index_def Let_def silent_commands response_defs)
  qed
qed

definition touch_inv :: "'s Oath \<Rightarrow> bool" where
  "touch_inv o' \<longleftrightarrow> (oa_pending o' \<noteq> None \<longrightarrow> oa_loaded o' \<and> \<not> oa_closed o')"

lemma load_state_touch:
  assumes "touch_inv o'"
  shows "touch_inv (load_state ops o') \<and> oa_pending (load_state ops o') = oa_pending o' \<and>
    (oa_pending o' \<noteq> None \<longrightarrow> load_state ops o' = o')"
proof (cases "oa_loaded o'")
  case False
  with assms have "oa_pending o' = None" by (simp add: touch_inv_def)
  then have "oa_pending (load_state ops o') = None"
    by (auto simp: load_state_def Let_def oath_close_def reset_volatile_state_def decode_state_def
        split: prod.splits option.splits bool.splits if_splits)
  then show ?thesis using \<open>oa_pending o' = None\<close> by (simp add: touch_inv_def)
qed (use assms in \<open>simp add: load_state_def\<close>)

lemma event_touch:
  assumes "touch_inv o'" and "oath_event cr ops fill e (o', g) = (r, o'', g')"
  shows "touch_inv o'' \<and> (\<forall>p. oa_pending o'' = Some p \<longrightarrow> (\<exists>a. e = Ev_Apdu a \<and>
    (arms ops o' a p \<and> oa_credentials o'' = oa_credentials (load_state ops o') \<or>
     \<not> is_mutation e \<and> oa_pending o' = Some p \<and>
     (\<forall>j. oc_property (oa_credentials o' ! j) AND PROPERTY_TOUCH \<noteq> 0 \<longrightarrow> oa_credentials o'' ! j = oa_credentials o' ! j))))"
proof (cases e)
  case Ev_Select
  then have "oa_pending o'' = None" using assms(2) oath_select_keeps by (fastforce split: prod.splits)
  then show ?thesis by (simp add: touch_inv_def)
next
  case (Ev_Apdu a)
  let ?o = "load_state ops o'"
  obtain r1 where "oath_process cr ops a ?o = (r1, o'')"
    using assms(2) Ev_Apdu by (auto simp: load_state_first split: prod.splits)
  note p = process_touch [OF load_state_loaded _ this]
  have "arms ops ?o a p = arms ops o' a p" for p by (simp add: arms_def)
  note arm = this
  note l = load_state_touch [OF assms(1), of ops]
  show ?thesis
  proof (cases "oa_pending o''")
    case (Some q)
    have "oa_closed ?o \<longrightarrow> oa_pending ?o = None" using l by (auto simp: touch_inv_def)
    note p [OF this Some, unfolded arm]
    then show ?thesis
      using Ev_Apdu Some l by (cases "oa_pending o'") (simp_all add: touch_inv_def, blast)
  qed (simp add: touch_inv_def)
next
  case Ev_Confirm
  then obtain r1 where c: "oath_confirm cr ops o' = (r1, o'')" using assms(2) by (auto split: prod.splits)
  have "oa_pending o'' = None"
    using c load_state_touch [OF assms(1), of ops]
    by (auto simp: oath_confirm_def Let_def touch_inv_def dest: calculate_index_keeps split: if_splits option.splits)
  then show ?thesis by (simp add: touch_inv_def)
qed (use assms in \<open>auto simp: oath_deny_def oath_new_def touch_inv_def\<close>)

text \<open>The request that is alive after a run is that of the last CALCULATE that armed one.\<close>

definition armed_by ::
    "OathCrypto \<Rightarrow> 's OathStoreOps \<Rightarrow> 'g fill \<Rightarrow> 's Oath \<times> 'g \<Rightarrow> OathEvent list \<Rightarrow> PendingCalculation \<Rightarrow> OathCredential \<Rightarrow> bool" where
  "armed_by cr ops fill w es p c \<longleftrightarrow> (\<exists>pre a post. es = pre @ Ev_Apdu a # post \<and>
     (case oath_run cr ops fill pre w of (_, o', _) \<Rightarrow>
        arms ops o' a p \<and> c = oa_credentials (load_state ops o') ! pn_index p) \<and>
     list_all (\<lambda>e. (\<exists>b. e = Ev_Apdu b) \<and> \<not> is_mutation e) post)"

lemma oath_run_snoc:
  "oath_run cr ops fill (es @ [e]) w = (case oath_run cr ops fill es w of (rs, w) \<Rightarrow>
     (case oath_event cr ops fill e w of (r, w) \<Rightarrow> (rs @ [r], w)))"
  by (induction es arbitrary: w) (auto split: prod.splits)

lemma run_touch:
  assumes "touch_inv o0" and "oa_pending o0 = None" and "oath_run cr ops fill es (o0, g) = (rs, o', g')"
  shows "touch_inv o' \<and> (\<forall>p. oa_pending o' = Some p \<longrightarrow>
    oc_property (oa_credentials o' ! pn_index p) AND PROPERTY_TOUCH \<noteq> 0 \<and>
    armed_by cr ops fill (o0, g) es p (oa_credentials o' ! pn_index p))"
  using assms(3)
proof (induction es arbitrary: rs o' g' rule: rev_induct)
  case (snoc e es)
  obtain rs1 o1 g1 where run: "oath_run cr ops fill es (o0, g) = (rs1, o1, g1)" by (rule prod_cases3)
  with snoc.prems obtain r where ev: "oath_event cr ops fill e (o1, g1) = (r, o', g')"
    by (auto simp: oath_run_snoc split: prod.splits)
  note ih = snoc.IH [OF run]
  note st = event_touch [OF conjunct1 [OF ih] ev]
  have "oc_property (oa_credentials o' ! pn_index p) AND PROPERTY_TOUCH \<noteq> 0 \<and>
      armed_by cr ops fill (o0, g) (es @ [e]) p (oa_credentials o' ! pn_index p)" if pend: "oa_pending o' = Some p" for p
  proof -
    from st pend obtain a where a: "e = Ev_Apdu a" and
      "arms ops o1 a p \<and> oa_credentials o' = oa_credentials (load_state ops o1) \<or>
       \<not> is_mutation e \<and> oa_pending o1 = Some p \<and>
       (\<forall>j. oc_property (oa_credentials o1 ! j) AND PROPERTY_TOUCH \<noteq> 0 \<longrightarrow> oa_credentials o' ! j = oa_credentials o1 ! j)"
      by auto
    then consider (new) "arms ops o1 a p" "oa_credentials o' = oa_credentials (load_state ops o1)"
      | (old) "\<not> is_mutation e" "oa_pending o1 = Some p" "oa_credentials o' ! pn_index p = oa_credentials o1 ! pn_index p"
      using ih by blast
    then show ?thesis
    proof cases
      case new
      then have "armed_by cr ops fill (o0, g) (es @ [e]) p (oa_credentials o' ! pn_index p)"
        unfolding armed_by_def using run a by (intro exI [of _ es] exI [of _ a] exI [of _ "[]"]) simp
      then show ?thesis using new by (simp add: arms_def)
    next
      case old
      with ih obtain pre b post where "es = pre @ Ev_Apdu b # post"
        "case oath_run cr ops fill pre (o0, g) of (_, o', _) \<Rightarrow>
           arms ops o' b p \<and> oa_credentials o1 ! pn_index p = oa_credentials (load_state ops o') ! pn_index p"
        "list_all (\<lambda>e. (\<exists>b. e = Ev_Apdu b) \<and> \<not> is_mutation e) post"
        by (auto simp: armed_by_def)
      then have "armed_by cr ops fill (o0, g) (es @ [e]) p (oa_credentials o' ! pn_index p)"
        unfolding armed_by_def using a old by (intro exI [of _ pre] exI [of _ b] exI [of _ "post @ [e]"]) simp
      then show ?thesis using ih old by simp
    qed
  qed
  with st show ?case by blast
qed (use assms in auto)

section \<open>Credentials that survive\<close>

lemma parse_put_secret: "parse_put d = Some (name, key, property, counter) \<Longrightarrow> length (pk_secret key) \<le> MAX_SECRET"
  by (auto simp: parse_put_def extend_vec_def Let_def split: option.splits if_splits result.splits)

lemma parse_put_algorithm:
  "parse_put d = Some (name, key, property, counter) \<Longrightarrow> pk_algorithm key \<in> {ALGORITHM_SHA1, ALGORITHM_SHA256, ALGORITHM_SHA512}"
  by (auto simp: parse_put_def Let_def split: option.splits if_splits result.splits)

text \<open>The truncation of RFC 4226.\<close>

definition dynamic_truncation :: "bytes \<Rightarrow> u32" where
  "dynamic_truncation d = of_be_bytes (take 4 (drop (unat (last d AND 0x0F)) d)) AND 0x7FFFFFFF"

lemma truncated_binary:
  "push_bit 24 (ucast (w :: u8) AND 0x7F) OR push_bit 16 (ucast (x :: u8)) OR push_bit 8 (ucast (y :: u8)) OR (ucast (z :: u8) :: u32) =
     of_be_bytes [w, x, y, z] AND 0x7FFFFFFF"
proof -
  have m: "(0x7F :: u32) = mask 7" "(0x7FFFFFFF :: u32) = mask 31" by (simp_all add: mask_eq_exp_minus_1)
  show ?thesis unfolding m by (rule bit_word_eqI) (auto simp: of_be_bytes_def bit_simps dest: bit_imp_le_length)
qed

lemma compute_credential_truncated:
  assumes "hmac_digest cr (oc_algorithm c) (oc_secret c) (if oc_kind c = TYPE_HOTP then be_bytes 8 (ucast (oc_counter c) :: u64) else ch) = Some d"
    and "20 \<le> length d" and "length ch = 8"
  shows "compute_credential cr c ch True = Some (oc_digits c # be_bytes 4 (dynamic_truncation d))"
proof -
  define n where "n = unat (last d AND 0x0F)"
  have "last d AND 0x0F \<le> 0x0F" by (rule word_and_le1)
  then have "n \<le> 15" unfolding n_def by (simp add: word_le_nat_alt)
  with assms(2) have n: "n + 4 \<le> length d" by simp
  then have "take 4 (drop n d) = [d ! n, d ! (n + 1), d ! (n + 2), d ! (n + 3)]"
    by (auto intro!: nth_equalityI simp: less_Suc_eq numeral_eq_Suc)
  then have dt: "push_bit 24 (ucast (d ! n) AND 0x7F) OR push_bit 16 (ucast (d ! (n + 1))) OR
      push_bit 8 (ucast (d ! (n + 2))) OR ucast (d ! (n + 3)) = dynamic_truncation d"
    unfolding dynamic_truncation_def truncated_binary n_def [symmetric] by simp
  have mf: "(if oc_kind c = TYPE_HOTP then Some (be_bytes 8 (ucast (oc_counter c) :: u64)) else if length ch \<noteq> 8 then None else Some ch) =
      Some (if oc_kind c = TYPE_HOTP then be_bytes 8 (ucast (oc_counter c) :: u64) else ch)" using assms(3) by simp
  show ?thesis
    unfolding compute_credential_def mf option.case assms(1) Let_def n_def [symmetric] dt
    using n by (auto simp: extend_vec_def)
qed

lemma oath_parse_wf:
  assumes "oath_parse b = Some (cs, key, alg, ch)"
  shows "length cs \<le> OATH_MAX_CREDENTIALS \<and> (\<forall>c \<in> set cs. oath_credential_wf c) \<and> length ch = 8"
  using assms decode_credentials_wf [of _ _ "[]" True cs]
  by (fastforce simp: oath_parse_def dest: decode_header_wf split: option.splits prod.splits bool.splits)

definition put_credential :: "bytes \<Rightarrow> ParsedKey \<Rightarrow> u8 \<Rightarrow> u32 \<Rightarrow> OathCredential" where
  "put_credential name key property counter = \<lparr>oc_name = name, oc_kind = pk_kind key, oc_algorithm = pk_algorithm key,
     oc_digits = pk_digits key, oc_property = property, oc_counter = counter, oc_period = credential_period name,
     oc_secret = pk_secret key\<rparr>"

context working_oath_store
begin

text \<open>The state of the applet that the store holds, without an access code.\<close>

definition opens :: "nat \<Rightarrow> 's \<Rightarrow> OathCredential list \<Rightarrow> bool" where
  "opens n s cs \<longleftrightarrow> inv n s \<and> (holds s = Some [] \<and> cs = [] \<or>
     (\<exists>b alg ch. holds s = Some b \<and> oath_parse b = Some (cs, [], alg, ch)))"

definition open_state :: "nat \<Rightarrow> OathCredential list \<Rightarrow> 's Oath \<Rightarrow> bool" where
  "open_state n cs o' \<longleftrightarrow> oa_loaded o' \<and> \<not> oa_closed o' \<and> oa_auth_key o' = [] \<and> oa_credentials o' = cs \<and>
     inv n (oa_store o') \<and> oath_wf o'"

lemma load_state_open:
  assumes "opens n (oa_store o') cs" and "\<not> oa_loaded o'"
  shows "open_state n cs (load_state ops o')"
proof -
  obtain r s where l: "ost_load ops STATE_BYTES (oa_store o') = (r, s)" by (rule prod.exhaust)
  have s: "inv n s" "holds s = holds (oa_store o')" "r = holds s"
    using load_law [OF _ l] load_works [of n "oa_store o'"] l assms(1) by (auto simp: opens_def)
  let ?o = "o'\<lparr>oa_loaded := True, oa_store := s\<rparr>"
  from assms(1) consider "holds s = Some []" "cs = []"
    | b alg ch where "holds s = Some b" "oath_parse b = Some (cs, [], alg, ch)" by (auto simp: opens_def s(2))
  then show ?thesis
  proof cases
    case 1
    then have "ost_load ops STATE_BYTES (oa_store o') = (Some [], s)" using l s(3) by simp
    with 1(2) s(1) assms(2) show ?thesis
      by (simp add: load_state_def open_state_def reset_volatile_state_def oath_wf_def DEFAULT_CHALLENGE_def)
  next
    case 2
    then have "decode_state ?o b = (True, ?o\<lparr>oa_credentials := cs, oa_auth_key := [], oa_auth_algorithm := alg, oa_auth_challenge := ch\<rparr>)"
      by (simp add: decode_state_parse)
    moreover have "b \<noteq> []" "ost_load ops STATE_BYTES (oa_store o') = (Some b, s)" using 2 l s(3) by auto
    ultimately show ?thesis
      using s(1) assms(2) oath_parse_wf [OF 2(2)] by (simp add: load_state_def open_state_def oath_wf_def)
  qed
qed

lemma save_state_open:
  assumes "inv (Suc n) (oa_store o')" and "oath_wf o'" and "oa_auth_key o' = []"
  shows "\<exists>s. save_state ops o' = (True, o'\<lparr>oa_store := s\<rparr>) \<and> opens n s (oa_credentials o')"
proof -
  obtain b s where sv: "ost_save ops (oa_store o') (encode_state o') = (b, s)" by (rule prod.exhaust)
  note len = encode_state_length [OF assms(2)]
  from save_works [OF assms(1) len] sv have "b" by simp
  with save_law [OF assms(1) len sv] oath_roundtrip [OF assms(2)] assms(3) sv show ?thesis
    by (auto simp: save_state_def opens_def)
qed

lemma put_open:
  assumes "open_state (Suc n) cs o'" and "parse_put (apdu_data a) = Some (name, key, property, counter)"
    and "name \<noteq> []" and "length name \<le> MAX_NAME" and "pk_secret key \<noteq> []"
    and "length cs < OATH_MAX_CREDENTIALS \<or> name \<in> oc_name ` set cs" and "apdu_ins a = INS_PUT"
    and "oath_process cr ops a o' = (r, o'')"
  shows "r = response_status SW_OK \<and> (\<exists>cs' i. opens n (oa_store o'') cs' \<and>
    position (\<lambda>c. oc_name c = name) cs' = Some i \<and> cs' ! i = put_credential name key property counter)"
proof -
  let ?c = "put_credential name key property counter"
  let ?o = "o'\<lparr>oa_pending := None\<rparr>"
  have wf: "oath_credential_wf ?c" using assms(4) parse_put_secret [OF assms(2)] by (simp add: oath_credential_wf_def put_credential_def)
  define cs' where "cs' = (case position (\<lambda>c. oc_name c = name) cs of Some i \<Rightarrow> cs[i := ?c] | None \<Rightarrow> cs @ [?c])"
  have ins: "(case oath_find ?o name of Some i \<Rightarrow> Some ((oa_credentials ?o)[i := ?c])
      | None \<Rightarrow> vec_push OATH_MAX_CREDENTIALS (oa_credentials ?o) ?c) = Some cs'"
    using assms(1,6) by (cases "position (\<lambda>c. oc_name c = name) cs") (auto simp: oath_find_def open_state_def cs'_def vec_push_def dest: position_None [THEN iffD1])
  have "\<exists>i. position (\<lambda>c. oc_name c = name) cs' = Some i \<and> cs' ! i = ?c"
    unfolding cs'_def by (rule position_upsert) (simp add: put_credential_def)
  moreover have "oath_wf (?o\<lparr>oa_credentials := cs'\<rparr>)"
    using assms(1,6) wf
    by (cases "position (\<lambda>c. oc_name c = name) cs")
       (auto simp: open_state_def oath_wf_def cs'_def dest: position_None [THEN iffD1] set_update_subset_insert [THEN subsetD])
  then obtain s where "save_state ops (?o\<lparr>oa_credentials := cs'\<rparr>) = (True, ?o\<lparr>oa_credentials := cs', oa_store := s\<rparr>)" "opens n s cs'"
    using save_state_open [of n "?o\<lparr>oa_credentials := cs'\<rparr>"] assms(1) by (auto simp: open_state_def)
  moreover from this(1) have "oath_process cr ops a o' = (response_status SW_OK, ?o\<lparr>oa_credentials := cs', oa_store := s\<rparr>)"
    using assms(1-5,7) ins
    by (simp add: oath_process_def open_state_def oath_put_def require_auth_def saved_status_def Let_def flip: put_credential_def)
  ultimately show ?thesis using assms(8) by auto
qed

lemma calculate_open:
  assumes "open_state (Suc n) cs o'" and "apdu_ins b = INS_CALCULATE" and "apdu_p2 b = 1" and "tlv_find (apdu_data b) TAG_NAME = Some name"
    and "position (\<lambda>c. oc_name c = name) cs = Some i" and "oc_property (cs ! i) AND PROPERTY_TOUCH = 0"
    and "tlv_find (apdu_data b) TAG_CHALLENGE = Some ch" and "compute_credential cr (cs ! i) ch True = Some code" and "length code = 5"
  shows "fst (oath_process cr ops b o') = response_ok (tlv_bytes \<lparr>tlv_tag = TAG_TRUNCATED, tlv_value = code\<rparr>)"
proof -
  let ?o = "o'\<lparr>oa_credentials := (oa_credentials o')[i := (cs ! i)\<lparr>oc_counter := oc_counter (cs ! i) + 1\<rparr>]\<rparr>"
  have i: "i < length cs" using assms(5) by (simp add: position_eq_Some)
  then have "oath_credential_wf (cs ! i)" using assms(1) by (simp add: open_state_def oath_wf_def)
  then have "oath_wf ?o"
    using assms(1) by (auto simp: open_state_def oath_wf_def oath_credential_wf_def dest: set_update_subset_insert [THEN subsetD])
  then obtain s where "save_state ops ?o = (True, ?o\<lparr>oa_store := s\<rparr>)"
    using save_state_open [of n ?o] assms(1) by (auto simp: open_state_def)
  moreover have "append_tlv OATH_OUT [] (code_tag True) code = Some (tlv_bytes \<lparr>tlv_tag = TAG_TRUNCATED, tlv_value = code\<rparr>)"
    using assms(9) by (simp add: append_tlv_eq code_tag_def encoded_len_def tag_encoded_len_def length_encoded_len_def)
  ultimately have "fst (calculate_index cr ops i ch True o') = response_ok (tlv_bytes \<lparr>tlv_tag = TAG_TRUNCATED, tlv_value = code\<rparr>)"
    using assms(1,8) by (auto simp: calculate_index_def open_state_def Let_def)
  with assms(1-7) show ?thesis
    by (auto simp: oath_process_def open_state_def calculate_def require_auth_def oath_find_def Let_def)
qed

lemma select_open:
  assumes "opens n (oa_store o') cs" and "oath_select ops fill o' g = (r, o'', g')"
  shows "open_state n cs o''"
proof -
  have "open_state n cs (load_state ops (o'\<lparr>oa_loaded := False\<rparr>))" using load_state_open [of n "o'\<lparr>oa_loaded := False\<rparr>" cs] assms(1) by simp
  then show ?thesis
    using assms(2) by (auto simp: oath_select_def open_state_def oath_wf_def Let_def dest: select_response_keeps split: prod.splits)
qed

lemma put_survives:
  assumes "opens 2 st cs" and "apdu_ins a = INS_PUT" and "parse_put (apdu_data a) = Some (name, key, property, counter)"
    and "name \<noteq> []" and "length name \<le> MAX_NAME" and "pk_secret key \<noteq> []" and "property AND PROPERTY_TOUCH = 0"
    and "length cs < OATH_MAX_CREDENTIALS \<or> name \<in> oc_name ` set cs"
    and "apdu_ins b = INS_CALCULATE" and "apdu_p2 b = 1" and "tlv_find (apdu_data b) TAG_NAME = Some name"
    and "tlv_find (apdu_data b) TAG_CHALLENGE = Some ch"
    and "compute_credential cr (put_credential name key property counter) ch True = Some code" and "length code = 5"
  shows "\<exists>r w. oath_run cr ops fill [Ev_Apdu a, Ev_Power, Ev_Select, Ev_Apdu b] (oath_new st, g) =
    ([Some (response_status SW_OK), None, Some r, Some (response_ok (tlv_bytes \<lparr>tlv_tag = TAG_TRUNCATED, tlv_value = code\<rparr>))], w)"
proof -
  let ?o = "load_state ops (oath_new st)"
  have o: "open_state (Suc (Suc 0)) cs ?o" using load_state_open [of 2 "oath_new st" cs] assms(1) by (simp add: oath_new_def numeral_2_eq_2)
  obtain r1 o1 where p: "oath_process cr ops a ?o = (r1, o1)" by (rule prod.exhaust)
  from put_open [OF o assms(3-6,8,2) p] obtain cs' i where put: "r1 = response_status SW_OK" "opens (Suc 0) (oa_store o1) cs'"
    "position (\<lambda>c. oc_name c = name) cs' = Some i" "cs' ! i = put_credential name key property counter" by blast
  obtain r2 o2 g2 where sel: "oath_select ops fill (oath_new (oa_store o1)) g = (r2, o2, g2)" by (rule prod_cases3)
  have o2: "open_state (Suc 0) cs' o2" using select_open [OF _ sel] put(2) by (simp add: oath_new_def)
  obtain r3 o3 where c: "oath_process cr ops b o2 = (r3, o3)" by (rule prod.exhaust)
  have "r3 = response_ok (tlv_bytes \<lparr>tlv_tag = TAG_TRUNCATED, tlv_value = code\<rparr>)"
    using calculate_open [OF o2 assms(9-11) put(3) _ assms(12), of cr code] put(4) assms(7,13,14) c by (simp add: put_credential_def)
  with p put(1) sel c show ?thesis by (simp add: load_state_first)
qed

end

section \<open>Properties\<close>

text \<open>Instances for the witnesses: the memory store with one credential, and digests that copy their input.\<close>

definition demo_crypto :: OathCrypto where
  "demo_crypto = (let d = (\<lambda>n k m. take n (m @ k @ replicate n 7))
     in \<lparr>oh_sha1 = d 20, oh_sha256 = d 32, oh_sha512 = d 64, oh_digest = d 32 []\<rparr>)"

definition demo_fill :: "nat fill" where
  "demo_fill n g = (replicate n (of_nat g), Suc g)"

definition demo_credential :: "u8 \<Rightarrow> u8 \<Rightarrow> OathCredential" where
  "demo_credential kind property = \<lparr>oc_name = [1, 2], oc_kind = kind, oc_algorithm = ALGORITHM_SHA1, oc_digits = 6,
     oc_property = property, oc_counter = 5, oc_period = 30, oc_secret = [9, 8]\<rparr>"

definition demo_bytes :: "u8 \<Rightarrow> u8 \<Rightarrow> bytes \<Rightarrow> bytes" where
  "demo_bytes kind property code = encode_state ((oath_new memory_oath_new)
     \<lparr>oa_credentials := [demo_credential kind property], oa_auth_key := code\<rparr>)"

definition demo_store :: "u8 \<Rightarrow> u8 \<Rightarrow> bytes \<Rightarrow> MemoryOathStore" where
  "demo_store kind property code = snd (memory_oath_save memory_oath_new (demo_bytes kind property code))"

definition demo_calculate :: Apdu where
  "demo_calculate = \<lparr>apdu_cla = 0, apdu_ins = INS_CALCULATE, apdu_p1 = 0, apdu_p2 = 1,
     apdu_data = [0x71, 2, 1, 2, 0x74, 8, 0, 0, 0, 0, 0, 0, 0, 1], apdu_le = None, apdu_extended = False\<rparr>"

lemma demo_store_holds:
  assumes "length code \<le> MAX_SECRET"
  shows "memory_oath_inv n (demo_store kind property code)"
    "memory_oath_holds (demo_store kind property code) = Some (demo_bytes kind property code)"
    "oath_parse (demo_bytes kind property code) = Some ([demo_credential kind property], code, ALGORITHM_SHA1, DEFAULT_CHALLENGE)"
proof -
  let ?o = "(oath_new memory_oath_new)\<lparr>oa_credentials := [demo_credential kind property], oa_auth_key := code\<rparr>"
  have wf: "oath_wf ?o" using assms by (simp add: oath_wf_def oath_new_def oath_credential_wf_def demo_credential_def DEFAULT_CHALLENGE_def)
  obtain b s where sv: "ost_save memory_oath_ops memory_oath_new (encode_state ?o) = (b, s)" by (rule prod.exhaust)
  have inv: "memory_oath_inv (Suc n) memory_oath_new" by (simp add: memory_oath_defs)
  have "length (encode_state ?o) \<le> STATE_BYTES" using encode_state_length [OF wf] by simp
  with memory_oath.save_law [OF inv _ sv] memory_oath.save_works [OF inv, of "encode_state ?o"] sv
  have "memory_oath_inv n s" "memory_oath_holds s = Some (encode_state ?o)" by auto
  moreover have "demo_store kind property code = s" using sv by (simp add: demo_store_def demo_bytes_def memory_oath_ops_def)
  ultimately show "memory_oath_inv n (demo_store kind property code)"
    "memory_oath_holds (demo_store kind property code) = Some (demo_bytes kind property code)"
    "oath_parse (demo_bytes kind property code) = Some ([demo_credential kind property], code, ALGORITHM_SHA1, DEFAULT_CHALLENGE)"
    using oath_roundtrip [OF wf] by (simp_all add: oath_new_def demo_bytes_def)
qed

lemma demo_loaded:
  "load_state memory_oath_ops (oath_new (demo_store kind property [])) = (oath_new (demo_store kind property []))
     \<lparr>oa_loaded := True, oa_credentials := [demo_credential kind property]\<rparr>"
proof -
  let ?s = "demo_store kind property []"
  let ?o = "(oath_new ?s)\<lparr>oa_loaded := True\<rparr>"
  obtain b where h: "memory_oath_inv 0 ?s" "memory_oath_holds ?s = Some b"
      "oath_parse b = Some ([demo_credential kind property], [], ALGORITHM_SHA1, DEFAULT_CHALLENGE)"
    using demo_store_holds [where code = "[]" and kind = kind and property = property] by auto
  then have "b \<noteq> []" by auto
  moreover have "decode_state ?o b = (True, ?o\<lparr>oa_credentials := [demo_credential kind property]\<rparr>)"
    using h(3) by (simp add: decode_state_parse oath_new_def)
  moreover have "ost_load memory_oath_ops STATE_BYTES ?s = (Some b, ?s)" using h(1,2) by (auto simp: memory_oath_defs)
  ultimately show ?thesis by (simp add: load_state_def oath_new_def)
qed

lemma demo_tlvs:
  "tlv_find (apdu_data demo_calculate) TAG_NAME = Some [1, 2]"
  "tlv_find (apdu_data demo_calculate) TAG_CHALLENGE = Some [0, 0, 0, 0, 0, 0, 0, 1]"
  by code_simp+

lemma demo_touch:
  defines "o1 \<equiv> oath_new (demo_store TYPE_TOTP PROPERTY_TOUCH [])"
  defines "o2 \<equiv> (load_state memory_oath_ops o1)\<lparr>oa_pending :=
    Some \<lparr>pn_index = 0, pn_challenge = [0, 0, 0, 0, 0, 0, 0, 1], pn_truncated = True\<rparr>\<rparr>"
  shows "oath_process demo_crypto memory_oath_ops demo_calculate o1 = (presence_required, o2)"
    "resp_sw (fst (oath_confirm demo_crypto memory_oath_ops o2)) = SW_OK"
proof -
  have ins: "apdu_ins demo_calculate = INS_CALCULATE" "apdu_p2 demo_calculate = 1" by (simp_all add: demo_calculate_def)
  have l: "load_state memory_oath_ops o1 = o1\<lparr>oa_loaded := True, oa_credentials := [demo_credential TYPE_TOTP PROPERTY_TOUCH]\<rparr>"
    by (simp add: o1_def demo_loaded)
  have f: "oa_auth_key o1 = []" "\<not> oa_closed o1" by (simp_all add: o1_def oath_new_def)
  show "oath_process demo_crypto memory_oath_ops demo_calculate o1 = (presence_required, o2)"
    using ins f by (simp add: oath_process_def o2_def l calculate_def demo_tlvs require_auth_def oath_find_def
        demo_credential_def position_def Let_def)
  have "load_state memory_oath_ops o2 = o2" by (simp add: o2_def)
  moreover have "map_option length (compute_credential demo_crypto (demo_credential TYPE_TOTP PROPERTY_TOUCH) [0, 0, 0, 0, 0, 0, 0, 1] True) = Some 5"
    by code_simp
  ultimately show "resp_sw (fst (oath_confirm demo_crypto memory_oath_ops o2)) = SW_OK"
    using f by (auto simp: oath_confirm_def o2_def l calculate_index_def demo_credential_def append_tlv_eq encoded_len_def tag_encoded_len_def length_encoded_len_def
        response_defs code_tag_def Let_def)
qed

text \<open>C7: The access code guards the OATH applet: from power-up with a stored code, through any
  sequence of selections, commands, presence confirmations and denials and power cycles in which
  no RESET is sent and no VALIDATE answers the current challenge, the stored state stays
  unchanged and no response carries data, apart from what SELECT tells everyone: the version, the
  device id, a fresh challenge and the algorithm of the code.\<close>

theorem oath_code_guards:
  assumes "oath_store ops valid holds" and "valid 0 st" and "holds st = Some b" and "oath_parse b = Some (cs, key, alg, ch)" and "key \<noteq> []"
    and "list_all (\<lambda>e. \<not> is_oath_reset e) es" and "never_answers cr ops fill es (oath_new st, g)"
    and "oath_run cr ops fill es (oath_new st, g) = (rs, o', g')"
  shows "holds (oa_store o') = holds st \<and> list_all2 (public_response fill alg) es rs"
proof -
  have "oath_store.locked valid holds b (oath_new st)"
    using assms(2-5) by (simp add: oath_store.locked_def [OF assms(1)] oath_new_def)
  from oath_store.run_locked [OF assms(1) this assms(6-8)] assms(3,4) show ?thesis
    by (simp add: oath_store.locked_def [OF assms(1)] stored_algorithm_def)
qed

theorem oath_code_guards_witness:
  "\<exists>rs o' g'. oath_run demo_crypto memory_oath_ops demo_fill [Ev_Select, Ev_Apdu demo_calculate, Ev_Confirm, Ev_Power]
      (oath_new (demo_store TYPE_TOTP 0 [3]), 0) = (rs, o', g') \<and>
    memory_oath_holds (oa_store o') = memory_oath_holds (demo_store TYPE_TOTP 0 [3]) \<and>
    list_all2 (public_response demo_fill ALGORITHM_SHA1) [Ev_Select, Ev_Apdu demo_calculate, Ev_Confirm, Ev_Power] rs"
proof -
  let ?es = "[Ev_Select, Ev_Apdu demo_calculate, Ev_Confirm, Ev_Power]"
  let ?w = "(oath_new (demo_store TYPE_TOTP 0 [3]), 0)"
  obtain rs o' g' where run: "oath_run demo_crypto memory_oath_ops demo_fill ?es ?w = (rs, o', g')" by (rule prod_cases3)
  have "list_all (\<lambda>e. \<not> is_oath_reset e) ?es" "never_answers demo_crypto memory_oath_ops demo_fill ?es ?w"
    by (simp_all add: is_oath_reset_def answers_def demo_calculate_def Let_def)
  from oath_code_guards [OF memory_oath.oath_store_axioms demo_store_holds _ this run] run show ?thesis by auto
qed

text \<open>C8: An HOTP code is never given twice: along any sequence of events without PUT, DELETE and
  RESET, whose writes to the store may fail and in which power may be lost at any point, the counters
  of the codes that the applet gives out for one credential increase strictly from the stored one.\<close>

theorem oath_hotp_no_reuse:
  assumes "oath_store ops valid holds" and "valid (length es) st" and "holds st = Some b" and "oath_parse b = Some (cs, key, alg, ch)"
    and "\<And>x. length (oh_digest cr x) = 32" and "\<And>n g. length (fst (fill n g)) = n"
    and "list_all (\<lambda>e. \<not> is_mutation e) es"
    and "list_all (\<lambda>c. unat (oc_counter c) \<le> k) cs" and "k + length es < 2 ^ 32"
  shows "sorted_wrt (\<lambda>x y. fst x = fst y \<longrightarrow> snd x < snd y) (used_counters cr ops fill es (oath_new st, g)) \<and>
    (\<forall>x \<in> set (used_counters cr ops fill es (oath_new st, g)). fst x < length cs \<and> oc_counter (cs ! fst x) \<le> snd x)"
proof -
  have "oath_store.hotp_inv valid holds (length es) k cs (oath_new st)"
    using assms(2-4,8)
    by (simp add: oath_store.hotp_inv_def [OF assms(1)] oath_store.stored_within_def [OF assms(1)]
        within_def oath_new_def oath_wf_def DEFAULT_CHALLENGE_def)
  from oath_store.run_hotp [OF assms(1,5,6,7) this assms(9)] show ?thesis by simp
qed

theorem oath_hotp_no_reuse_witness:
  "sorted_wrt (\<lambda>x y. fst x = fst y \<longrightarrow> snd x < snd y) (used_counters demo_crypto memory_oath_ops demo_fill
     [Ev_Apdu demo_calculate, Ev_Power, Ev_Select, Ev_Apdu demo_calculate] (oath_new (demo_store TYPE_HOTP 0 []), 0))"
proof -
  have "list_all (\<lambda>e. \<not> is_mutation e) [Ev_Apdu demo_calculate, Ev_Power, Ev_Select, Ev_Apdu demo_calculate]"
    by (simp add: is_mutation_def demo_calculate_def)
  from oath_hotp_no_reuse [OF memory_oath.oath_store_axioms demo_store_holds _ _ this, where cr = demo_crypto and fill = demo_fill and k = 5]
  show ?thesis by (simp add: demo_crypto_def demo_fill_def demo_credential_def Let_def)
qed

text \<open>C21: A credential that requires touch gives codes to touch only. Whatever command comes after
  whatever run, its answer carries no data, or exactly the code of the credential that a CALCULATE named, one
  without the property, or the proof of VALIDATE under the access code, or the answer of LIST or CALCULATE ALL,
  which is the same whatever the secrets of the credentials that require touch are; the answer
  to SELECT does not depend on them either. And when a confirmation of presence is answered with a
  code, that code is the one of the credential, the challenge and the format of the last CALCULATE
  that asked for touch, after which only commands that leave the credentials in place came. The
  request is then spent.\<close>

theorem oath_touch:
  assumes "oath_run cr ops fill es (oath_new st, g) = (rs, o', g')"
  shows "without_touch cr ops o' a (fst (oath_process cr ops a o'))
    \<and> fst (select_response (hide_touch secret o')) = fst (select_response o')
    \<and> (oath_confirm cr ops o' = (r, o'') \<and> resp_sw r = SW_OK \<longrightarrow> oa_pending o'' = None \<and>
      (\<exists>p c code. armed_by cr ops fill (oath_new st, g) es p c \<and> oc_property c AND PROPERTY_TOUCH \<noteq> 0 \<and>
         compute_credential cr c (pn_challenge p) (pn_truncated p) = Some code \<and>
         resp_data r = tlv_bytes \<lparr>tlv_tag = code_tag (pn_truncated p), tlv_value = code\<rparr>))"
proof (intro conjI impI)
  show "without_touch cr ops o' a (fst (oath_process cr ops a o'))" by (rule process_without_touch)
  show "fst (select_response (hide_touch secret o')) = fst (select_response o')"
    by (cases "oa_closed o'"; cases "oa_auth_key o' = []") (simp_all add: select_response_def hide_touch_def append_tlv_eq Let_def)
next
  assume c: "oath_confirm cr ops o' = (r, o'') \<and> resp_sw r = SW_OK"
  have inv: "touch_inv (oath_new st)" "oa_pending (oath_new st) = None" by (simp_all add: oath_new_def touch_inv_def)
  note t = run_touch [OF inv assms]
  obtain p where p: "oa_pending o' = Some p" "\<not> oa_closed o'" "load_state ops o' = o'"
    using c t load_state_touch [of o' ops]
    by (cases "oa_pending o'") (auto simp: oath_confirm_def Let_def response_defs touch_inv_def split: if_splits)
  then have ci: "calculate_index cr ops (pn_index p) (pn_challenge p) (pn_truncated p) (o'\<lparr>oa_pending := None\<rparr>) = (r, o'')"
    using c by (auto simp: oath_confirm_def Let_def response_defs split: if_splits)
  show "oa_pending o'' = None" using calculate_index_keeps [OF ci] by simp
  from calculate_index_code [OF ci] c obtain code where
    "compute_credential cr (oa_credentials o' ! pn_index p) (pn_challenge p) (pn_truncated p) = Some code"
    "resp_data r = tlv_bytes \<lparr>tlv_tag = code_tag (pn_truncated p), tlv_value = code\<rparr>" by auto
  with t p(1) show "\<exists>p c code. armed_by cr ops fill (oath_new st, g) es p c \<and> oc_property c AND PROPERTY_TOUCH \<noteq> 0 \<and>
      compute_credential cr c (pn_challenge p) (pn_truncated p) = Some code \<and>
      resp_data r = tlv_bytes \<lparr>tlv_tag = code_tag (pn_truncated p), tlv_value = code\<rparr>" by blast
qed

theorem oath_touch_witness:
  "\<exists>p c. armed_by demo_crypto memory_oath_ops demo_fill (oath_new (demo_store TYPE_TOTP PROPERTY_TOUCH []), 0)
     [Ev_Apdu demo_calculate] p c \<and> oc_property c AND PROPERTY_TOUCH \<noteq> 0"
proof -
  let ?o = "oath_new (demo_store TYPE_TOTP PROPERTY_TOUCH [])"
  let ?o2 = "(load_state memory_oath_ops ?o)\<lparr>oa_pending :=
    Some \<lparr>pn_index = 0, pn_challenge = [0, 0, 0, 0, 0, 0, 0, 1], pn_truncated = True\<rparr>\<rparr>"
  obtain r o'' where c: "oath_confirm demo_crypto memory_oath_ops ?o2 = (r, o'')" by (rule prod.exhaust)
  have run: "oath_run demo_crypto memory_oath_ops demo_fill [Ev_Apdu demo_calculate] (?o, 0) = ([Some presence_required], ?o2, 0)"
    using demo_touch(1) by simp
  from oath_touch [OF run, where r = r and o'' = o'' and a = demo_calculate and secret = oc_secret] c demo_touch(2) show ?thesis by auto
qed

text \<open>C22: A credential that PUT accepted survives a power cycle: on a store that does not fail and an applet
  without access code, the CALCULATE that follows after the power cycle and SELECT answers with the digits of the
  credential and the truncation of RFC 4226 of the HMAC, under the secret of the credential, of its counter (HOTP)
  or of the given challenge (TOTP).\<close>

theorem oath_put_calculate:
  assumes "working_oath_store ops valid holds" and "valid 2 st" and "holds st = Some b'"
    and "b' = [] \<and> cs = [] \<or> oath_parse b' = Some (cs, [], alg, ac)"
    and "length cs < OATH_MAX_CREDENTIALS \<or> name \<in> oc_name ` set cs"
    and "apdu_ins a = INS_PUT" and put: "parse_put (apdu_data a) = Some (name, key, property, counter)"
    and "name \<noteq> []" and "length name \<le> MAX_NAME" and "pk_secret key \<noteq> []" and "property AND PROPERTY_TOUCH = 0"
    and "apdu_ins b = INS_CALCULATE" and "apdu_p2 b = 1" and "tlv_find (apdu_data b) TAG_NAME = Some name"
    and "tlv_find (apdu_data b) TAG_CHALLENGE = Some ch" and "length ch = 8"
    and hmac: "\<And>k m. length (oh_sha1 cr k m) = 20 \<and> length (oh_sha256 cr k m) = 32 \<and> length (oh_sha512 cr k m) = 64"
  shows "\<exists>r w. oath_run cr ops fill [Ev_Apdu a, Ev_Power, Ev_Select, Ev_Apdu b] (oath_new st, g) =
    ([Some (response_status SW_OK), None, Some r, Some (response_ok (tlv_bytes \<lparr>tlv_tag = TAG_TRUNCATED, tlv_value =
       pk_digits key # be_bytes 4 (dynamic_truncation
         ((if pk_algorithm key = ALGORITHM_SHA1 then oh_sha1 cr else if pk_algorithm key = ALGORITHM_SHA256 then oh_sha256 cr else oh_sha512 cr)
            (pk_secret key) (if pk_kind key = TYPE_HOTP then be_bytes 8 (ucast counter :: u64) else ch)))\<rparr>))], w)"
proof -
  let ?c = "put_credential name key property counter"
  let ?m = "if pk_kind key = TYPE_HOTP then be_bytes 8 (ucast counter :: u64) else ch"
  let ?d = "(if pk_algorithm key = ALGORITHM_SHA1 then oh_sha1 cr else if pk_algorithm key = ALGORITHM_SHA256 then oh_sha256 cr else oh_sha512 cr)
    (pk_secret key) ?m"
  have op: "working_oath_store.opens valid holds 2 st cs"
    using assms(2-4) by (auto simp: working_oath_store.opens_def [OF assms(1)])
  have d: "hmac_digest cr (oc_algorithm ?c) (oc_secret ?c)
      (if oc_kind ?c = TYPE_HOTP then be_bytes 8 (ucast (oc_counter ?c) :: u64) else ch) = Some ?d" "20 \<le> length ?d"
    using parse_put_algorithm [OF put] hmac by (auto simp: hmac_digest_def extend_vec_def put_credential_def)
  have cc: "compute_credential cr ?c ch True = Some (pk_digits key # be_bytes 4 (dynamic_truncation ?d))"
    using compute_credential_truncated [OF d assms(16)] by (simp add: put_credential_def)
  show ?thesis
    by (rule working_oath_store.put_survives [OF assms(1) op assms(6-11,5,12-15) cc]) simp
qed

definition demo_put :: Apdu where
  "demo_put = \<lparr>apdu_cla = 0, apdu_ins = INS_PUT, apdu_p1 = 0, apdu_p2 = 0,
     apdu_data = [0x71, 2, 1, 2, 0x73, 4, 0x21, 6, 9, 8], apdu_le = None, apdu_extended = False\<rparr>"

lemma demo_put_parses:
  "parse_put (apdu_data demo_put) = Some ([1, 2], \<lparr>pk_kind = TYPE_TOTP, pk_algorithm = ALGORITHM_SHA1, pk_digits = 6, pk_secret = [9, 8]\<rparr>, 0, 0)"
  by code_simp

theorem oath_put_calculate_witness:
  "\<exists>r w. oath_run demo_crypto memory_oath_ops demo_fill [Ev_Apdu demo_put, Ev_Power, Ev_Select, Ev_Apdu demo_calculate]
      (oath_new memory_oath_new, 0) =
    ([Some (response_status SW_OK), None, Some r, Some (response_ok (tlv_bytes \<lparr>tlv_tag = TAG_TRUNCATED, tlv_value =
       6 # be_bytes 4 (dynamic_truncation (oh_sha1 demo_crypto [9, 8] [0, 0, 0, 0, 0, 0, 0, 1]))\<rparr>))], w)"
proof -
  have st: "memory_oath_inv 2 memory_oath_new" "memory_oath_holds memory_oath_new = Some []"
    "[] = [] \<and> [] = [] \<or> oath_parse [] = Some ([], [], 0, [])"
    by (simp_all add: memory_oath_defs)
  have ins: "apdu_ins demo_put = INS_PUT" "apdu_ins demo_calculate = INS_CALCULATE" "apdu_p2 demo_calculate = 1"
    by (simp_all add: demo_put_def demo_calculate_def)
  have hmac: "length (oh_sha1 demo_crypto k m) = 20 \<and> length (oh_sha256 demo_crypto k m) = 32 \<and> length (oh_sha512 demo_crypto k m) = 64" for k m
    unfolding demo_crypto_def Let_def by (auto simp: min_def)
  show ?thesis
    using oath_put_calculate [OF memory_oath.working_oath_store_axioms st _ ins(1) demo_put_parses _ _ _ _ ins(2,3) demo_tlvs _ hmac,
        of demo_fill 0]
    by (simp del: oath_run.simps)
qed

end
