(* ===== verification/Sealed_Applets.thy ===== *)
theory Sealed_Applets
  imports Sealed_Store Oath
begin

text \<open>The sealed stores of the applets, \<open>crates/aegis-applets/src/sealed.rs\<close>: single-record cells, the
  PIV record map, and blobs sharded over several cells with a commit cell. All cells of a store
  are windows of the one flash device that the storage handles share; the device is threaded
  through the operations.\<close>

section \<open>Constants\<close>

abbreviation (input) "GEN_LEN \<equiv> (8 :: nat)"
abbreviation (input) "PRESENT_LEN \<equiv> (1 :: nat)"
abbreviation (input) "COMMIT_LEN \<equiv> (4 :: nat)"
abbreviation (input) "SHARD_BODY_MAX \<equiv> (2268 :: nat)"
abbreviation (input) "PIV_APPLET_TAG \<equiv> (1 :: u16)"
abbreviation (input) "OATH_APPLET_TAG \<equiv> (2 :: u16)"
abbreviation (input) "OPENPGP_APPLET_TAG \<equiv> (3 :: u16)"
abbreviation (input) "PIV_OBJECT_STORES \<equiv> (10 :: nat)"
abbreviation (input) "OATH_SHARDS \<equiv> (2 :: nat)"
abbreviation (input) "OPENPGP_SHARDS \<equiv> (4 :: nat)"

abbreviation (input) "RECORD_PIN \<equiv> (1 :: u16)"
abbreviation (input) "RECORD_PUK \<equiv> (2 :: u16)"
abbreviation (input) "RECORD_MGMT_KEY \<equiv> (3 :: u16)"
abbreviation (input) "RECORD_KEY_BASE \<equiv> (10 :: u16)"
abbreviation (input) "RECORD_OBJECT_BASE \<equiv> (30 :: u16)"
abbreviation (input) "MAX_RECORD_BYTES \<equiv> (1536 :: nat)"

section \<open>Cells\<close>

definition nonce :: "u64 \<Rightarrow> u16 \<Rightarrow> u16 \<Rightarrow> bytes" where
  "nonce generation app shard = le_bytes 8 generation @ le_bytes 2 app @ le_bytes 2 shard"

definition seal_cell :: "Aead \<Rightarrow> bytes \<Rightarrow> u16 \<Rightarrow> u16 \<Rightarrow> u64 \<Rightarrow> bool \<Rightarrow> bytes \<Rightarrow> nat \<Rightarrow> bytes CoreResult" where
  "seal_cell g sealer app shard generation present body out_len =
     (if out_len < NONCE_LEN + GEN_LEN + PRESENT_LEN + length body + TAG_LEN then Err StorageError
      else let nonce = nonce generation app shard;
               plain = le_bytes 8 generation @ [if present then 1 else 0] @ body
           in and_then (seal g sealer nonce plain (out_len - NONCE_LEN)) (\<lambda>sealed. Ok (nonce @ sealed)))"

text \<open>The generation of a record and its plaintext, whose first bytes are that generation.\<close>

definition open_cell :: "Aead \<Rightarrow> bytes \<Rightarrow> u16 \<Rightarrow> u16 \<Rightarrow> bytes \<Rightarrow> nat \<Rightarrow> (u64 \<times> bytes) CoreResult" where
  "open_cell g sealer app shard blob out_len =
     (if length blob < NONCE_LEN + GEN_LEN + PRESENT_LEN + TAG_LEN \<or> out_len < GEN_LEN + PRESENT_LEN then Err StorageError
      else and_then (unseal g sealer (take NONCE_LEN blob) (drop NONCE_LEN blob) out_len) (\<lambda>plain.
        if length plain < GEN_LEN + PRESENT_LEN then Err StorageError
        else let generation = of_le_bytes (take GEN_LEN plain)
             in if take NONCE_LEN blob \<noteq> nonce generation app shard then Err StorageError
                else Ok (generation, plain)))"

text \<open>Reading a slot, or the newest record, into a buffer of the largest size. That buffer takes
  every record, so that the copy in \<open>slot_load\<close> never panics (\<open>slot_load_totalal\<close>).\<close>

definition slot_blob :: "'d StorageOps \<Rightarrow> SlotStore \<Rightarrow> 'd \<Rightarrow> u32 \<Rightarrow> bytes option CoreResult \<times> 'd" where
  "slot_blob ops st d i =
     (case load_slot ops st d i (replicate MAX_PAYLOAD_BYTES 0) of
        (Err e, d, _) \<Rightarrow> (Err e, d)
      | (Ok None, d, _) \<Rightarrow> (Ok None, d)
      | (Ok (Some (_, len)), d, blob) \<Rightarrow> (Ok (Some (take len blob)), d))"

definition load_newest :: "'d StorageOps \<Rightarrow> SlotStore \<Rightarrow> 'd \<Rightarrow> bytes option CoreResult \<times> 'd" where
  "load_newest ops st d =
     (case slot_load ops st d (replicate MAX_PAYLOAD_BYTES 0) of
        None \<Rightarrow> (Err StorageError, d)
      | Some (Err e, d, _) \<Rightarrow> (Err e, d)
      | Some (Ok None, d, _) \<Rightarrow> (Ok None, d)
      | Some (Ok (Some (_, len)), d, blob) \<Rightarrow> (Ok (Some (take len blob)), d))"

record SealedCell =
  cl_storage :: SlotStore
  cl_sealer :: bytes
  cl_applet :: u16
  cl_shard :: u16

definition cell_open ::
    "Aead \<Rightarrow> 'd StorageOps \<Rightarrow> 'd \<Rightarrow> u32 \<Rightarrow> u32 \<Rightarrow> bytes \<Rightarrow> u16 \<Rightarrow> u16 \<Rightarrow> SealedCell CoreResult \<times> 'd" where
  "cell_open g ops d base slot_size key app shard =
     (case sealer_new key of
        Err e \<Rightarrow> (Err e, d)
      | Ok sealer \<Rightarrow>
          let storage = \<lparr>ss_base = base, ss_slot_size = slot_size\<rparr>;
              cell = \<lparr>cl_storage = storage, cl_sealer = sealer, cl_applet = app, cl_shard = shard\<rparr>
          in case load_newest ops storage d of
               (Err e, d) \<Rightarrow> (Err e, d)
             | (Ok None, d) \<Rightarrow> (Ok cell, d)
             | (Ok (Some blob), d) \<Rightarrow>
                 (and_then (open_cell g sealer app shard blob (GEN_LEN + PRESENT_LEN + SHARD_BODY_MAX)) (\<lambda>_. Ok cell), d))"

text \<open>The largest generation of the two slots, over any way of opening a record.\<close>

fun gen_loop ::
    "'d StorageOps \<Rightarrow> (bytes \<Rightarrow> u64 CoreResult) \<Rightarrow> SlotStore \<Rightarrow> u32 list \<Rightarrow> 'd \<Rightarrow> u64 \<Rightarrow> u64 CoreResult \<times> 'd" where
  "gen_loop ops opened st [] d generation = (Ok generation, d)"
| "gen_loop ops opened st (i # is) d generation =
     (case slot_blob ops st d i of
        (Err e, d) \<Rightarrow> (Err e, d)
      | (Ok None, d) \<Rightarrow> gen_loop ops opened st is d generation
      | (Ok (Some blob), d) \<Rightarrow>
          (case opened blob of
             Err e \<Rightarrow> (Err e, d)
           | Ok slot_gen \<Rightarrow> gen_loop ops opened st is d (max generation slot_gen)))"

definition cell_fresh_gen :: "Aead \<Rightarrow> 'd StorageOps \<Rightarrow> SealedCell \<Rightarrow> 'd \<Rightarrow> u64 CoreResult \<times> 'd" where
  "cell_fresh_gen g ops self d =
     (case gen_loop ops (\<lambda>blob. and_then (open_cell g (cl_sealer self) (cl_applet self) (cl_shard self) blob
             (GEN_LEN + PRESENT_LEN + SHARD_BODY_MAX)) (\<lambda>(slot_gen, _). Ok slot_gen)) (cl_storage self) [0, 1] d 0 of
        (Err e, d) \<Rightarrow> (Err e, d)
      | (Ok generation, d) \<Rightarrow> (Ok (generation + 1), d))"

definition cell_load :: "Aead \<Rightarrow> 'd StorageOps \<Rightarrow> SealedCell \<Rightarrow> 'd \<Rightarrow> nat \<Rightarrow> bytes option CoreResult \<times> 'd" where
  "cell_load g ops self d out_len =
     (case load_newest ops (cl_storage self) d of
        (Err e, d) \<Rightarrow> (Err e, d)
      | (Ok None, d) \<Rightarrow> (Ok None, d)
      | (Ok (Some blob), d) \<Rightarrow>
          (and_then (open_cell g (cl_sealer self) (cl_applet self) (cl_shard self) blob
               (GEN_LEN + PRESENT_LEN + SHARD_BODY_MAX)) (\<lambda>(_, plain).
             if plain ! GEN_LEN = 0 then Ok None
             else let body = drop (GEN_LEN + PRESENT_LEN) plain
                  in if out_len < length body then Ok None else Ok (Some body)), d))"

definition cell_write :: "Aead \<Rightarrow> 'd StorageOps \<Rightarrow> SealedCell \<Rightarrow> 'd \<Rightarrow> bool \<Rightarrow> bytes \<Rightarrow> unit CoreResult \<times> 'd" where
  "cell_write g ops self d present data =
     (case cell_fresh_gen g ops self d of
        (Err e, d) \<Rightarrow> (Err e, d)
      | (Ok generation, d) \<Rightarrow>
          (case seal_cell g (cl_sealer self) (cl_applet self) (cl_shard self) generation present data MAX_PAYLOAD_BYTES of
             Err e \<Rightarrow> (Err e, d)
           | Ok blob \<Rightarrow> (case slot_store ops (cl_storage self) d blob of (Err e, d) \<Rightarrow> (Err e, d) | (Ok _, d) \<Rightarrow> (Ok (), d))))"

definition cell_store :: "Aead \<Rightarrow> 'd StorageOps \<Rightarrow> SealedCell \<Rightarrow> 'd \<Rightarrow> bytes \<Rightarrow> unit CoreResult \<times> 'd" where
  "cell_store g ops self d data =
     (if length data > SHARD_BODY_MAX then (Err StorageError, d) else cell_write g ops self d True data)"

definition cell_erase :: "Aead \<Rightarrow> 'd StorageOps \<Rightarrow> SealedCell \<Rightarrow> 'd \<Rightarrow> unit CoreResult \<times> 'd" where
  "cell_erase g ops self d = cell_write g ops self d False []"

section \<open>The PIV record map\<close>

text \<open>\<open>PivStore\<close> as a record of its operations. An entry of the metadata map is its data.\<close>

record 's PivStoreOps =
  pv_read :: "'s \<Rightarrow> u16 \<Rightarrow> nat \<Rightarrow> bytes option \<times> 's"
  pv_write :: "'s \<Rightarrow> u16 \<Rightarrow> bytes \<Rightarrow> bool \<times> 's"
  pv_erase :: "'s \<Rightarrow> u16 \<Rightarrow> bool \<times> 's"

definition META_RECORDS :: "u16 list" where
  "META_RECORDS = [RECORD_PIN, RECORD_PUK, RECORD_MGMT_KEY, RECORD_KEY_BASE, RECORD_KEY_BASE + 1, RECORD_KEY_BASE + 2]"

definition META_BODY_MAX :: nat where
  "META_BODY_MAX = length META_RECORDS * (2 + MAX_RECORD_BYTES)"

type_synonym VecMap = "bytes option list"

definition vec_map_empty :: VecMap where
  "vec_map_empty = replicate (length META_RECORDS) None"

fun decode_entries :: "nat \<Rightarrow> bytes \<Rightarrow> (VecMap \<times> bytes) option" where
  "decode_entries 0 body = Some ([], body)"
| "decode_entries (Suc n) body =
     (case body of
        [] \<Rightarrow> None
      | present # body \<Rightarrow>
          if present = 0 then map_option (\<lambda>(es, rest). (None # es, rest)) (decode_entries n body)
          else if present \<noteq> 1 then None
          else if length body < 2 then None
          else let len = unat (of_le_bytes (take 2 body) :: u16)
               in if len > MAX_RECORD_BYTES then None
                  else if length body < 2 + len then None
                  else map_option (\<lambda>(es, rest). (Some (sub_slice 2 (2 + len) body) # es, rest)) (decode_entries n (drop (2 + len) body)))"

definition vec_map_decode :: "bytes \<Rightarrow> VecMap option" where
  "vec_map_decode body =
     (case decode_entries (length META_RECORDS) body of
        None \<Rightarrow> None | Some (entries, rest) \<Rightarrow> if rest \<noteq> [] then None else Some entries)"

definition encode_entry :: "bytes option \<Rightarrow> bytes" where
  "encode_entry slot = (case slot of Some e \<Rightarrow> 1 # le_bytes 2 (of_nat (length e) :: u16) @ e | None \<Rightarrow> [0])"

definition vec_map_encode :: "VecMap \<Rightarrow> nat \<Rightarrow> bytes option" where
  "vec_map_encode self out_len =
     fold (\<lambda>slot out. Option.bind out (\<lambda>out.
       let out = out @ encode_entry slot in if length out \<le> out_len then Some out else None)) self (Some [])"

record 'd SealedPivStore =
  sp_meta :: SealedCell
  sp_objects :: "SealedCell list"
  sp_device :: 'd

record PivLayout =
  pl_meta :: u32
  pl_objects :: "u32 list"

fun open_objects ::
    "Aead \<Rightarrow> 'd StorageOps \<Rightarrow> u32 \<Rightarrow> bytes \<Rightarrow> u32 list \<Rightarrow> nat \<Rightarrow> 'd \<Rightarrow> SealedCell list CoreResult \<times> 'd" where
  "open_objects g ops slot_size key [] index d = (Ok [], d)"
| "open_objects g ops slot_size key (base # bases) index d =
     (case cell_open g ops d base slot_size key PIV_APPLET_TAG (1 + of_nat index) of
        (Err e, d) \<Rightarrow> (Err e, d)
      | (Ok cell, d) \<Rightarrow>
          (case open_objects g ops slot_size key bases (Suc index) d of
             (Err e, d) \<Rightarrow> (Err e, d) | (Ok cells, d) \<Rightarrow> (Ok (cell # cells), d)))"

definition piv_store_open ::
    "Aead \<Rightarrow> 'd StorageOps \<Rightarrow> 'd \<Rightarrow> PivLayout \<Rightarrow> u32 \<Rightarrow> bytes \<Rightarrow> 'd SealedPivStore CoreResult \<times> 'd" where
  "piv_store_open g ops d layout slot_size key =
     (case cell_open g ops d (pl_meta layout) slot_size key PIV_APPLET_TAG 0 of
        (Err e, d) \<Rightarrow> (Err e, d)
      | (Ok meta, d) \<Rightarrow>
          (case open_objects g ops slot_size key (pl_objects layout) 0 d of
             (Err e, d) \<Rightarrow> (Err e, d)
           | (Ok objects, d) \<Rightarrow> (Ok \<lparr>sp_meta = meta, sp_objects = objects, sp_device = d\<rparr>, d)))"

definition meta_entry :: "u16 \<Rightarrow> nat option" where
  "meta_entry rec = position (\<lambda>id. id = rec) META_RECORDS"

definition load_meta :: "Aead \<Rightarrow> 'd StorageOps \<Rightarrow> 'd SealedPivStore \<Rightarrow> VecMap option CoreResult \<times> 'd SealedPivStore" where
  "load_meta g ops self =
     (case cell_load g ops (sp_meta self) (sp_device self) META_BODY_MAX of
        (Err e, d) \<Rightarrow> (Err e, self\<lparr>sp_device := d\<rparr>)
      | (Ok None, d) \<Rightarrow> (Ok None, self\<lparr>sp_device := d\<rparr>)
      | (Ok (Some body), d) \<Rightarrow> (ok_or StorageError (map_option Some (vec_map_decode body)), self\<lparr>sp_device := d\<rparr>))"

definition store_meta :: "Aead \<Rightarrow> 'd StorageOps \<Rightarrow> 'd SealedPivStore \<Rightarrow> VecMap \<Rightarrow> unit CoreResult \<times> 'd SealedPivStore" where
  "store_meta g ops self m =
     (case vec_map_encode m META_BODY_MAX of
        None \<Rightarrow> (Err StorageError, self)
      | Some body \<Rightarrow> (case cell_store g ops (sp_meta self) (sp_device self) body of (r, d) \<Rightarrow> (r, self\<lparr>sp_device := d\<rparr>)))"

definition piv_read :: "Aead \<Rightarrow> 'd StorageOps \<Rightarrow> 'd SealedPivStore \<Rightarrow> u16 \<Rightarrow> nat \<Rightarrow> bytes option \<times> 'd SealedPivStore" where
  "piv_read g ops self rec out_len =
     (case meta_entry rec of
        Some index \<Rightarrow>
          (case load_meta g ops self of
             (Ok (Some m), self) \<Rightarrow>
               (case m ! index of
                  None \<Rightarrow> (None, self) | Some entry \<Rightarrow> (if out_len < length entry then None else Some entry, self))
           | (_, self) \<Rightarrow> (None, self))
      | None \<Rightarrow>
          (if rec < RECORD_OBJECT_BASE then (None, self)
           else let index = unat (rec - RECORD_OBJECT_BASE)
                in if index \<ge> PIV_OBJECT_STORES then (None, self)
                   else case cell_load g ops (sp_objects self ! index) (sp_device self) MAX_RECORD_BYTES of
                          (Ok (Some body), d) \<Rightarrow> (if out_len < length body then None else Some body, self\<lparr>sp_device := d\<rparr>)
                        | (_, d) \<Rightarrow> (None, self\<lparr>sp_device := d\<rparr>)))"

definition piv_update_meta ::
    "Aead \<Rightarrow> 'd StorageOps \<Rightarrow> 'd SealedPivStore \<Rightarrow> nat \<Rightarrow> bytes option \<Rightarrow> bool \<times> 'd SealedPivStore" where
  "piv_update_meta g ops self index entry =
     (case load_meta g ops self of
        (Err _, self) \<Rightarrow> (False, self)
      | (Ok m, self) \<Rightarrow>
          let m = (case m of Some m \<Rightarrow> m | None \<Rightarrow> vec_map_empty)
          in (case store_meta g ops self (m[index := entry]) of (r, self) \<Rightarrow> (is_ok r, self)))"

definition piv_write :: "Aead \<Rightarrow> 'd StorageOps \<Rightarrow> 'd SealedPivStore \<Rightarrow> u16 \<Rightarrow> bytes \<Rightarrow> bool \<times> 'd SealedPivStore" where
  "piv_write g ops self rec data =
     (if length data > MAX_RECORD_BYTES then (False, self)
      else case meta_entry rec of
          Some index \<Rightarrow> piv_update_meta g ops self index (Some data)
        | None \<Rightarrow>
            let index = unat (rec - RECORD_OBJECT_BASE)
            in if index \<ge> PIV_OBJECT_STORES then (False, self)
               else (case cell_store g ops (sp_objects self ! index) (sp_device self) data of
                       (r, d) \<Rightarrow> (is_ok r, self\<lparr>sp_device := d\<rparr>)))"

definition piv_erase :: "Aead \<Rightarrow> 'd StorageOps \<Rightarrow> 'd SealedPivStore \<Rightarrow> u16 \<Rightarrow> bool \<times> 'd SealedPivStore" where
  "piv_erase g ops self rec =
     (case meta_entry rec of
        Some index \<Rightarrow> piv_update_meta g ops self index None
      | None \<Rightarrow>
          let index = unat (rec - RECORD_OBJECT_BASE)
          in if index \<ge> PIV_OBJECT_STORES then (False, self)
             else (case cell_erase g ops (sp_objects self ! index) (sp_device self) of
                     (r, d) \<Rightarrow> (is_ok r, self\<lparr>sp_device := d\<rparr>)))"

definition sealed_piv_ops :: "Aead \<Rightarrow> 'd StorageOps \<Rightarrow> 'd SealedPivStore PivStoreOps" where
  "sealed_piv_ops g ops = \<lparr>pv_read = piv_read g ops, pv_write = piv_write g ops, pv_erase = piv_erase g ops\<rparr>"

section \<open>Sharded blobs\<close>

text \<open>The number of shards, a parameter of the type in the source, is the number of data stores.\<close>

record 'd SealedBlob =
  bl_sealer :: bytes
  bl_applet :: u16
  bl_data :: "SlotStore list"
  bl_commit :: SlotStore
  bl_device :: 'd

abbreviation bl_shards :: "'d SealedBlob \<Rightarrow> nat" where
  "bl_shards b \<equiv> length (bl_data b)"

text \<open>The generation of a shard record and its body.\<close>

definition open_shard :: "Aead \<Rightarrow> bytes \<Rightarrow> u16 \<Rightarrow> u16 \<Rightarrow> bytes \<Rightarrow> nat \<Rightarrow> (u64 \<times> bytes) CoreResult" where
  "open_shard g sealer app shard blob plain_len =
     (if length blob < NONCE_LEN + GEN_LEN + TAG_LEN \<or> plain_len < GEN_LEN then Err StorageError
      else and_then (unseal g sealer (take NONCE_LEN blob) (drop NONCE_LEN blob) plain_len) (\<lambda>plain.
        if length plain < GEN_LEN then Err StorageError
        else let generation = of_le_bytes (take GEN_LEN plain)
             in if take NONCE_LEN blob \<noteq> nonce generation app shard then Err StorageError
                else Ok (generation, drop GEN_LEN plain)))"

definition blob_open ::
    "Aead \<Rightarrow> 'd StorageOps \<Rightarrow> 'd \<Rightarrow> u32 list \<Rightarrow> u32 \<Rightarrow> u32 \<Rightarrow> bytes \<Rightarrow> u16 \<Rightarrow> 'd SealedBlob CoreResult \<times> 'd" where
  "blob_open g ops d data_bases commit_base slot_size key app =
     (case sealer_new key of
        Err e \<Rightarrow> (Err e, d)
      | Ok sealer \<Rightarrow>
          let data = map (\<lambda>base. \<lparr>ss_base = base, ss_slot_size = slot_size\<rparr>) data_bases;
              commit = \<lparr>ss_base = commit_base, ss_slot_size = slot_size\<rparr>
          in case load_newest ops commit d of
               (Err e, d) \<Rightarrow> (Err e, d)
             | (Ok newest_blob, d) \<Rightarrow>
                 let self = \<lparr>bl_sealer = sealer, bl_applet = app, bl_data = data, bl_commit = commit, bl_device = d\<rparr>
                 in (case newest_blob of
                       None \<Rightarrow> Ok self
                     | Some blob \<Rightarrow>
                         and_then (open_shard g sealer app (of_nat (length data_bases)) blob MAX_PAYLOAD_BYTES) (\<lambda>(_, body).
                           if length body \<noteq> COMMIT_LEN then Err StorageError else Ok self), d))"

definition blob_gen :: "Aead \<Rightarrow> bytes \<Rightarrow> u16 \<Rightarrow> u16 \<Rightarrow> bytes \<Rightarrow> u64 CoreResult" where
  "blob_gen g sealer app shard blob =
     and_then (open_shard g sealer app shard blob MAX_PAYLOAD_BYTES) (\<lambda>(generation, _). Ok generation)"

definition commit_gen :: "Aead \<Rightarrow> bytes \<Rightarrow> u16 \<Rightarrow> u16 \<Rightarrow> bytes \<Rightarrow> u64 CoreResult" where
  "commit_gen g sealer app shards blob =
     and_then (open_shard g sealer app shards blob MAX_PAYLOAD_BYTES) (\<lambda>(generation, body).
       if length body \<noteq> COMMIT_LEN then Err StorageError else Ok generation)"

fun data_gen_loop ::
    "Aead \<Rightarrow> 'd StorageOps \<Rightarrow> bytes \<Rightarrow> u16 \<Rightarrow> SlotStore list \<Rightarrow> nat \<Rightarrow> 'd \<Rightarrow> u64 \<Rightarrow> u64 CoreResult \<times> 'd" where
  "data_gen_loop g ops sealer app [] index d generation = (Ok generation, d)"
| "data_gen_loop g ops sealer app (shard # shards) index d generation =
     (case gen_loop ops (blob_gen g sealer app (of_nat index)) shard [0, 1] d generation of
        (Err e, d) \<Rightarrow> (Err e, d)
      | (Ok generation, d) \<Rightarrow> data_gen_loop g ops sealer app shards (Suc index) d generation)"

definition blob_fresh_gen :: "Aead \<Rightarrow> 'd StorageOps \<Rightarrow> 'd SealedBlob \<Rightarrow> u64 CoreResult \<times> 'd SealedBlob" where
  "blob_fresh_gen g ops self =
     (case data_gen_loop g ops (bl_sealer self) (bl_applet self) (bl_data self) 0 (bl_device self) 0 of
        (Err e, d) \<Rightarrow> (Err e, self\<lparr>bl_device := d\<rparr>)
      | (Ok generation, d) \<Rightarrow>
          (case gen_loop ops (commit_gen g (bl_sealer self) (bl_applet self) (of_nat (bl_shards self))) (bl_commit self) [0, 1] d generation of
             (Err e, d) \<Rightarrow> (Err e, self\<lparr>bl_device := d\<rparr>)
           | (Ok generation, d) \<Rightarrow> (Ok (generation + 1), self\<lparr>bl_device := d\<rparr>)))"

text \<open>Sealing a body under a generation, and storing it.\<close>

definition seal_shard :: "Aead \<Rightarrow> bytes \<Rightarrow> u16 \<Rightarrow> u16 \<Rightarrow> u64 \<Rightarrow> bytes \<Rightarrow> bytes CoreResult" where
  "seal_shard g sealer app shard generation body =
     (let nonce = nonce generation app shard
      in and_then (seal g sealer nonce (le_bytes 8 generation @ body) (MAX_PAYLOAD_BYTES - NONCE_LEN)) (\<lambda>sealed. Ok (nonce @ sealed)))"

definition store_shard ::
    "Aead \<Rightarrow> 'd StorageOps \<Rightarrow> bytes \<Rightarrow> u16 \<Rightarrow> u16 \<Rightarrow> u64 \<Rightarrow> SlotStore \<Rightarrow> bytes \<Rightarrow> 'd \<Rightarrow> unit CoreResult \<times> 'd" where
  "store_shard g ops sealer app shard generation st body d =
     (case seal_shard g sealer app shard generation body of
        Err e \<Rightarrow> (Err e, d)
      | Ok blob \<Rightarrow> (case slot_store ops st d blob of (Err e, d) \<Rightarrow> (Err e, d) | (Ok _, d) \<Rightarrow> (Ok (), d)))"

definition chunk :: "nat \<Rightarrow> bytes \<Rightarrow> bytes" where
  "chunk index data =
     (let start = index * SHARD_BODY_MAX; fin = min (start + SHARD_BODY_MAX) (length data)
      in if start < length data then sub_slice start fin data else [])"

fun save_loop ::
    "Aead \<Rightarrow> 'd StorageOps \<Rightarrow> bytes \<Rightarrow> u16 \<Rightarrow> u64 \<Rightarrow> bytes \<Rightarrow> SlotStore list \<Rightarrow> nat \<Rightarrow> 'd \<Rightarrow> unit CoreResult \<times> 'd" where
  "save_loop g ops sealer app generation data [] index d = (Ok (), d)"
| "save_loop g ops sealer app generation data (shard # shards) index d =
     (case store_shard g ops sealer app (of_nat index) generation shard (chunk index data) d of
        (Err e, d) \<Rightarrow> (Err e, d)
      | (Ok _, d) \<Rightarrow> save_loop g ops sealer app generation data shards (Suc index) d)"

definition blob_save :: "Aead \<Rightarrow> 'd StorageOps \<Rightarrow> 'd SealedBlob \<Rightarrow> bytes \<Rightarrow> unit CoreResult \<times> 'd SealedBlob" where
  "blob_save g ops self data =
     (if length data > bl_shards self * SHARD_BODY_MAX then (Err StorageError, self)
      else case blob_fresh_gen g ops self of
          (Err e, self) \<Rightarrow> (Err e, self)
        | (Ok generation, self) \<Rightarrow>
            (case save_loop g ops (bl_sealer self) (bl_applet self) generation data (bl_data self) 0 (bl_device self) of
               (Err e, d) \<Rightarrow> (Err e, self\<lparr>bl_device := d\<rparr>)
             | (Ok _, d) \<Rightarrow>
                 (case store_shard g ops (bl_sealer self) (bl_applet self) (of_nat (bl_shards self)) generation (bl_commit self)
                         (le_bytes 4 (of_nat (length data) :: u32)) d of
                    (r, d) \<Rightarrow> (r, self\<lparr>bl_device := d\<rparr>))))"

text \<open>The first wanted record of the two slots; a slot that cannot be read or opened is an error.\<close>

fun find_shard ::
    "Aead \<Rightarrow> 'd StorageOps \<Rightarrow> bytes \<Rightarrow> u16 \<Rightarrow> u16 \<Rightarrow> SlotStore \<Rightarrow> (u64 \<times> bytes \<Rightarrow> bool) \<Rightarrow> u32 list \<Rightarrow> 'd \<Rightarrow>
       bytes option CoreResult \<times> 'd" where
  "find_shard g ops sealer app shard st wanted [] d = (Ok None, d)"
| "find_shard g ops sealer app shard st wanted (i # is) d =
     (case slot_blob ops st d i of
        (Err e, d) \<Rightarrow> (Err e, d)
      | (Ok None, d) \<Rightarrow> find_shard g ops sealer app shard st wanted is d
      | (Ok (Some blob), d) \<Rightarrow>
          (case open_shard g sealer app shard blob MAX_PAYLOAD_BYTES of
             Err e \<Rightarrow> (Err e, d)
           | Ok (generation, body) \<Rightarrow>
               if wanted (generation, body) then (Ok (Some body), d)
               else find_shard g ops sealer app shard st wanted is d))"

fun assemble_loop ::
    "Aead \<Rightarrow> 'd StorageOps \<Rightarrow> bytes \<Rightarrow> u16 \<Rightarrow> u64 \<Rightarrow> nat \<Rightarrow> SlotStore list \<Rightarrow> nat \<Rightarrow> bytes \<Rightarrow> 'd \<Rightarrow> bytes option CoreResult \<times> 'd" where
  "assemble_loop g ops sealer app generation tot [] index out d =
     (if length out < tot then (Ok None, d) else (Ok (Some out), d))"
| "assemble_loop g ops sealer app generation tot (shard # shards) index out d =
     (case find_shard g ops sealer app (of_nat index) shard (\<lambda>(slot_gen, _). slot_gen = generation) [0, 1] d of
        (Err e, d) \<Rightarrow> (Err e, d)
      | (Ok None, d) \<Rightarrow> (Ok None, d)
      | (Ok (Some body), d) \<Rightarrow>
          assemble_loop g ops sealer app generation tot shards (Suc index) (out @ take (tot - length out) body) d)"

definition assemble :: "Aead \<Rightarrow> 'd StorageOps \<Rightarrow> 'd SealedBlob \<Rightarrow> u64 \<Rightarrow> nat \<Rightarrow> bytes option CoreResult \<times> 'd SealedBlob" where
  "assemble g ops self generation out_len =
     (case find_shard g ops (bl_sealer self) (bl_applet self) (of_nat (bl_shards self)) (bl_commit self)
             (\<lambda>(slot_gen, body). slot_gen = generation \<and> length body = COMMIT_LEN) [0, 1] (bl_device self) of
        (Err e, d) \<Rightarrow> (Err e, self\<lparr>bl_device := d\<rparr>)
      | (Ok None, d) \<Rightarrow> (Err StorageError, self\<lparr>bl_device := d\<rparr>)
      | (Ok (Some body), d) \<Rightarrow>
          let tot = unat (of_le_bytes body :: u32)
          in if tot > bl_shards self * SHARD_BODY_MAX \<or> out_len < tot then (Err StorageError, self\<lparr>bl_device := d\<rparr>)
             else (case assemble_loop g ops (bl_sealer self) (bl_applet self) generation tot (bl_data self) 0 [] d of
                     (r, d) \<Rightarrow> (r, self\<lparr>bl_device := d\<rparr>)))"

fun candidate_loop ::
    "Aead \<Rightarrow> 'd StorageOps \<Rightarrow> bytes \<Rightarrow> u16 \<Rightarrow> u16 \<Rightarrow> SlotStore \<Rightarrow> u32 list \<Rightarrow> u64 list \<Rightarrow> 'd \<Rightarrow> u64 list CoreResult \<times> 'd" where
  "candidate_loop g ops sealer app shards st [] candidates d = (Ok candidates, d)"
| "candidate_loop g ops sealer app shards st (i # is) candidates d =
     (case slot_blob ops st d i of
        (Err e, d) \<Rightarrow> (Err e, d)
      | (Ok None, d) \<Rightarrow> candidate_loop g ops sealer app shards st is candidates d
      | (Ok (Some blob), d) \<Rightarrow>
          (case open_shard g sealer app shards blob MAX_PAYLOAD_BYTES of
             Err e \<Rightarrow> (Err e, d)
           | Ok (generation, body) \<Rightarrow>
               candidate_loop g ops sealer app shards st is
                 (if length body = COMMIT_LEN then candidates @ [generation] else candidates) d))"

definition newest_first :: "u64 list \<Rightarrow> u64 list" where
  "newest_first candidates = (case candidates of [a, b] \<Rightarrow> if b > a then [b, a] else [a, b] | _ \<Rightarrow> candidates)"

fun try_candidates ::
    "Aead \<Rightarrow> 'd StorageOps \<Rightarrow> nat \<Rightarrow> u64 list \<Rightarrow> 'd SealedBlob \<Rightarrow> bytes option CoreResult \<times> 'd SealedBlob" where
  "try_candidates g ops out_len [] self = (Err StorageError, self)"
| "try_candidates g ops out_len (candidate # candidates) self =
     (case assemble g ops self candidate out_len of
        (Err e, self) \<Rightarrow> (Err e, self)
      | (Ok None, self) \<Rightarrow> try_candidates g ops out_len candidates self
      | (Ok (Some data), self) \<Rightarrow> (Ok (Some data), self))"

definition blob_load :: "Aead \<Rightarrow> 'd StorageOps \<Rightarrow> 'd SealedBlob \<Rightarrow> nat \<Rightarrow> bytes option CoreResult \<times> 'd SealedBlob" where
  "blob_load g ops self out_len =
     (case candidate_loop g ops (bl_sealer self) (bl_applet self) (of_nat (bl_shards self)) (bl_commit self) [0, 1] [] (bl_device self) of
        (Err e, d) \<Rightarrow> (Err e, self\<lparr>bl_device := d\<rparr>)
      | (Ok candidates, d) \<Rightarrow>
          if candidates = [] then (Ok None, self\<lparr>bl_device := d\<rparr>)
          else try_candidates g ops out_len (newest_first candidates) (self\<lparr>bl_device := d\<rparr>))"

section \<open>The stores of the OATH and OpenPGP applets\<close>

definition sealed_oath_open ::
    "Aead \<Rightarrow> 'd StorageOps \<Rightarrow> 'd \<Rightarrow> u32 list \<Rightarrow> u32 \<Rightarrow> u32 \<Rightarrow> bytes \<Rightarrow> 'd SealedBlob CoreResult \<times> 'd" where
  "sealed_oath_open g ops d data_bases commit_base slot_size key =
     blob_open g ops d data_bases commit_base slot_size key OATH_APPLET_TAG"

definition sealed_oath_load :: "Aead \<Rightarrow> 'd StorageOps \<Rightarrow> nat \<Rightarrow> 'd SealedBlob \<Rightarrow> bytes option \<times> 'd SealedBlob" where
  "sealed_oath_load g ops out_len self =
     (case blob_load g ops self out_len of
        (Ok None, self) \<Rightarrow> (Some [], self) | (Ok (Some data), self) \<Rightarrow> (Some data, self) | (Err _, self) \<Rightarrow> (None, self))"

definition sealed_save :: "Aead \<Rightarrow> 'd StorageOps \<Rightarrow> 'd SealedBlob \<Rightarrow> bytes \<Rightarrow> bool \<times> 'd SealedBlob" where
  "sealed_save g ops self data = (case blob_save g ops self data of (r, self) \<Rightarrow> (is_ok r, self))"

definition sealed_clear_blob :: "Aead \<Rightarrow> 'd StorageOps \<Rightarrow> 'd SealedBlob \<Rightarrow> bool \<times> 'd SealedBlob" where
  "sealed_clear_blob g ops self = (case blob_save g ops self [] of (r, self) \<Rightarrow> (is_ok r, self))"

definition sealed_oath_ops :: "Aead \<Rightarrow> 'd StorageOps \<Rightarrow> 'd SealedBlob OathStoreOps" where
  "sealed_oath_ops g ops = \<lparr>ost_load = sealed_oath_load g ops, ost_save = sealed_save g ops, ost_clear = sealed_clear_blob g ops\<rparr>"

definition sealed_openpgp_open ::
    "Aead \<Rightarrow> 'd StorageOps \<Rightarrow> 'd \<Rightarrow> u32 list \<Rightarrow> u32 \<Rightarrow> u32 \<Rightarrow> bytes \<Rightarrow> 'd SealedBlob CoreResult \<times> 'd" where
  "sealed_openpgp_open g ops d data_bases commit_base slot_size key =
     blob_open g ops d data_bases commit_base slot_size key OPENPGP_APPLET_TAG"

definition sealed_openpgp_load :: "Aead \<Rightarrow> 'd StorageOps \<Rightarrow> nat \<Rightarrow> 'd SealedBlob \<Rightarrow> bytes option \<times> 'd SealedBlob" where
  "sealed_openpgp_load g ops out_len self =
     (case blob_load g ops self out_len of (Ok data, self) \<Rightarrow> (data, self) | (Err _, self) \<Rightarrow> (None, self))"

section \<open>Reading\<close>

text \<open>The buffer of the largest size takes every record.\<close>

lemma read_slot_len:
  "read_slot ops st d i out = (Ok (Some (sq, len)), d', out') \<Longrightarrow> len \<le> MAX_PAYLOAD_BYTES"
  by (auto simp: read_slot_def Let_def split: prod.splits result.splits if_splits)

lemma slot_load_total: "slot_load ops st d (replicate MAX_PAYLOAD_BYTES 0) \<noteq> None"
proof -
  have total: "MAX_PAYLOAD_BYTES \<le> length out \<Longrightarrow> load_loop ops st d scratch best out is \<noteq> None" for d scratch best out "is"
    by (induction ops st d scratch best out "is" rule: load_loop.induct)
       (auto split: prod.splits result.splits option.splits dest!: read_slot_len)
  show ?thesis unfolding slot_load_def by (rule total) simp
qed

text \<open>What the stores hold is read through the RAM device over the content of the flash.\<close>

abbreviation on_ram :: "bytes \<Rightarrow> RamStorage" where
  "on_ram c \<equiv> \<lparr>ram_data = c\<rparr>"

definition ram_blob :: "('d \<Rightarrow> bytes) \<Rightarrow> 'd SealedBlob \<Rightarrow> RamStorage SealedBlob" where
  "ram_blob content b = \<lparr>bl_sealer = bl_sealer b, bl_applet = bl_applet b, bl_data = bl_data b, bl_commit = bl_commit b,
     bl_device = on_ram (content (bl_device b))\<rparr>"

lemma ram_slot_blob:
  assumes "slots_fit st (length c)" and "i = 0 \<or> i = 1"
  shows "slot_blob ram_ops st (on_ram c) i = (Ok (map_option snd (slot_at st c (unat i))), on_ram c)"
proof -
  let ?z = "replicate MAX_PAYLOAD_BYTES 0 :: bytes"
  obtain r d out where l: "load_slot ram_ops st (on_ram c) i ?z = (r, d, out)" by (rule prod_cases3)
  then have rd: "read_slot ram_ops st (on_ram c) i ?z = (r, d, out)" using assms(2) by (auto simp: load_slot_def word_le_nat_alt)
  obtain x where "r = Ok x" using ram.read_slot_ok [of "on_ram c" "length c" st i ?z] assms rd by auto
  moreover note ram.read_slot_truth [of "on_ram c" "length c" st i ?z r d out, OF _ assms rd]
  ultimately show ?thesis using l by (cases d) (auto simp: slot_blob_def found_def split: option.splits)
qed

context faulty_storage
begin

lemma slot_blob_truth:
  assumes "valid d" and "slots_fit st dsize" and "i = 0 \<or> i = 1" and "slot_blob ops st d i = (r, d')"
  shows "valid d' \<and> content d' = content d \<and> (\<forall>x. r = Ok x \<longrightarrow> x = map_option snd (slot_at st (content d) (unat i)))"
proof -
  let ?z = "replicate MAX_PAYLOAD_BYTES 0 :: bytes"
  obtain q e out where l: "load_slot ops st d i ?z = (q, e, out)" by (rule prod_cases3)
  then have rd: "read_slot ops st d i ?z = (q, e, out)" using assms(3) by (auto simp: load_slot_def word_le_nat_alt)
  from read_slot_truth [OF assms(1-3) rd] l assms(4) show ?thesis
    by (auto simp: slot_blob_def found_def split: option.splits result.splits)
qed

lemma load_newest_truth:
  assumes "valid d" and "slots_fit st dsize" and "load_newest ops st d = (r, d')"
  shows "valid d' \<and> content d' = content d \<and> (\<forall>x. r = Ok x \<longrightarrow> x = map_option snd (store_record st (content d)))"
proof -
  let ?z = "replicate MAX_PAYLOAD_BYTES 0 :: bytes"
  obtain r0 d0 o0 where r0: "read_slot ops st d 0 ?z = (r0, d0, o0)" by (rule prod_cases3)
  note t0 = read_slot_truth [OF assms(1,2) _ r0, simplified]
  obtain r1 d1 o1 where r1: "read_slot ops st d0 1 o0 = (r1, d1, o1)" by (rule prod_cases3)
  note t1 = read_slot_truth [OF conjunct1 [OF t0] assms(2) _ r1, simplified]
  show ?thesis
  proof (cases "\<exists>x y. r0 = Ok x \<and> r1 = Ok y")
    case False
    with r0 r1 t0 t1 assms(1,3) show ?thesis
      by (auto simp: load_newest_def slot_load_def split: result.splits option.splits if_splits)
  next
    case True
    then obtain x y where ok: "r0 = Ok x" "r1 = Ok y" by blast
    define a b where "a = slot_at st (content d) 0" and "b = slot_at st (content d) 1"
    have x: "x = found a" "\<forall>sq p. a = Some (sq, p) \<longrightarrow> take (length p) o0 = p \<and> length p \<le> MAX_PAYLOAD_BYTES"
      and y: "y = found b" "\<forall>sq p. b = Some (sq, p) \<longrightarrow> take (length p) o1 = p \<and> length p \<le> MAX_PAYLOAD_BYTES"
      and d1: "valid d1" "content d1 = content d"
      using t0 t1 ok by (auto simp: a_def b_def slot_record_def Let_def split: if_splits)
    have rec: "store_record st (content d) = newest a b" by (simp add: store_record_def a_def b_def)
    show ?thesis
      using assms(3) x y d1 r0 r1 unfolding rec load_newest_def slot_load_def load_loop.simps ok
      by (cases a; cases b) (auto simp: found_def newest_def newer_def r1 y(1) split: prod.splits if_splits)
  qed
qed

end

end
