(* ===== verification/Sealed_Blob.thy ===== *)
theory Sealed_Blob
  imports Sealed_Applets
begin

text \<open>The sharded blob of \<open>sealed.rs\<close> keeps the contract of a store: on a device whose failed writes
  the checksums detect, a save that reports success is what the next load gives, and one that fails
  leaves the old blob, the new one, or a store that refuses to load, never a mix and never an
  older blob. The OATH applet's properties therefore hold on the sealed flash store.\<close>

section \<open>Generations\<close>

text \<open>The record of a slot, opened: its sequence number, generation and body.\<close>

definition shard_at :: "Aead \<Rightarrow> bytes \<Rightarrow> u16 \<Rightarrow> u16 \<Rightarrow> SlotStore \<Rightarrow> bytes \<Rightarrow> nat \<Rightarrow> (u32 \<times> u64 \<times> bytes) option" where
  "shard_at g key app shard st c i =
     (case slot_at st c i of
        None \<Rightarrow> None
      | Some (sq, blob) \<Rightarrow> (case open_shard g key app shard blob MAX_PAYLOAD_BYTES of Err _ \<Rightarrow> None | Ok r \<Rightarrow> Some (sq, r)))"

definition gens :: "Aead \<Rightarrow> bytes \<Rightarrow> u16 \<Rightarrow> u16 \<Rightarrow> SlotStore \<Rightarrow> bytes \<Rightarrow> u64 set" where
  "gens g key app shard st c = {gen. \<exists>i \<in> {0, 1}. \<exists>sq b. shard_at g key app shard st c i = Some (sq, gen, b)}"

text \<open>Every record opens, its body is the one that \<open>body\<close> gives for its generation, and the record with
  the larger sequence number has the larger generation.\<close>

definition shard_inv :: "Aead \<Rightarrow> bytes \<Rightarrow> u16 \<Rightarrow> u16 \<Rightarrow> (u64 \<Rightarrow> bytes) \<Rightarrow> SlotStore \<Rightarrow> bytes \<Rightarrow> bool" where
  "shard_inv g key app shard body st c \<longleftrightarrow>
     (\<forall>i \<in> {0, 1}. slot_at st c i \<noteq> None \<longrightarrow> (\<exists>sq gen. shard_at g key app shard st c i = Some (sq, gen, body gen))) \<and>
     (\<forall>i \<in> {0, 1}. \<forall>sq gen b sq' gen' b'. shard_at g key app shard st c i = Some (sq, gen, b) \<longrightarrow>
        shard_at g key app shard st c (1 - i) = Some (sq', gen', b') \<longrightarrow> sq \<noteq> sq' \<and> (sq < sq' \<longrightarrow> gen < gen'))"

definition next_seq :: "SlotStore \<Rightarrow> bytes \<Rightarrow> u32" where
  "next_seq st c = (case store_record st c of Some (sq, _) \<Rightarrow> sq + 1 | None \<Rightarrow> 1)"

definition seqs :: "SlotStore \<Rightarrow> bytes \<Rightarrow> u32 set" where
  "seqs st c = {sq. \<exists>i \<in> {0, 1}. \<exists>blob. slot_at st c i = Some (sq, blob)}"

text \<open>A write under a fresh generation adds at most that one, and keeps what is newer than what it keeps.\<close>

definition kept :: "u64 \<Rightarrow> u64 set \<Rightarrow> u64 set \<Rightarrow> bool" where
  "kept fresh G G' \<longleftrightarrow> G' \<subseteq> insert fresh G \<and> (\<forall>x \<in> G'. \<forall>y \<in> G. x \<noteq> fresh \<longrightarrow> x < y \<longrightarrow> y \<in> G') \<and> (G \<noteq> {} \<longrightarrow> G' \<noteq> {})"

lemma kept_refl [simp]: "kept fresh G G"
  by (auto simp: kept_def)

lemma kept_replace: "(\<And>x y. x \<in> A \<Longrightarrow> y \<in> B \<Longrightarrow> x < y) \<Longrightarrow> kept fresh (A \<union> B) ({fresh} \<union> B)"
  unfolding kept_def by (auto dest: less_asym)

lemma two_slots: "k = 0 \<or> k = (1 :: nat) \<Longrightarrow> {0, 1} = {k, 1 - k}"
  by auto

lemma gens_eq:
  "k = 0 \<or> k = 1 \<Longrightarrow> gens g key app shard st c =
     (case shard_at g key app shard st c k of None \<Rightarrow> {} | Some (_, gen, _) \<Rightarrow> {gen}) \<union>
     (case shard_at g key app shard st c (1 - k) of None \<Rightarrow> {} | Some (_, gen, _) \<Rightarrow> {gen})"
  unfolding gens_def two_slots [of k] by (auto split: option.splits)

lemma shard_at_cong: "slot_at st c i = slot_at st c' i \<Longrightarrow> shard_at g key app shard st c i = shard_at g key app shard st c' i"
  by (simp add: shard_at_def)

text \<open>The slot that a store rewrites holds the older record.\<close>

lemma inactive_older:
  assumes "shard_inv g key app shard body st c"
  shows "slot_at st c (1 - inactive_slot st c) = None \<Longrightarrow> slot_at st c (inactive_slot st c) = None"
    and "shard_at g key app shard st c (inactive_slot st c) = Some (sq, gen, b) \<Longrightarrow>
      \<exists>sq' gen' b'. shard_at g key app shard st c (1 - inactive_slot st c) = Some (sq', gen', b') \<and> sq < sq' \<and> gen < gen'"
proof -
  let ?k = "inactive_slot st c"
  show none: "slot_at st c (1 - ?k) = None \<Longrightarrow> slot_at st c ?k = None"
    by (cases "slot_at st c 0"; cases "slot_at st c 1") (auto simp: inactive_slot_def newest_def newer_def split: if_splits)
  assume s: "shard_at g key app shard st c ?k = Some (sq, gen, b)"
  then obtain blob where blob: "slot_at st c ?k = Some (sq, blob)" by (auto simp: shard_at_def split: option.splits result.splits)
  with none obtain sq' blob' where o: "slot_at st c (1 - ?k) = Some (sq', blob')" by fastforce
  have k: "?k = 0 \<or> ?k = 1" "1 - ?k = 0 \<or> 1 - ?k = 1" using inactive_slot_01 by auto
  have "\<not> sq' < sq" using blob o k
    by (auto simp: inactive_slot_def newest_def newer_def split: option.splits if_splits)
  moreover from assms o k obtain gen' where s': "shard_at g key app shard st c (1 - ?k) = Some (sq', gen', body gen')"
    unfolding shard_inv_def two_slots [OF k(1)] by (fastforce simp: shard_at_def split: option.splits result.splits)
  moreover have "sq \<noteq> sq' \<and> (sq < sq' \<longrightarrow> gen < gen')"
    using assms s s' unfolding shard_inv_def two_slots [OF k(1)] by blast
  ultimately show "\<exists>sq' gen' b'. shard_at g key app shard st c (1 - ?k) = Some (sq', gen', b') \<and> sq < sq' \<and> gen < gen'" by auto
qed

text \<open>The effect of a store, finished or torn, on the generations of its slots.\<close>

lemma store_generations:
  assumes inv: "shard_inv g key app shard body st c" and fresh: "\<forall>x \<in> gens g key app shard st c. x < gen"
    and seq: "\<forall>sq \<in> seqs st c. sq < next_seq st c"
    and p: "open_shard g key app shard p MAX_PAYLOAD_BYTES = Ok (gen, body gen)"
    and active: "slot_at st c' (1 - inactive_slot st c) = slot_at st c (1 - inactive_slot st c)"
    and torn: "slot_at st c' (inactive_slot st c) \<in> {None, slot_at st c (inactive_slot st c), Some (next_seq st c, p)}"
  shows "shard_inv g key app shard body st c'" and "kept gen (gens g key app shard st c) (gens g key app shard st c')"
    and "seqs st c' \<subseteq> insert (next_seq st c) (seqs st c)"
    and "slot_at st c' (inactive_slot st c) = Some (next_seq st c, p) \<Longrightarrow> gen \<in> gens g key app shard st c'"
proof -
  let ?k = "inactive_slot st c" and ?at = "shard_at g key app shard st"
  have k: "?k = 0 \<or> ?k = 1" by (rule inactive_slot_01)
  have kk: "1 - (1 - ?k) = ?k" using k by auto
  note two = two_slots [OF k] and ge = gens_eq [OF k, of g key app shard st]
  have a: "?at c' (1 - ?k) = ?at c (1 - ?k)" using active by (rule shard_at_cong)
  have new: "?at c' ?k = Some (next_seq st c, gen, body gen)" if "slot_at st c' ?k = Some (next_seq st c, p)"
    using that p by (simp add: shard_at_def)
  have seqA: "sq < next_seq st c" if "?at c (1 - ?k) = Some (sq, x, b)" for sq x b
    using that seq unfolding seqs_def two by (auto simp: shard_at_def split: option.splits result.splits)
  have genA: "x < gen" if "?at c (1 - ?k) = Some (sq, x, b)" for sq x b
    using that fresh unfolding ge by auto
  from torn consider (none) "slot_at st c' ?k = None" "?at c' ?k = None"
    | (old) "slot_at st c' ?k = slot_at st c ?k" "?at c' ?k = ?at c ?k"
    | (new) "slot_at st c' ?k = Some (next_seq st c, p)" "?at c' ?k = Some (next_seq st c, gen, body gen)"
    using p by (auto simp: shard_at_def)
  note cs = this
  from cs show "shard_inv g key app shard body st c'"
  proof cases
    case none
    with inv a active kk show ?thesis unfolding shard_inv_def two by auto
  next
    case old
    with inv a active kk show ?thesis unfolding shard_inv_def two by (simp add: kk)
  next
    case new
    have "\<exists>sq x. ?at c (1 - ?k) = Some (sq, x, body x)" if "slot_at st c (1 - ?k) \<noteq> None"
      using that inv unfolding shard_inv_def two by blast
    with new a active kk seqA genA show ?thesis unfolding shard_inv_def two
      by (fastforce dest: less_asym)
  qed
  from cs show "kept gen (gens g key app shard st c) (gens g key app shard st c')"
  proof cases
    case none
    have "?at c (1 - ?k) = None \<Longrightarrow> ?at c ?k = None" using inactive_older(2) [OF inv] by (cases "?at c ?k") auto
    with none a inactive_older(2) [OF inv] show ?thesis unfolding kept_def ge
      by (fastforce split: option.splits dest: less_asym)
  next
    case old
    with a show ?thesis unfolding ge by simp
  next
    case new
    have "x < y" if "?at c ?k = Some (sq, x, b)" "?at c (1 - ?k) = Some (sq', y, b')" for sq x b sq' y b'
      using inactive_older(2) [OF inv that(1)] that(2) by auto
    then have "kept gen (gens g key app shard st c) ({gen} \<union> (case ?at c (1 - ?k) of None \<Rightarrow> {} | Some (_, x, _) \<Rightarrow> {x}))"
      unfolding ge by (intro kept_replace) (auto split: option.splits)
    with new a show ?thesis unfolding ge [of c'] by simp
  qed
  show "seqs st c' \<subseteq> insert (next_seq st c) (seqs st c)" using torn active unfolding seqs_def two by auto
  show "slot_at st c' ?k = Some (next_seq st c, p) \<Longrightarrow> gen \<in> gens g key app shard st c'" using new unfolding ge by auto
qed

section \<open>Torn writes\<close>

text \<open>A device whose failed writes the checksum of a slot detects: a store that reports success has
  written its record, and one that fails leaves the slot that it rewrites without a record, with the old
  record or with the new one. \<open>usable\<close> says which stores the device can erase.\<close>

locale torn_storage = faulty_storage ops valid content dsize
  for ops :: "'d StorageOps" and valid :: "'d \<Rightarrow> bool" and content :: "'d \<Rightarrow> bytes" and dsize :: nat +
  fixes usable :: "SlotStore \<Rightarrow> bool"
  assumes store_done: "valid d \<Longrightarrow> slots_fit st dsize \<Longrightarrow> usable st \<Longrightarrow> slot_store ops st d p = (Ok sq, d') \<Longrightarrow>
      slot_at st (content d') (inactive_slot st (content d)) = Some (next_seq st (content d), p)"
    and store_torn: "valid d \<Longrightarrow> slots_fit st dsize \<Longrightarrow> usable st \<Longrightarrow> slot_store ops st d p = (Err e, d') \<Longrightarrow>
      slot_at st (content d') (inactive_slot st (content d)) \<in>
        {None, slot_at st (content d) (inactive_slot st (content d)), Some (next_seq st (content d), p)}"

text \<open>A working device is one.\<close>

lemma slot_store_oversize: "MAX_PAYLOAD_BYTES < length p \<Longrightarrow> slot_store ops st d p = (Err StorageError, d)"
  by (simp add: slot_store_def)

sublocale storage_device \<subseteq> working: torn_storage ops valid content dsize
  "\<lambda>st. erasable (slot_offset st 0) (ss_slot_size st) \<and> erasable (slot_offset st 1) (ss_slot_size st)"
proof
  fix d st p
  assume a: "valid d" "slots_fit st dsize"
    "erasable (slot_offset st 0) (ss_slot_size st) \<and> erasable (slot_offset st 1) (ss_slot_size st)"
  let ?k = "inactive_slot st (content d)"
  have ok: "\<exists>d'. slot_store ops st d p = (Ok (next_seq st (content d)), d') \<and> slot_at st (content d') ?k = Some (next_seq st (content d), p)"
    if len: "length p \<le> MAX_PAYLOAD_BYTES"
    using slot_store_ok [OF a(1,2) len] a(3) slot_record_of_record [OF len] unfolding next_seq_def by fastforce
  show "slot_at st (content d') ?k = Some (next_seq st (content d), p)" if "slot_store ops st d p = (Ok sq, d')" for sq d'
    using that ok slot_store_oversize [of p ops st d] by (cases "length p \<le> MAX_PAYLOAD_BYTES") auto
  show "slot_at st (content d') ?k \<in> {None, slot_at st (content d) ?k, Some (next_seq st (content d), p)}"
    if "slot_store ops st d p = (Err e, d')" for e d'
    using that ok slot_store_oversize [of p ops st d] by (cases "length p \<le> MAX_PAYLOAD_BYTES") auto
qed

text \<open>Stores in separate regions do not disturb each other.\<close>

definition apart :: "SlotStore \<Rightarrow> SlotStore \<Rightarrow> bool" where
  "apart st st' \<longleftrightarrow> unat (ss_base st) + 2 * unat (ss_slot_size st) \<le> unat (ss_base st') \<or>
     unat (ss_base st') + 2 * unat (ss_slot_size st') \<le> unat (ss_base st)"

lemma same_outside_take_drop:
  assumes "same_outside a n c c'" and "b + m \<le> a \<or> a + n \<le> b"
  shows "take m (drop b c') = take m (drop b c)"
proof (cases "b + m \<le> a")
  case True
  then have eq: "take m (drop b z) = drop b (take (b + m) (take a z))" for z :: bytes by (simp add: drop_take min_def)
  show ?thesis unfolding eq using assms(1) by (simp only: same_outside_def)
next
  case False
  then have eq: "drop b z = drop (b - (a + n)) (drop (a + n) z)" for z :: bytes using assms(2) by simp
  show ?thesis unfolding eq [of c] eq [of c'] using assms(1) by (simp only: same_outside_def)
qed

lemma apart_slot_at:
  assumes "same_outside (slot_start st k) (unat (ss_slot_size st)) c c'" and "k = 0 \<or> k = 1"
    and "apart st st'" and "i = 0 \<or> i = 1"
  shows "slot_at st' c' i = slot_at st' c i"
proof -
  have "slot_bytes st' c' i = slot_bytes st' c i"
    unfolding slot_bytes_def using assms by (intro same_outside_take_drop [OF assms(1)]) (auto simp: slot_start_def apart_def)
  then show ?thesis by simp
qed

section \<open>Storing a shard\<close>

text \<open>The cipher decrypts what it encrypted under the key.\<close>

definition aead_ok :: "Aead \<Rightarrow> bytes \<Rightarrow> bool" where
  "aead_ok g key \<longleftrightarrow> (\<forall>n a p. \<exists>c t. gcm_encrypt g key n a p = Some (c, t) \<and> length c = length p \<and> length t = TAG_LEN \<and>
     gcm_decrypt g key n a c t = Some p)"

lemma length_nonce [simp]: "length (nonce gen app shard) = NONCE_LEN"
  by (simp add: nonce_def)

lemma seal_open_shard:
  assumes "aead_ok g key" and "length body \<le> SHARD_BODY_MAX"
  shows "\<exists>blob. seal_shard g key app shard gen body = Ok blob \<and> length blob \<le> MAX_PAYLOAD_BYTES \<and>
    open_shard g key app shard blob MAX_PAYLOAD_BYTES = Ok (gen, body)"
proof -
  let ?p = "le_bytes 8 gen @ body"
  obtain c t where ct: "gcm_encrypt g key (nonce gen app shard) AAD ?p = Some (c, t)" "length c = length ?p" "length t = TAG_LEN"
    "gcm_decrypt g key (nonce gen app shard) AAD c t = Some ?p" using assms(1) unfolding aead_ok_def by blast
  have "seal_shard g key app shard gen body = Ok (nonce gen app shard @ c @ t)"
    using ct assms(2) by (simp add: seal_shard_def seal_def)
  moreover have "open_shard g key app shard (nonce gen app shard @ c @ t) MAX_PAYLOAD_BYTES = Ok (gen, body)"
    using ct assms(2) by (simp add: open_shard_def unseal_def)
  ultimately show ?thesis using ct assms(2) by auto
qed

text \<open>There is room for \<open>n\<close> more writes before a counter wraps.\<close>

definition room :: "nat \<Rightarrow> u64 set \<Rightarrow> u32 set \<Rightarrow> bool" where
  "room n G S \<longleftrightarrow> n + 1 < 2 ^ 32 \<and> (\<forall>x \<in> G. unat x + n < 2 ^ 64) \<and> (\<forall>x \<in> S. unat x + n < 2 ^ 32)"

lemma next_seq_fresh:
  assumes "room (Suc n) G (seqs st c)"
  shows "\<forall>sq \<in> seqs st c. sq < next_seq st c" and "unat (next_seq st c) + n < 2 ^ 32"
proof -
  have "\<forall>sq \<in> seqs st c. sq < next_seq st c \<and> unat (next_seq st c) + n < 2 ^ 32" if "store_record st c = Some (sq, p)" for sq p
  proof -
    have "sq \<in> seqs st c" "\<forall>x \<in> seqs st c. x \<le> sq"
      using that by (auto simp: seqs_def store_record_def newest_def newer_def split: option.splits if_splits)
    moreover from this(1) assms have "unat (sq + 1) = unat sq + 1" by (auto simp: room_def unat_word_ariths)
    ultimately show ?thesis using assms that by (auto simp: room_def next_seq_def word_less_nat_alt word_le_nat_alt)
  qed
  moreover have "seqs st c = {}" if "store_record st c = None"
    using that by (auto simp: seqs_def store_record_def newest_def newer_def split: option.splits if_splits)
  moreover have "store_record st c = None \<Longrightarrow> unat (next_seq st c) + n < 2 ^ 32" using assms by (simp add: room_def next_seq_def)
  moreover have "\<exists>sq p. store_record st c = Some (sq, p) \<Longrightarrow> \<exists>x. x \<in> seqs st c"
    by (auto simp: seqs_def store_record_def newest_def newer_def split: option.splits if_splits)
  ultimately show "\<forall>sq \<in> seqs st c. sq < next_seq st c" "unat (next_seq st c) + n < 2 ^ 32"
    by (cases "store_record st c"; force)+
qed

text \<open>What a store of one shard changes.\<close>

definition stored :: "Aead \<Rightarrow> bytes \<Rightarrow> u16 \<Rightarrow> u16 \<Rightarrow> (u64 \<Rightarrow> bytes) \<Rightarrow> nat \<Rightarrow> u64 \<Rightarrow> SlotStore \<Rightarrow> bytes \<Rightarrow> bytes \<Rightarrow> bool" where
  "stored g key app shard body n gen st c c' \<longleftrightarrow> shard_inv g key app shard body st c' \<and>
     kept gen (gens g key app shard st c) (gens g key app shard st c') \<and>
     room n (gens g key app shard st c') (seqs st c')"

context torn_storage
begin

lemma store_shard_torn:
  assumes d: "valid d" "slots_fit st dsize" "usable st"
    and aead: "aead_ok g key" "length (body gen) \<le> SHARD_BODY_MAX"
    and inv: "shard_inv g key app shard body st (content d)"
    and room: "room (Suc n) (gens g key app shard st (content d)) (seqs st (content d))"
    and fresh: "\<forall>x \<in> gens g key app shard st (content d). x < gen" "unat gen + n < 2 ^ 64"
    and run: "store_shard g ops key app shard gen st (body gen) d = (r, d')"
  shows "valid d' \<and> stored g key app shard body n gen st (content d) (content d') \<and>
    (\<forall>st'. apart st st' \<longrightarrow> (\<forall>i \<in> {0, 1}. slot_at st' (content d') i = slot_at st' (content d) i)) \<and>
    (r = Ok () \<longrightarrow> gen \<in> gens g key app shard st (content d'))"
proof -
  let ?c = "content d" and ?k = "inactive_slot st (content d)"
  obtain blob where blob: "seal_shard g key app shard gen (body gen) = Ok blob"
    "open_shard g key app shard blob MAX_PAYLOAD_BYTES = Ok (gen, body gen)" using seal_open_shard [OF aead] by blast
  obtain q where q: "slot_store ops st d blob = (q, d')" "r = Ok () \<longrightarrow> (\<exists>sq. q = Ok sq)"
    using run blob(1) by (auto simp: store_shard_def split: prod.splits result.splits)
  note range = slot_store_range [OF d(1,2) q(1)]
  have k: "?k = 0 \<or> ?k = 1" by (rule inactive_slot_01)
  have active: "slot_at st (content d') (1 - ?k) = slot_at st ?c (1 - ?k)"
    using slot_bytes_kept [OF conjunct2 [OF range] k] by simp
  have torn: "slot_at st (content d') ?k \<in> {None, slot_at st ?c ?k, Some (next_seq st ?c, blob)}"
    using store_done [OF d] store_torn [OF d] q(1) by (cases q) auto
  note ns = next_seq_fresh [OF room]
  note sg = store_generations [OF inv fresh(1) ns(1) blob(2) active torn]
  have "room n (gens g key app shard st (content d')) (seqs st (content d'))"
    using room sg(2,3) ns(2) fresh(2) by (fastforce simp: room_def kept_def)
  moreover have "r = Ok () \<longrightarrow> gen \<in> gens g key app shard st (content d')" using sg(4) store_done [OF d] q by auto
  moreover have "\<forall>i \<in> {0, 1}. slot_at st' (content d') i = slot_at st' ?c i" if "apart st st'" for st'
    using apart_slot_at [OF conjunct2 [OF range] k that] by auto
  ultimately show ?thesis using range sg(1,2) by (auto simp: stored_def)
qed

end

section \<open>Saving a blob\<close>

definition same_slots :: "SlotStore \<Rightarrow> bytes \<Rightarrow> bytes \<Rightarrow> bool" where
  "same_slots st c c' \<longleftrightarrow> (\<forall>i \<in> {0, 1}. slot_at st c' i = slot_at st c i)"

lemma same_slots_eqs:
  assumes "same_slots st c c'"
  shows "shard_at g key app shard st c' 0 = shard_at g key app shard st c 0"
    "shard_at g key app shard st c' 1 = shard_at g key app shard st c 1"
    "gens g key app shard st c' = gens g key app shard st c" "seqs st c' = seqs st c"
    "shard_inv g key app shard body st c' = shard_inv g key app shard body st c"
  using assms by (simp_all add: same_slots_def shard_at_def gens_def seqs_def shard_inv_def)

lemma same_slots_trans: "same_slots st a b \<Longrightarrow> same_slots st b c \<Longrightarrow> same_slots st a c"
  by (simp add: same_slots_def)

lemma room_mono: "room n G S \<Longrightarrow> m \<le> n \<Longrightarrow> room m G S"
  by (fastforce simp: room_def)

lemma stored_same:
  assumes "shard_inv g key app shard body st c" and "room (Suc n) (gens g key app shard st c) (seqs st c)" and "same_slots st c c'"
  shows "stored g key app shard body n gen st c c'"
  using assms(1) room_mono [OF assms(2), of n] same_slots_eqs [OF assms(3)] by (simp add: stored_def)

lemma stored_cong: "stored g key app shard body n gen st c c1 \<Longrightarrow> same_slots st c1 c2 \<Longrightarrow> stored g key app shard body n gen st c c2"
  using same_slots_eqs [of st c1 c2] by (simp add: stored_def)

text \<open>The data shards and the commit shard of a blob, and the bodies that its generations have, when \<open>hist\<close> is the data that
  was saved under each.\<close>

definition shards_of :: "'d SealedBlob \<Rightarrow> SlotStore list" where
  "shards_of b = bl_data b @ [bl_commit b]"

definition shard_body :: "nat \<Rightarrow> (u64 \<Rightarrow> bytes) \<Rightarrow> nat \<Rightarrow> u64 \<Rightarrow> bytes" where
  "shard_body N hist i gen = (if i < N then chunk i (hist gen) else le_bytes 4 (of_nat (length (hist gen)) :: u32))"

lemma length_chunk: "length (chunk i data) \<le> SHARD_BODY_MAX"
  by (auto simp: chunk_def sub_slice_def Let_def)

lemma length_shard_body: "length (shard_body N hist i gen) \<le> SHARD_BODY_MAX"
  using length_chunk [of i "hist gen"] by (simp add: shard_body_def)

definition layout :: "nat \<Rightarrow> (SlotStore \<Rightarrow> bool) \<Rightarrow> 'd SealedBlob \<Rightarrow> bool" where
  "layout dsize usable b \<longleftrightarrow> (\<forall>i \<le> bl_shards b. slots_fit (shards_of b ! i) dsize \<and> usable (shards_of b ! i)) \<and>
     (\<forall>i \<le> bl_shards b. \<forall>j \<le> bl_shards b. i \<noteq> j \<longrightarrow> apart (shards_of b ! i) (shards_of b ! j))"

context torn_storage
begin

lemma store_ith:
  assumes lay: "layout dsize usable b" and i: "i \<le> bl_shards b" and d: "valid d" "same_slots (shards_of b ! i) c (content d)"
    and aead: "aead_ok g (bl_sealer b)"
    and inv: "shard_inv g (bl_sealer b) app (of_nat i) (shard_body N hist i) (shards_of b ! i) c"
      "room (Suc n) (gens g (bl_sealer b) app (of_nat i) (shards_of b ! i) c) (seqs (shards_of b ! i) c)"
    and fresh: "\<forall>x \<in> gens g (bl_sealer b) app (of_nat i) (shards_of b ! i) c. x < gen" "unat gen + n < 2 ^ 64"
    and run: "store_shard g ops (bl_sealer b) app (of_nat i) gen (shards_of b ! i) (shard_body N hist i gen) d = (r, d')"
  shows "valid d' \<and> stored g (bl_sealer b) app (of_nat i) (shard_body N hist i) n gen (shards_of b ! i) c (content d') \<and>
    (\<forall>j \<le> bl_shards b. j \<noteq> i \<longrightarrow> same_slots (shards_of b ! j) (content d) (content d')) \<and>
    (r = Ok () \<longrightarrow> gen \<in> gens g (bl_sealer b) app (of_nat i) (shards_of b ! i) (content d'))"
proof -
  note eqs = same_slots_eqs [OF d(2)]
  have fit: "slots_fit (shards_of b ! i) dsize" "usable (shards_of b ! i)" using lay i by (auto simp: layout_def)
  have ap: "apart (shards_of b ! i) (shards_of b ! j)" if "j \<le> bl_shards b" "j \<noteq> i" for j
    using lay i that by (auto simp: layout_def)
  have "shard_inv g (bl_sealer b) app (of_nat i) (shard_body N hist i) (shards_of b ! i) (content d)" using inv(1) eqs by simp
  moreover have "room (Suc n) (gens g (bl_sealer b) app (of_nat i) (shards_of b ! i) (content d)) (seqs (shards_of b ! i) (content d))"
    using inv(2) eqs by simp
  moreover have "\<forall>x \<in> gens g (bl_sealer b) app (of_nat i) (shards_of b ! i) (content d). x < gen" using fresh(1) eqs by simp
  ultimately have "valid d' \<and> stored g (bl_sealer b) app (of_nat i) (shard_body N hist i) n gen (shards_of b ! i) (content d) (content d') \<and>
    (\<forall>st'. apart (shards_of b ! i) st' \<longrightarrow> (\<forall>i \<in> {0, 1}. slot_at st' (content d') i = slot_at st' (content d) i)) \<and>
    (r = Ok () \<longrightarrow> gen \<in> gens g (bl_sealer b) app (of_nat i) (shards_of b ! i) (content d'))"
    by (intro store_shard_torn [where body = "shard_body N hist i", OF d(1) fit aead length_shard_body _ _ _ fresh(2) run])
  with ap eqs show ?thesis by (simp add: same_slots_def stored_def)
qed

text \<open>A save, from a device whose slots are those of \<open>c\<close>, stores in every shard or leaves it alone.\<close>

lemma save_loop_torn:
  assumes lay: "layout dsize usable b" and aead: "aead_ok g (bl_sealer b)" and N: "N = bl_shards b"
    and inv: "\<forall>j < N. shard_inv g (bl_sealer b) app (of_nat j) (shard_body N hist j) (shards_of b ! j) c \<and>
      room (Suc n) (gens g (bl_sealer b) app (of_nat j) (shards_of b ! j) c) (seqs (shards_of b ! j) c) \<and>
      (\<forall>x \<in> gens g (bl_sealer b) app (of_nat j) (shards_of b ! j) c. x < gen)"
    and gen: "unat gen + n < 2 ^ 64"
    and data: "hist gen = data" and len: "i \<le> N"
    and d: "valid d" "\<forall>j < i. stored g (bl_sealer b) app (of_nat j) (shard_body N hist j) n gen (shards_of b ! j) c (content d) \<and>
        gen \<in> gens g (bl_sealer b) app (of_nat j) (shards_of b ! j) (content d)"
      "\<forall>j \<le> N. i \<le> j \<longrightarrow> same_slots (shards_of b ! j) c (content d)"
    and run: "save_loop g ops (bl_sealer b) app gen data (drop i (bl_data b)) i d = (r, d')"
  shows "valid d' \<and> same_slots (bl_commit b) c (content d') \<and>
    (\<forall>j < N. stored g (bl_sealer b) app (of_nat j) (shard_body N hist j) n gen (shards_of b ! j) c (content d') \<and>
       (r = Ok () \<longrightarrow> gen \<in> gens g (bl_sealer b) app (of_nat j) (shards_of b ! j) (content d')))"
  using len d run
proof (induction "N - i" arbitrary: i d)
  case 0
  then have "i = N" "d' = d" "r = Ok ()" using N by auto
  with 0 N show ?case by (auto simp: shards_of_def nth_append)
next
  case (Suc m)
  then have i: "i < N" by simp
  have st: "bl_data b ! i = shards_of b ! i" using i N by (simp add: shards_of_def nth_append)
  have dr: "drop i (bl_data b) = shards_of b ! i # drop (Suc i) (bl_data b)" using Cons_nth_drop_Suc [of i "bl_data b"] i N st by simp
  have body: "shard_body N hist i gen = chunk i data" using i data by (simp add: shard_body_def)
  obtain q d1 where q: "store_shard g ops (bl_sealer b) app (of_nat i) gen (shards_of b ! i) (shard_body N hist i gen) d = (q, d1)"
    by (rule prod.exhaust)
  have sl: "same_slots (shards_of b ! i) c (content d)" using Suc.prems(4) i by simp
  note s1 = store_ith [OF lay _ Suc.prems(2) sl aead _ _ _ gen q]
  have s1: "valid d1" "stored g (bl_sealer b) app (of_nat i) (shard_body N hist i) n gen (shards_of b ! i) c (content d1)"
    "\<forall>j \<le> N. j \<noteq> i \<longrightarrow> same_slots (shards_of b ! j) (content d) (content d1)"
    "q = Ok () \<Longrightarrow> gen \<in> gens g (bl_sealer b) app (of_nat i) (shards_of b ! i) (content d1)"
    using s1 i N inv by auto
  have before: "stored g (bl_sealer b) app (of_nat j) (shard_body N hist j) n gen (shards_of b ! j) c (content d1) \<and>
      gen \<in> gens g (bl_sealer b) app (of_nat j) (shards_of b ! j) (content d1)" if "j < i" for j
  proof -
    have "same_slots (shards_of b ! j) (content d) (content d1)" using s1(3) that i by simp
    from stored_cong [OF _ this] same_slots_eqs(3) [OF this] Suc.prems(3) that show ?thesis by auto
  qed
  have after: "same_slots (shards_of b ! j) c (content d1)" if "i < j" "j \<le> N" for j
    using same_slots_trans Suc.prems(4) s1(3) that by (metis less_imp_le_nat nat_neq_iff)
  show ?case
  proof (cases q)
    case (Err e)
    then have r: "r = Err e" "d' = d1" using Suc.prems(5) q dr body by auto
    have "stored g (bl_sealer b) app (of_nat j) (shard_body N hist j) n gen (shards_of b ! j) c (content d1)" if "j < N" for j
      using before [of j] s1(2) stored_same [OF _ _ after [of j]] inv that by (cases j i rule: linorder_cases) auto
    moreover have "shards_of b ! N = bl_commit b" using N by (simp add: shards_of_def)
    ultimately show ?thesis using r s1(1) after [of N] i by auto
  next
    case (Ok u)
    then have run1: "save_loop g ops (bl_sealer b) app gen data (drop (Suc i) (bl_data b)) (Suc i) d1 = (r, d')"
      using Suc.prems(5) q dr body by auto
    have "\<forall>j < Suc i. stored g (bl_sealer b) app (of_nat j) (shard_body N hist j) n gen (shards_of b ! j) c (content d1) \<and>
        gen \<in> gens g (bl_sealer b) app (of_nat j) (shards_of b ! j) (content d1)"
      using before s1(2) s1(4) Ok by (auto simp: less_Suc_eq)
    moreover have "\<forall>j \<le> N. Suc i \<le> j \<longrightarrow> same_slots (shards_of b ! j) c (content d1)" using after by auto
    ultimately show ?thesis using Suc.hyps(1) [of "Suc i" d1] Suc.hyps(2) i s1(1) run1 by auto
  qed
qed

end

section \<open>Reading a blob\<close>

text \<open>A maximum over \<open>G\<close> that starts at \<open>m\<close>.\<close>

definition tops :: "u64 \<Rightarrow> u64 set \<Rightarrow> u64 \<Rightarrow> bool" where
  "tops m G x \<longleftrightarrow> x \<in> insert m G \<and> m \<le> x \<and> (\<forall>y \<in> G. y \<le> x)"

lemma tops_trans: "tops m G x \<Longrightarrow> tops x H z \<Longrightarrow> tops m (G \<union> H) z"
  unfolding tops_def by (auto intro: order_trans)

definition opt_max :: "u64 option \<Rightarrow> u64 \<Rightarrow> u64" where
  "opt_max x m = (case x of None \<Rightarrow> m | Some u \<Rightarrow> max m u)"

context faulty_storage
begin

text \<open>Whether reads of the device succeed.\<close>

definition reads :: bool where
  "reads \<longleftrightarrow> (\<forall>d st i. valid d \<longrightarrow> slots_fit st dsize \<longrightarrow> i = 0 \<or> i = 1 \<longrightarrow> is_ok (fst (slot_blob ops st d i)))"

text \<open>Reading a slot of a store gives its record, or fails.\<close>

lemma slot_blob_cases:
  assumes "valid d" and "slots_fit st dsize" and "i = 0 \<or> i = 1" and "slot_blob ops st d i = (r, d')"
  shows "valid d' \<and> content d' = content d \<and>
    (r = Ok (map_option snd (slot_at st (content d) (unat i))) \<or> \<not> reads \<and> (\<exists>e. r = Err e))"
proof (cases r)
  case (Err e)
  with assms have "\<not> reads" unfolding reads_def by (auto intro!: exI [of _ d] exI [of _ st] exI [of _ i])
  with slot_blob_truth [OF assms] Err show ?thesis by simp
qed (use slot_blob_truth [OF assms] in simp)

text \<open>What the two slots of a store hold, and what reading them gives.\<close>

lemma read_shards:
  assumes d: "valid d" "slots_fit st dsize" and inv: "shard_inv g key app shard body st (content d)"
    and r0: "slot_blob ops st d 0 = (r0, d0)" and r1: "slot_blob ops st d0 1 = (r1, d1)"
  obtains x y where "gens g key app shard st (content d) = set_option x \<union> set_option y" and "\<forall>u v. x = Some u \<longrightarrow> y = Some v \<longrightarrow> u \<noteq> v"
    and "valid d0" and "content d0 = content d" and "valid d1" and "content d1 = content d"
    and "\<not> reads \<and> (\<exists>e. r0 = Err e) \<or> x = None \<and> r0 = Ok None \<or>
      (\<exists>u blob. x = Some u \<and> r0 = Ok (Some blob) \<and> open_shard g key app shard blob MAX_PAYLOAD_BYTES = Ok (u, body u))"
    and "\<not> reads \<and> (\<exists>e. r1 = Err e) \<or> y = None \<and> r1 = Ok None \<or>
      (\<exists>v blob. y = Some v \<and> r1 = Ok (Some blob) \<and> open_shard g key app shard blob MAX_PAYLOAD_BYTES = Ok (v, body v))"
proof -
  let ?at = "shard_at g key app shard st (content d)"
  note t0 = slot_blob_cases [OF d _ r0, simplified]
  note t1 = slot_blob_cases [OF conjunct1 [OF t0] d(2) _ r1, simplified]
  have rec: "slot_at st (content d) i = None \<and> ?at i = None \<or>
      (\<exists>sq blob u. slot_at st (content d) i = Some (sq, blob) \<and> open_shard g key app shard blob MAX_PAYLOAD_BYTES = Ok (u, body u) \<and>
         ?at i = Some (sq, u, body u))" if i: "i \<in> {0, 1}" for i
  proof (cases "slot_at st (content d) i")
    case (Some p)
    with inv i obtain sq u where "?at i = Some (sq, u, body u)" unfolding shard_inv_def by blast
    with Some show ?thesis by (cases p) (auto simp: shard_at_def split: result.splits)
  qed (simp add: shard_at_def)
  have ne: "u \<noteq> v" if "?at 0 = Some (sq, u, b)" "?at 1 = Some (sq', v, b')" for sq u b sq' v b'
  proof -
    have "sq \<noteq> sq' \<and> (sq < sq' \<longrightarrow> u < v) \<and> (sq' < sq \<longrightarrow> v < u)"
      using inv that unfolding shard_inv_def by (auto dest!: bspec [of _ _ 0] bspec [of _ _ 1])
    then show ?thesis by (cases sq sq' rule: linorder_cases) auto
  qed
  let ?x = "map_option (\<lambda>(_, u, _). u) (?at 0)" and ?y = "map_option (\<lambda>(_, u, _). u) (?at 1)"
  have "gens g key app shard st (content d) = set_option ?x \<union> set_option ?y"
    using gens_eq [of 0 g key app shard st "content d"] by (auto split: option.splits)
  moreover have "u \<noteq> v" if "?x = Some u" "?y = Some v" for u v
    using that by (clarsimp simp del: One_nat_def) (drule (1) ne, simp)
  then have "\<forall>u v. ?x = Some u \<longrightarrow> ?y = Some v \<longrightarrow> u \<noteq> v" by blast
  ultimately show thesis
    by (rule that) (use t0 t1 rec [of 0] rec [of 1] in auto)
qed

lemma find_shard_truth:
  assumes d: "valid d" "slots_fit st dsize" and inv: "shard_inv g key app shard body st (content d)" and q: "Q (body gen)"
    and run: "find_shard g ops key app shard st (\<lambda>(x, b). x = gen \<and> Q b) [0, 1] d = (r, d')"
  shows "valid d' \<and> content d' = content d \<and>
    (r = Ok (if gen \<in> gens g key app shard st (content d) then Some (body gen) else None) \<or> \<not> reads \<and> (\<exists>e. r = Err e))"
proof -
  obtain r0 d0 where r0: "slot_blob ops st d 0 = (r0, d0)" by (rule prod.exhaust)
  obtain r1 d1 where r1: "slot_blob ops st d0 1 = (r1, d1)" by (rule prod.exhaust)
  show ?thesis
    by (rule read_shards [OF d inv r0 r1]) (use run r0 r1 q in \<open>auto split: if_splits\<close>)
qed

lemma gen_loop_truth:
  assumes d: "valid d" "slots_fit st dsize" and inv: "shard_inv g key app shard body st (content d)"
    and opened: "\<And>blob x. open_shard g key app shard blob MAX_PAYLOAD_BYTES = Ok (x, body x) \<Longrightarrow> opened blob = Ok x"
    and run: "gen_loop ops opened st [0, 1] d m = (r, d')"
  shows "valid d' \<and> content d' = content d \<and>
    ((\<exists>x. r = Ok x \<and> tops m (gens g key app shard st (content d)) x) \<or>
     \<not> reads \<and> (\<exists>e. r = Err e))"
proof -
  obtain r0 d0 where r0: "slot_blob ops st d 0 = (r0, d0)" by (rule prod.exhaust)
  obtain r1 d1 where r1: "slot_blob ops st d0 1 = (r1, d1)" by (rule prod.exhaust)
  show ?thesis
  proof (rule read_shards [OF d inv r0 r1])
    fix x y
    assume ge: "gens g key app shard st (content d) = set_option x \<union> set_option y"
      and v: "valid d0" "content d0 = content d" "valid d1" "content d1 = content d"
      and x: "\<not> reads \<and> (\<exists>e. r0 = Err e) \<or> x = None \<and> r0 = Ok None \<or>
        (\<exists>u blob. x = Some u \<and> r0 = Ok (Some blob) \<and> open_shard g key app shard blob MAX_PAYLOAD_BYTES = Ok (u, body u))"
      and y: "\<not> reads \<and> (\<exists>e. r1 = Err e) \<or> y = None \<and> r1 = Ok None \<or>
        (\<exists>v blob. y = Some v \<and> r1 = Ok (Some blob) \<and> open_shard g key app shard blob MAX_PAYLOAD_BYTES = Ok (v, body v))"
    let ?x = "opt_max y (opt_max x m)"
    have "valid d' \<and> content d' = content d \<and> (r = Ok ?x \<or> \<not> reads \<and> (\<exists>e. r = Err e))"
      using run r0 r1 x y v by (auto simp: opt_max_def dest!: opened)
    moreover have "tops m (set_option x \<union> set_option y) ?x"
      by (cases x; cases y) (auto simp: tops_def opt_max_def le_max_iff_disj max_def)
    ultimately show ?thesis unfolding ge by blast
  qed
qed

lemma candidate_loop_truth:
  assumes d: "valid d" "slots_fit st dsize" and inv: "shard_inv g key app shard body st (content d)"
    and len: "\<And>x. length (body x) = COMMIT_LEN"
    and run: "candidate_loop g ops key app shard st [0, 1] [] d = (r, d')"
  shows "valid d' \<and> content d' = content d \<and>
    ((\<exists>xs. r = Ok xs \<and> set xs = gens g key app shard st (content d) \<and> sorted_wrt (>) (newest_first xs) \<and>
        set (newest_first xs) = set xs) \<or>
     \<not> reads \<and> (\<exists>e. r = Err e))"
proof -
  obtain r0 d0 where r0: "slot_blob ops st d 0 = (r0, d0)" by (rule prod.exhaust)
  obtain r1 d1 where r1: "slot_blob ops st d0 1 = (r1, d1)" by (rule prod.exhaust)
  have nf: "u \<noteq> v \<Longrightarrow> sorted_wrt (>) (newest_first [u, v]) \<and> set (newest_first [u, v]) = {u, v}" for u v
    by (auto simp: newest_first_def not_less_iff_gr_or_eq)
  have nf1: "newest_first [u] = [u]" "newest_first [] = []" for u by (simp_all add: newest_first_def)
  show ?thesis
    by (rule read_shards [OF d inv r0 r1]) (use run r0 r1 len nf nf1 in auto)
qed

lemma assemble_loop_truth:
  assumes N: "N = bl_shards b" and fit: "\<forall>j < N. slots_fit (shards_of b ! j) dsize"
    and inv: "\<forall>j < N. shard_inv g (bl_sealer b) app (of_nat j) (shard_body N hist j) (shards_of b ! j) (content d)"
    and len: "length (hist gen) \<le> N * SHARD_BODY_MAX" and i: "i \<le> N" and d: "valid d"
    and run: "assemble_loop g ops (bl_sealer b) app gen (length (hist gen)) (drop i (bl_data b)) i (take (i * SHARD_BODY_MAX) (hist gen)) d = (r, d')"
  shows "valid d' \<and> content d' = content d \<and>
    (r = Ok (if \<forall>j < N. i \<le> j \<longrightarrow> gen \<in> gens g (bl_sealer b) app (of_nat j) (shards_of b ! j) (content d) then Some (hist gen) else None) \<or>
     \<not> reads \<and> (\<exists>e. r = Err e))"
  using i d run inv
proof (induction "N - i" arbitrary: i d)
  case 0
  then have "i = N" by simp
  with 0 len N show ?case by auto
next
  case (Suc m)
  then have i: "i < N" by simp
  let ?G = "\<lambda>j. gens g (bl_sealer b) app (of_nat j) (shards_of b ! j) (content d)"
  have st: "bl_data b ! i = shards_of b ! i" using i N by (simp add: shards_of_def nth_append)
  have dr: "drop i (bl_data b) = shards_of b ! i # drop (Suc i) (bl_data b)" using Cons_nth_drop_Suc [of i "bl_data b"] i N st by simp
  obtain q d1 where q: "find_shard g ops (bl_sealer b) app (of_nat i) (shards_of b ! i) (\<lambda>(x, b). x = gen \<and> True) [0, 1] d = (q, d1)"
    by (rule prod.exhaust)
  have t: "valid d1 \<and> content d1 = content d \<and>
      (q = Ok (if gen \<in> ?G i then Some (shard_body N hist i gen) else None) \<or> \<not> reads \<and> (\<exists>e. q = Err e))"
    using find_shard_truth [OF Suc.prems(2) _ _ _ q] fit Suc.prems(4) i by blast
  have chunk: "take (i * SHARD_BODY_MAX) (hist gen) @ take (length (hist gen) - length (take (i * SHARD_BODY_MAX) (hist gen))) (shard_body N hist i gen) =
      take (Suc i * SHARD_BODY_MAX) (hist gen)"
    using i take_add [of "i * SHARD_BODY_MAX" SHARD_BODY_MAX "hist gen"]
    by (auto simp: shard_body_def chunk_def sub_slice_def Let_def min_def add.commute simp flip: take_drop)
  show ?case
  proof (cases "q = Ok (Some (shard_body N hist i gen)) \<and> gen \<in> ?G i")
    case True
    then have run1: "assemble_loop g ops (bl_sealer b) app gen (length (hist gen)) (drop (Suc i) (bl_data b)) (Suc i)
        (take (Suc i * SHARD_BODY_MAX) (hist gen)) d1 = (r, d')"
      using Suc.prems(3) q unfolding dr chunk [symmetric] by simp
    have "(\<forall>j < N. i \<le> j \<longrightarrow> gen \<in> ?G j) = (\<forall>j < N. Suc i \<le> j \<longrightarrow> gen \<in> ?G j)"
      using True by (metis le_eq_less_or_eq Suc_le_eq)
    with Suc.hyps(1) [of "Suc i" d1] Suc.hyps(2) i t run1 Suc.prems(4) show ?thesis by auto
  next
    case False
    with t Suc.prems(3) q dr i show ?thesis by (auto split: if_splits)
  qed
qed

end

text \<open>The invariant of a blob. A generation that is committed and newer than one that a data shard still holds is in that shard,
  so that only the newest committed generation can be whole.\<close>

definition blob_gens :: "Aead \<Rightarrow> 'd SealedBlob \<Rightarrow> bytes \<Rightarrow> nat \<Rightarrow> u64 set" where
  "blob_gens g b c i = gens g (bl_sealer b) (bl_applet b) (of_nat i) (shards_of b ! i) c"

definition blob_inv :: "Aead \<Rightarrow> nat \<Rightarrow> (u64 \<Rightarrow> bytes) \<Rightarrow> 'd SealedBlob \<Rightarrow> bytes \<Rightarrow> bool" where
  "blob_inv g n hist b c \<longleftrightarrow>
     (\<forall>i \<le> bl_shards b.
        shard_inv g (bl_sealer b) (bl_applet b) (of_nat i) (shard_body (bl_shards b) hist i) (shards_of b ! i) c \<and>
        room n (blob_gens g b c i) (seqs (shards_of b ! i) c)) \<and>
     (\<forall>i < bl_shards b. \<forall>x \<in> blob_gens g b c i. \<forall>y \<in> blob_gens g b c (bl_shards b). x < y \<longrightarrow> y \<in> blob_gens g b c i) \<and>
     (\<forall>y \<in> blob_gens g b c (bl_shards b). length (hist y) \<le> min STATE_BYTES (bl_shards b * SHARD_BODY_MAX))"

definition blob_whole :: "Aead \<Rightarrow> 'd SealedBlob \<Rightarrow> bytes \<Rightarrow> u64 \<Rightarrow> bool" where
  "blob_whole g b c gen \<longleftrightarrow> (\<forall>i < bl_shards b. gen \<in> blob_gens g b c i)"

definition blob_data :: "Aead \<Rightarrow> (u64 \<Rightarrow> bytes) \<Rightarrow> 'd SealedBlob \<Rightarrow> bytes \<Rightarrow> bytes option" where
  "blob_data g hist b c =
     (let C = blob_gens g b c (bl_shards b)
      in if C = {} then Some [] else if blob_whole g b c (Max C) then Some (hist (Max C)) else None)"

lemma finite_gens [simp]: "finite (gens g key app shard st c)"
  using gens_eq [of 0 g key app shard st c] by (auto split: option.splits)

lemma newest_whole:
  assumes "blob_inv g n hist b c" and "sorted_wrt (>) xs" and "set xs = blob_gens g b c (bl_shards b)" and "xs \<noteq> []"
  shows "find (blob_whole g b c) xs = (if blob_whole g b c (Max (set xs)) then Some (Max (set xs)) else None)"
proof -
  obtain x ys where xs: "xs = x # ys" using assms(4) by (cases xs) auto
  have m: "Max (set xs) = x" using assms(2) unfolding xs by (intro Max_eqI) auto
  have "\<not> blob_whole g b c y" if "y \<in> set ys" "\<not> blob_whole g b c x" for y
  proof
    assume "blob_whole g b c y"
    then have "blob_whole g b c x" using assms(1-3) that(1) unfolding xs blob_whole_def blob_inv_def by fastforce
    with that(2) show False by simp
  qed
  then show ?thesis unfolding m by (auto simp: xs find_None_iff)
qed

lemma shards_of_device [simp]: "shards_of (b\<lparr>bl_device := d\<rparr>) = shards_of b"
  by (simp add: shards_of_def)

lemma blob_device [simp]:
  "blob_gens g (b\<lparr>bl_device := d\<rparr>) c = blob_gens g b c" "blob_inv g n hist (b\<lparr>bl_device := d\<rparr>) c = blob_inv g n hist b c"
  "blob_whole g (b\<lparr>bl_device := d\<rparr>) c = blob_whole g b c" "blob_data g hist (b\<lparr>bl_device := d\<rparr>) c = blob_data g hist b c"
  by (simp_all add: blob_gens_def [abs_def] blob_inv_def blob_whole_def [abs_def] blob_data_def Let_def)

context faulty_storage
begin

definition quiet :: "'d SealedBlob \<Rightarrow> 'd SealedBlob \<Rightarrow> bool" where
  "quiet b b' \<longleftrightarrow> (\<exists>d. b' = b\<lparr>bl_device := d\<rparr> \<and> valid d \<and> content d = content (bl_device b))"

lemma quiet_refl: "valid (bl_device b) \<Longrightarrow> quiet b b"
  unfolding quiet_def by (rule exI [of _ "bl_device b"]) simp

lemma quiet_trans: "quiet a b \<Longrightarrow> quiet b c \<Longrightarrow> quiet a c"
  by (auto simp: quiet_def)

lemma assemble_truth:
  assumes fit: "\<forall>j \<le> bl_shards b. slots_fit (shards_of b ! j) dsize" and inv: "blob_inv g n hist b (content (bl_device b))"
    and d: "valid (bl_device b)" and gen: "gen \<in> blob_gens g b (content (bl_device b)) (bl_shards b)"
    and run: "assemble g ops b gen STATE_BYTES = (r, b')"
  shows "quiet b b' \<and> (r = Ok (if blob_whole g b (content (bl_device b)) gen then Some (hist gen) else None) \<or> \<not> reads \<and> (\<exists>e. r = Err e))"
proof -
  let ?N = "bl_shards b" and ?c = "content (bl_device b)"
  have cm: "shards_of b ! ?N = bl_commit b" by (simp add: shards_of_def)
  have sh: "shard_inv g (bl_sealer b) (bl_applet b) (of_nat j) (shard_body ?N hist j) (shards_of b ! j) ?c" if "j \<le> ?N" for j
    using inv that by (simp add: blob_inv_def)
  have body: "shard_body ?N hist ?N gen = le_bytes 4 (of_nat (length (hist gen)) :: u32)" by (simp add: shard_body_def)
  have len: "length (hist gen) \<le> min STATE_BYTES (?N * SHARD_BODY_MAX)" using inv gen by (simp add: blob_inv_def)
  then have tot: "unat (of_le_bytes (shard_body ?N hist ?N gen) :: u32) = length (hist gen)"
    unfolding body by (simp add: unat_of_nat)
  obtain q d1 where q: "find_shard g ops (bl_sealer b) (bl_applet b) (of_nat ?N) (bl_commit b)
      (\<lambda>(slot_gen, body). slot_gen = gen \<and> length body = COMMIT_LEN) [0, 1] (bl_device b) = (q, d1)" by (rule prod.exhaust)
  have t: "valid d1 \<and> content d1 = ?c \<and> (q = Ok (Some (shard_body ?N hist ?N gen)) \<or> \<not> reads \<and> (\<exists>e. q = Err e))"
    using find_shard_truth [where Q = "\<lambda>body. length body = COMMIT_LEN", OF d _ sh [of ?N, unfolded cm] _ q] fit gen body
    by (auto simp: blob_gens_def cm)
  show ?thesis
  proof (cases q)
    case (Err e)
    with t run q show ?thesis by (auto simp: assemble_def quiet_def)
  next
    case (Ok x)
    obtain q2 d2 where q2: "assemble_loop g ops (bl_sealer b) (bl_applet b) gen (length (hist gen)) (bl_data b) 0 [] d1 = (q2, d2)"
      by (rule prod.exhaust)
    have "valid d2 \<and> content d2 = content d1 \<and>
        (q2 = Ok (if blob_whole g b ?c gen then Some (hist gen) else None) \<or> \<not> reads \<and> (\<exists>e. q2 = Err e))"
      using assemble_loop_truth [of ?N b g "bl_applet b" hist d1 gen 0 q2 d2] fit sh t len q2 by (simp add: blob_whole_def blob_gens_def)
    with Ok t run q q2 len tot show ?thesis by (auto simp: assemble_def quiet_def Let_def)
  qed
qed

lemma try_candidates_truth:
  assumes "\<forall>j \<le> bl_shards b. slots_fit (shards_of b ! j) dsize" and "blob_inv g n hist b (content (bl_device b))"
    and "valid (bl_device b)" and "set xs \<subseteq> blob_gens g b (content (bl_device b)) (bl_shards b)"
    and "try_candidates g ops STATE_BYTES xs b = (r, b')"
  shows "quiet b b' \<and> (r = (case find (blob_whole g b (content (bl_device b))) xs of Some x \<Rightarrow> Ok (Some (hist x)) | None \<Rightarrow> Err StorageError) \<or>
    \<not> reads \<and> (\<exists>e. r = Err e))"
  using assms
proof (induction xs arbitrary: b)
  case Nil
  then show ?case by (auto intro: quiet_refl)
next
  case (Cons x xs)
  obtain q b1 where q: "assemble g ops b x STATE_BYTES = (q, b1)" by (rule prod.exhaust)
  note t = assemble_truth [OF Cons.prems(1-3) _ q]
  then have b1: "quiet b b1" and tq: "q = Ok (if blob_whole g b (content (bl_device b)) x then Some (hist x) else None) \<or> \<not> reads \<and> (\<exists>e. q = Err e)"
    using Cons.prems(4) by auto
  show ?case
  proof (cases "q = Ok None \<and> \<not> blob_whole g b (content (bl_device b)) x")
    case False
    with tq b1 Cons.prems(5) q show ?thesis by (auto split: if_splits)
  next
    case True
    with q Cons.prems(5) have run: "try_candidates g ops STATE_BYTES xs b1 = (r, b')" by simp
    obtain d where "b1 = b\<lparr>bl_device := d\<rparr>" "valid d" "content d = content (bl_device b)" using b1 by (auto simp: quiet_def)
    with Cons.IH [of b1] Cons.prems run True quiet_trans [OF b1] show ?thesis by simp
  qed
qed

lemma blob_load_truth:
  assumes fit: "\<forall>j \<le> bl_shards b. slots_fit (shards_of b ! j) dsize" and inv: "blob_inv g n hist b (content (bl_device b))"
    and d: "valid (bl_device b)" and run: "sealed_oath_load g ops STATE_BYTES b = (r, b')"
  shows "quiet b b' \<and> (r = blob_data g hist b (content (bl_device b)) \<or> \<not> reads \<and> r = None)"
proof -
  let ?N = "bl_shards b" and ?c = "content (bl_device b)"
  have cm: "shards_of b ! ?N = bl_commit b" by (simp add: shards_of_def)
  obtain q d1 where q: "candidate_loop g ops (bl_sealer b) (bl_applet b) (of_nat ?N) (bl_commit b) [0, 1] [] (bl_device b) = (q, d1)"
    by (rule prod.exhaust)
  have sh: "shard_inv g (bl_sealer b) (bl_applet b) (of_nat ?N) (shard_body ?N hist ?N) (bl_commit b) ?c"
    using inv cm by (auto simp: blob_inv_def)
  have t: "valid d1 \<and> content d1 = ?c \<and>
    ((\<exists>xs. q = Ok xs \<and> set xs = blob_gens g b ?c ?N \<and> sorted_wrt (>) (newest_first xs) \<and> set (newest_first xs) = set xs) \<or>
     \<not> reads \<and> (\<exists>e. q = Err e))"
    using candidate_loop_truth [OF d _ sh _ q] fit cm by (auto simp: shard_body_def blob_gens_def)
  show ?thesis
  proof (cases q)
    case (Err e)
    with t run q show ?thesis by (auto simp: sealed_oath_load_def blob_load_def quiet_def)
  next
    case (Ok xs)
    with t have xs: "set xs = blob_gens g b ?c ?N" "sorted_wrt (>) (newest_first xs)" "set (newest_first xs) = set xs" by auto
    let ?b = "b\<lparr>bl_device := d1\<rparr>"
    obtain q2 b2 where q2: "try_candidates g ops STATE_BYTES (newest_first xs) ?b = (q2, b2)" by (rule prod.exhaust)
    have nw: "xs \<noteq> [] \<Longrightarrow> find (blob_whole g b ?c) (newest_first xs) = (if blob_whole g b ?c (Max (set xs)) then Some (Max (set xs)) else None)"
      using newest_whole [OF inv xs(2)] xs by fastforce
    have qb: "quiet b ?b" using t by (auto simp: quiet_def)
    have t2: "quiet ?b b2 \<and> (q2 = (case find (blob_whole g b ?c) (newest_first xs) of Some x \<Rightarrow> Ok (Some (hist x)) | None \<Rightarrow> Err StorageError) \<or>
        \<not> reads \<and> (\<exists>e. q2 = Err e))"
      using try_candidates_truth [where n = n and hist = hist, OF _ _ _ _ q2] fit inv t xs by simp
    have empty: "blob_gens g b ?c ?N = {} \<longleftrightarrow> xs = []" using xs(1) by auto
    show ?thesis
    proof (cases "xs = []")
      case True
      then show ?thesis using run q Ok qb empty by (auto simp: sealed_oath_load_def blob_load_def blob_data_def simp del: candidate_loop.simps)
    next
      case False
      then have "sealed_oath_load g ops STATE_BYTES b =
          (case (q2, b2) of (Ok None, self) \<Rightarrow> (Some [], self) | (Ok (Some data), self) \<Rightarrow> (Some data, self) | (Err _, self) \<Rightarrow> (None, self))"
        using q Ok q2 by (simp add: sealed_oath_load_def blob_load_def del: candidate_loop.simps)
      with False run t2 quiet_trans [OF qb] nw empty show ?thesis
        by (auto simp: blob_data_def Let_def xs(1) split: if_splits)
    qed
  qed
qed

lemma data_gen_loop_truth:
  assumes fit: "\<forall>j \<le> bl_shards b. slots_fit (shards_of b ! j) dsize" and inv: "blob_inv g n hist b (content d)"
    and i: "i \<le> bl_shards b" and d: "valid d"
    and run: "data_gen_loop g ops (bl_sealer b) (bl_applet b) (drop i (bl_data b)) i d m = (r, d')"
  shows "valid d' \<and> content d' = content d \<and>
    ((\<exists>x. r = Ok x \<and> tops m (\<Union>j \<in> {i..<bl_shards b}. blob_gens g b (content d) j) x) \<or> \<not> reads \<and> (\<exists>e. r = Err e))"
  using inv i d run
proof (induction "bl_shards b - i" arbitrary: i d m)
  case 0
  then show ?case by (auto simp: tops_def)
next
  case (Suc k)
  let ?N = "bl_shards b"
  have i: "i < ?N" using Suc.hyps(2) by simp
  have st: "bl_data b ! i = shards_of b ! i" using i by (simp add: shards_of_def nth_append)
  have dr: "drop i (bl_data b) = shards_of b ! i # drop (Suc i) (bl_data b)" using Cons_nth_drop_Suc [of i "bl_data b"] i st by simp
  obtain q d1 where q: "gen_loop ops (blob_gen g (bl_sealer b) (bl_applet b) (of_nat i)) (shards_of b ! i) [0, 1] d m = (q, d1)"
    by (rule prod.exhaust)
  have sh: "shard_inv g (bl_sealer b) (bl_applet b) (of_nat i) (shard_body ?N hist i) (shards_of b ! i) (content d)"
    using Suc.prems(1) i by (simp add: blob_inv_def)
  have t: "valid d1 \<and> content d1 = content d \<and> ((\<exists>x. q = Ok x \<and> tops m (blob_gens g b (content d) i) x) \<or> \<not> reads \<and> (\<exists>e. q = Err e))"
    unfolding blob_gens_def using fit i by (intro gen_loop_truth [OF Suc.prems(3) _ sh _ q]) (auto simp: blob_gen_def)
  show ?case
  proof (cases q)
    case (Err e)
    with t Suc.prems(4) q dr show ?thesis by (auto simp del: gen_loop.simps)
  next
    case (Ok x)
    then have run1: "data_gen_loop g ops (bl_sealer b) (bl_applet b) (drop (Suc i) (bl_data b)) (Suc i) d1 x = (r, d')"
      using Suc.prems(4) q dr by (simp del: gen_loop.simps)
    from t Ok have d1: "valid d1" "content d1 = content d" and x: "tops m (blob_gens g b (content d) i) x" by auto
    have "{i..<?N} = insert i {Suc i..<?N}" using i by auto
    then have un: "(\<Union>j \<in> {i..<?N}. blob_gens g b (content d) j) = blob_gens g b (content d) i \<union> (\<Union>j \<in> {Suc i..<?N}. blob_gens g b (content d) j)"
      by auto
    have "valid d' \<and> content d' = content d \<and>
      ((\<exists>z. r = Ok z \<and> tops x (\<Union>j \<in> {Suc i..<?N}. blob_gens g b (content d) j) z) \<or> \<not> reads \<and> (\<exists>e. r = Err e))"
      using Suc.hyps(2) i by (intro Suc.hyps(1) [OF _ _ _ d1(1) run1, unfolded d1(2), OF _ Suc.prems(1)]) auto
    with tops_trans [OF x] show ?thesis unfolding un by blast
  qed
qed

lemma blob_fresh_gen_truth:
  assumes fit: "\<forall>j \<le> bl_shards b. slots_fit (shards_of b ! j) dsize" and inv: "blob_inv g (Suc n) hist b (content (bl_device b))"
    and d: "valid (bl_device b)" and run: "blob_fresh_gen g ops b = (r, b')"
  shows "quiet b b' \<and> ((\<exists>x. r = Ok x \<and> unat x + n < 2 ^ 64 \<and>
      (\<forall>j \<le> bl_shards b. \<forall>y \<in> blob_gens g b (content (bl_device b)) j. y < x)) \<or> \<not> reads \<and> (\<exists>e. r = Err e))"
proof -
  let ?N = "bl_shards b" and ?c = "content (bl_device b)"
  have cm: "shards_of b ! ?N = bl_commit b" by (simp add: shards_of_def)
  obtain q d1 where q: "data_gen_loop g ops (bl_sealer b) (bl_applet b) (bl_data b) 0 (bl_device b) 0 = (q, d1)" by (rule prod.exhaust)
  note t = data_gen_loop_truth [OF fit inv _ d, of 0 0 q d1, simplified, OF q]
  show ?thesis
  proof (cases q)
    case (Err e)
    with t run q show ?thesis by (auto simp: blob_fresh_gen_def quiet_def)
  next
    case (Ok x)
    have sh: "shard_inv g (bl_sealer b) (bl_applet b) (of_nat ?N) (shard_body ?N hist ?N) (bl_commit b) (content d1)"
      using inv cm t by (auto simp: blob_inv_def)
    obtain q2 d2 where q2: "gen_loop ops (commit_gen g (bl_sealer b) (bl_applet b) (of_nat ?N)) (bl_commit b) [0, 1] d1 x = (q2, d2)"
      by (rule prod.exhaust)
    from t have d1: "valid d1" "content d1 = ?c" by auto
    have t2: "valid d2 \<and> content d2 = ?c \<and> ((\<exists>z. q2 = Ok z \<and> tops x (blob_gens g b ?c ?N) z) \<or> \<not> reads \<and> (\<exists>e. q2 = Err e))"
      unfolding blob_gens_def cm using fit cm
      by (intro gen_loop_truth [OF d1(1) _ sh _ q2, unfolded d1(2)]) (auto simp: commit_gen_def shard_body_def)
    have all: "(\<Union>j \<in> {0..<?N}. blob_gens g b ?c j) \<union> blob_gens g b ?c ?N = (\<Union>j \<in> {..?N}. blob_gens g b ?c j)"
      by (auto simp: le_less)
    have "unat (z + 1) + n < 2 ^ 64 \<and> (\<forall>j \<le> ?N. \<forall>y \<in> blob_gens g b ?c j. y < z + 1)" if "q2 = Ok z" for z
    proof -
      have "tops 0 (\<Union>j \<in> {0..<?N}. blob_gens g b ?c j) x" "tops x (blob_gens g b ?c ?N) z" using t t2 Ok that by auto
      then have z: "tops 0 (\<Union>j \<in> {..?N}. blob_gens g b ?c j) z" unfolding all [symmetric] by (rule tops_trans)
      then have n: "unat z + Suc n < 2 ^ 64" using inv by (auto simp: tops_def blob_inv_def room_def)
      then have "unat (z + 1) = unat z + 1" by (simp add: unat_word_ariths)
      with n z show ?thesis by (auto simp: tops_def word_less_nat_alt word_le_nat_alt less_Suc_eq_le)
    qed
    with t2 Ok run q q2 show ?thesis by (auto simp: blob_fresh_gen_def quiet_def simp del: gen_loop.simps)
  qed
qed

end

section \<open>The effect of a save\<close>

lemma shard_inv_cong:
  assumes "\<forall>x \<in> gens g key app shard st c. body x = body' x" and "shard_inv g key app shard body st c"
  shows "shard_inv g key app shard body' st c"
  using assms unfolding shard_inv_def gens_def by fastforce

lemma kept_newest:
  assumes "kept fresh C C'" and "finite C" and "\<forall>x \<in> C. x < fresh" and "fresh \<notin> C'"
  shows "C' = {} \<longleftrightarrow> C = {}" and "C \<noteq> {} \<Longrightarrow> Max C' = Max C" and "C' \<subseteq> C"
proof -
  show sub: "C' \<subseteq> C" and emp: "C' = {} \<longleftrightarrow> C = {}" using assms(1,4) by (auto simp: kept_def)
  show "Max C' = Max C" if ne: "C \<noteq> {}"
  proof (rule Max_eqI)
    show "finite C'" using sub assms(2) by (rule finite_subset)
    show "y \<le> Max C" if "y \<in> C'" for y using sub that assms(2) by auto
    obtain x where x: "x \<in> C'" using emp ne by auto
    then have "x \<le> Max C" "x \<noteq> fresh" using sub assms(2,4) by auto
    with x show "Max C \<in> C'" using assms(1,2) ne by (cases "x = Max C") (auto simp: kept_def)
  qed
qed

lemma save_effect:
  assumes inv: "blob_inv g (Suc n) hist b c" and fresh: "\<forall>i \<le> bl_shards b. \<forall>y \<in> blob_gens g b c i. y < fresh"
    and len: "length data \<le> min STATE_BYTES (bl_shards b * SHARD_BODY_MAX)" and h: "hist' = hist(fresh := data)"
    and st: "\<forall>i \<le> bl_shards b. stored g (bl_sealer b) (bl_applet b) (of_nat i) (shard_body (bl_shards b) hist' i) n fresh (shards_of b ! i) c c'"
    and commit: "fresh \<in> blob_gens g b c' (bl_shards b) \<longrightarrow> blob_whole g b c' fresh"
  shows "blob_inv g n hist' b c'" and "fresh \<in> blob_gens g b c' (bl_shards b) \<Longrightarrow> blob_data g hist' b c' = Some data"
    and "blob_data g hist' b c' \<in> {blob_data g hist b c, Some data, None}"
proof -
  let ?N = "bl_shards b" and ?G = "blob_gens g b c" and ?G' = "blob_gens g b c'"
  have kept: "kept fresh (?G i) (?G' i)" if "i \<le> ?N" for i using st that by (auto simp: stored_def blob_gens_def)
  have sub: "x = fresh \<or> x \<in> ?G i" if "i \<le> ?N" "x \<in> ?G' i" for i x using kept [OF that(1)] that(2) by (auto simp: kept_def)
  have order: "y \<in> ?G' i" if "i < ?N" "x \<in> ?G' i" "y \<in> ?G' ?N" "x < y" for i x y
  proof (cases "y = fresh")
    case True
    then show ?thesis using commit that by (auto simp: blob_whole_def)
  next
    case False
    then have y: "y \<in> ?G ?N" using sub that(3) by blast
    then have "x \<noteq> fresh" using fresh that(4) by (meson order.refl order.asym)
    with sub that(1,2) have x: "x \<in> ?G i" by (meson less_imp_le)
    with y inv that(1,4) have "y \<in> ?G i" by (auto simp: blob_inv_def)
    with kept [of i] that x \<open>x \<noteq> fresh\<close> show ?thesis by (auto simp: kept_def)
  qed
  moreover have "length (hist' y) \<le> min STATE_BYTES (?N * SHARD_BODY_MAX)" if "y \<in> ?G' ?N" for y
    using sub [of ?N y] that len inv by (auto simp: h blob_inv_def)
  ultimately show "blob_inv g n hist' b c'" using st by (auto simp: blob_inv_def stored_def blob_gens_def)
  have fin: "finite (?G' i)" for i by (simp add: blob_gens_def)
  have max: "Max (?G' ?N) = fresh" if "fresh \<in> ?G' ?N"
    using that sub [of ?N] fresh by (intro Max_eqI fin) (auto intro: less_imp_le)
  show *: "blob_data g hist' b c' = Some data" if "fresh \<in> ?G' ?N"
    using that commit max by (auto simp: blob_data_def h Let_def)
  show "blob_data g hist' b c' \<in> {blob_data g hist b c, Some data, None}"
  proof (cases "fresh \<in> ?G' ?N")
    case True
    with * show ?thesis by simp
  next
    case False
    note kn = kept_newest [OF kept [OF order.refl] _ _ False]
    have fc: "finite (?G ?N)" "\<forall>x \<in> ?G ?N. x < fresh" using fresh by (auto simp: blob_gens_def)
    have whole: "blob_whole g b c (Max (?G ?N))" if "?G ?N \<noteq> {}" "blob_whole g b c' (Max (?G ?N))"
    proof -
      have "Max (?G ?N) \<noteq> fresh" using fc that(1) Max_in by blast
      then show ?thesis using that(2) sub by (auto simp: blob_whole_def dest: less_imp_le)
    qed
    have "?G ?N \<noteq> {} \<Longrightarrow> Max (?G ?N) < fresh" using fc(2) Max_in [OF fc(1)] by (rule bspec)
    then have "?G ?N \<noteq> {} \<Longrightarrow> hist' (Max (?G ?N)) = hist (Max (?G ?N))" unfolding h by (metis fun_upd_other less_irrefl)
    with kn [OF fc] whole show ?thesis by (auto simp: blob_data_def Let_def)
  qed
qed

lemma blob_inv_mono: "blob_inv g n hist b c \<Longrightarrow> m \<le> n \<Longrightarrow> blob_inv g m hist b c"
  unfolding blob_inv_def using room_mono by blast

text \<open>Data under a fresh generation does not change what the shards hold.\<close>

lemma fresh_history:
  assumes inv: "blob_inv g n hist b c" and fresh: "\<forall>i \<le> bl_shards b. \<forall>y \<in> blob_gens g b c i. y < gen"
    and h: "hist' = hist(gen := data)" and j: "j \<le> bl_shards b"
  shows "shard_inv g (bl_sealer b) (bl_applet b) (of_nat j) (shard_body (bl_shards b) hist' j) (shards_of b ! j) c \<and>
    room n (gens g (bl_sealer b) (bl_applet b) (of_nat j) (shards_of b ! j) c) (seqs (shards_of b ! j) c) \<and>
    (\<forall>x \<in> gens g (bl_sealer b) (bl_applet b) (of_nat j) (shards_of b ! j) c. x < gen)"
proof -
  have lt: "\<forall>x \<in> gens g (bl_sealer b) (bl_applet b) (of_nat j) (shards_of b ! j) c. x < gen" using fresh j by (simp add: blob_gens_def)
  then have "\<forall>x \<in> gens g (bl_sealer b) (bl_applet b) (of_nat j) (shards_of b ! j) c.
      shard_body (bl_shards b) hist j x = shard_body (bl_shards b) hist' j x"
    by (auto simp: h shard_body_def)
  with shard_inv_cong inv j lt show ?thesis unfolding blob_inv_def blob_gens_def by blast
qed

context torn_storage
begin

lemma blob_save_law:
  assumes lay: "layout dsize usable b" and aead: "aead_ok g (bl_sealer b)" and inv: "blob_inv g (Suc n) hist b (content (bl_device b))"
    and d: "valid (bl_device b)" and len: "length data \<le> STATE_BYTES" and run: "blob_save g ops b data = (r, b')"
  obtains hist' d' where "b' = b\<lparr>bl_device := d'\<rparr>" and "valid d'" and "blob_inv g n hist' b (content d')"
    and "r = Ok () \<Longrightarrow> blob_data g hist' b (content d') = Some data"
    and "blob_data g hist' b (content d') \<in> {blob_data g hist b (content (bl_device b)), Some data, None}"
proof -
  let ?N = "bl_shards b" and ?c = "content (bl_device b)" and ?app = "bl_applet b" and ?key = "bl_sealer b"
  have fit: "\<forall>j \<le> ?N. slots_fit (shards_of b ! j) dsize" using lay by (simp add: layout_def)
  have cm: "shards_of b ! ?N = bl_commit b" by (simp add: shards_of_def)
  obtain q b1 where q: "blob_fresh_gen g ops b = (q, b1)" by (rule prod.exhaust)
  note t = blob_fresh_gen_truth [OF fit inv d q]
  then obtain d1 where b1: "b1 = b\<lparr>bl_device := d1\<rparr>" "valid d1" "content d1 = ?c" by (auto simp: quiet_def)
  have inv': "blob_inv g n hist b ?c" using inv by (rule blob_inv_mono) simp
  show thesis
  proof (cases "?N * SHARD_BODY_MAX < length data \<or> (\<exists>e. q = Err e)")
    case True
    then have "b' = b \<and> r \<noteq> Ok () \<or> b' = b1 \<and> r \<noteq> Ok ()" using run q by (auto simp: blob_save_def split: if_splits)
    with b1 inv' d show thesis using that [of "bl_device b" hist] that [of d1 hist] by auto
  next
    case False
    then obtain gen where gen: "q = Ok gen" by (cases q) auto
    with t have fresh: "unat gen + n < 2 ^ 64" "\<forall>j \<le> ?N. \<forall>y \<in> blob_gens g b ?c j. y < gen" by auto
    define hist' where "hist' = hist(gen := data)"
    note inv1 = fresh_history [OF inv fresh(2) hist'_def]
    have inv2: "\<forall>j < ?N. shard_inv g ?key ?app (of_nat j) (shard_body ?N hist' j) (shards_of b ! j) ?c \<and>
      room (Suc n) (gens g ?key ?app (of_nat j) (shards_of b ! j) ?c) (seqs (shards_of b ! j) ?c) \<and>
      (\<forall>x \<in> gens g ?key ?app (of_nat j) (shards_of b ! j) ?c. x < gen)" using inv1 less_imp_le by blast
    obtain q2 d2 where q2: "save_loop g ops ?key ?app gen data (bl_data b) 0 d1 = (q2, d2)" by (rule prod.exhaust)
    have t2: "valid d2 \<and> same_slots (bl_commit b) ?c (content d2) \<and>
      (\<forall>j < ?N. stored g ?key ?app (of_nat j) (shard_body ?N hist' j) n gen (shards_of b ! j) ?c (content d2) \<and>
         (q2 = Ok () \<longrightarrow> gen \<in> gens g ?key ?app (of_nat j) (shards_of b ! j) (content d2)))"
      using inv2 b1 q2
      by (intro save_loop_torn [OF lay aead refl _ fresh(1), of _ hist' ?c data 0 d1]) (auto simp: hist'_def same_slots_def)
    have len': "length data \<le> min STATE_BYTES (?N * SHARD_BODY_MAX)" using len False by simp
    note effect = save_effect [OF inv fresh(2) len' hist'_def]
    show thesis
    proof (cases q2)
      case (Err e)
      then have r: "b' = b\<lparr>bl_device := d2\<rparr>" "r \<noteq> Ok ()" using run q q2 gen b1(1) False by (auto simp: blob_save_def)
      have sm: "same_slots (shards_of b ! ?N) ?c (content d2)" using t2 cm by simp
      then have "stored g ?key ?app (of_nat ?N) (shard_body ?N hist' ?N) n gen (shards_of b ! ?N) ?c (content d2)"
        using stored_same inv1 by blast
      then have st: "\<forall>i \<le> ?N. stored g ?key ?app (of_nat i) (shard_body ?N hist' i) n gen (shards_of b ! i) ?c (content d2)"
        using t2 by (auto simp: le_less)
      have "gen \<notin> blob_gens g b (content d2) ?N" using fresh(2) same_slots_eqs(3) [OF sm] by (auto simp: blob_gens_def)
      with effect [OF st] r t2 show thesis using that by blast
    next
      case (Ok u)
      obtain q3 d3 where q3: "store_shard g ops ?key ?app (of_nat ?N) gen (shards_of b ! ?N) (shard_body ?N hist' ?N gen) d2 = (q3, d3)"
        by (rule prod.exhaust)
      then have r: "b' = b\<lparr>bl_device := d3\<rparr>" "r = q3" using run q q2 gen b1(1) False Ok cm by (auto simp: blob_save_def shard_body_def hist'_def)
      have t3: "valid d3 \<and> stored g ?key ?app (of_nat ?N) (shard_body ?N hist' ?N) n gen (shards_of b ! ?N) ?c (content d3) \<and>
        (\<forall>j \<le> ?N. j \<noteq> ?N \<longrightarrow> same_slots (shards_of b ! j) (content d2) (content d3)) \<and>
        (q3 = Ok () \<longrightarrow> gen \<in> gens g ?key ?app (of_nat ?N) (shards_of b ! ?N) (content d3))"
        using inv1 [of ?N] t2 cm by (intro store_ith [OF lay _ _ _ aead _ _ _ fresh(1) q3]) auto
      then have st: "\<forall>i \<le> ?N. stored g ?key ?app (of_nat i) (shard_body ?N hist' i) n gen (shards_of b ! i) ?c (content d3)"
        using t2 stored_cong by (metis le_less nat_neq_iff)
      have "gen \<in> blob_gens g b (content d3) i" if "i < ?N" for i
        using t2 t3 same_slots_eqs(3) [of "shards_of b ! i" "content d2" "content d3"] Ok that by (auto simp: blob_gens_def)
      then have "blob_whole g b (content d3) gen" by (simp add: blob_whole_def)
      with effect [OF st] r t3 show thesis using that unfolding blob_gens_def by blast
    qed
  qed
qed

end

section \<open>The sealed store of the OATH applet\<close>

text \<open>A sealed blob that has room for \<open>n\<close> more saves, and what it holds: what a load from the bytes of the flash gives.\<close>

definition sealed_oath_inv ::
    "('d \<Rightarrow> bool) \<Rightarrow> ('d \<Rightarrow> bytes) \<Rightarrow> nat \<Rightarrow> (SlotStore \<Rightarrow> bool) \<Rightarrow> Aead \<Rightarrow> nat \<Rightarrow> 'd SealedBlob \<Rightarrow> bool" where
  "sealed_oath_inv valid content dsize usable g n b \<longleftrightarrow> valid (bl_device b) \<and> layout dsize usable b \<and> aead_ok g (bl_sealer b) \<and>
     (\<exists>hist. blob_inv g n hist b (content (bl_device b)))"

definition sealed_oath_holds :: "('d \<Rightarrow> bytes) \<Rightarrow> Aead \<Rightarrow> 'd SealedBlob \<Rightarrow> bytes option" where
  "sealed_oath_holds content g b = fst (sealed_oath_load g ram_ops STATE_BYTES (ram_blob content b))"

lemma ram_blob_same [simp]:
  "bl_data (ram_blob content b) = bl_data b" "bl_device (ram_blob content b) = on_ram (content (bl_device b))"
  "shards_of (ram_blob content b) = shards_of b" "blob_gens g (ram_blob content b) c = blob_gens g b c"
  "blob_inv g n hist (ram_blob content b) c = blob_inv g n hist b c" "blob_data g hist (ram_blob content b) c = blob_data g hist b c"
  by (simp_all add: ram_blob_def shards_of_def blob_gens_def [abs_def] blob_inv_def blob_whole_def [abs_def] blob_data_def Let_def)

context storage_device
begin

lemma device_reads: "reads"
  unfolding reads_def
proof (intro allI impI)
  fix d st and i :: u32
  let ?z = "replicate MAX_PAYLOAD_BYTES 0 :: bytes"
  assume a: "valid d" "slots_fit st dsize" "i = 0 \<or> i = 1"
  obtain q e out where l: "load_slot ops st d i ?z = (q, e, out)" by (rule prod_cases3)
  then have "read_slot ops st d i ?z = (q, e, out)" using a(3) by (auto simp: load_slot_def word_le_nat_alt)
  with read_slot_ok [OF a, of ?z] l show "is_ok (fst (slot_blob ops st d i))"
    by (auto simp: slot_blob_def split: option.splits)
qed

end

context torn_storage
begin

lemma holds_data:
  assumes "sealed_oath_inv valid content dsize usable g n b" and "blob_inv g m hist b (content (bl_device b))"
  shows "sealed_oath_holds content g b = blob_data g hist b (content (bl_device b))"
proof -
  obtain r b' where r: "sealed_oath_load g ram_ops STATE_BYTES (ram_blob content b) = (r, b')" by (rule prod.exhaust)
  have "length (content (bl_device b)) = dsize" and "\<forall>j \<le> bl_shards b. slots_fit (shards_of b ! j) dsize"
    using assms(1) content_size by (auto simp: sealed_oath_inv_def layout_def)
  with ram.blob_load_truth [OF _ _ _ r, of dsize m hist] ram.device_reads [of dsize] assms(2) r show ?thesis
    by (simp add: sealed_oath_holds_def)
qed

text \<open>The sealed blob is a store: its saves are atomic and its loads give what the last save left.\<close>

lemma sealed_load_law:
  assumes "sealed_oath_inv valid content dsize usable g n b" and "sealed_oath_load g ops STATE_BYTES b = (r, b')"
  shows "sealed_oath_inv valid content dsize usable g n b' \<and> sealed_oath_holds content g b' = sealed_oath_holds content g b \<and>
    (r = sealed_oath_holds content g b \<or> \<not> reads \<and> r = None)"
proof -
  obtain hist where h: "blob_inv g n hist b (content (bl_device b))" using assms(1) by (auto simp: sealed_oath_inv_def)
  have fit: "\<forall>j \<le> bl_shards b. slots_fit (shards_of b ! j) dsize" and v: "valid (bl_device b)"
    using assms(1) by (auto simp: sealed_oath_inv_def layout_def)
  note t = blob_load_truth [OF fit h v assms(2)]
  then obtain d' where d': "b' = b\<lparr>bl_device := d'\<rparr>" "valid d'" "content d' = content (bl_device b)" by (auto simp: quiet_def)
  then have "ram_blob content b' = ram_blob content b" by (simp add: ram_blob_def)
  moreover have "sealed_oath_inv valid content dsize usable g n b'" using assms(1) d' by (auto simp: sealed_oath_inv_def layout_def)
  ultimately show ?thesis using t holds_data [OF assms(1) h] by (simp add: sealed_oath_holds_def)
qed

lemma sealed_save_law:
  assumes "sealed_oath_inv valid content dsize usable g (Suc n) b" and "length data \<le> STATE_BYTES" and "blob_save g ops b data = (r, b')"
  shows "sealed_oath_inv valid content dsize usable g n b' \<and>
    (if is_ok r then sealed_oath_holds content g b' = Some data
     else sealed_oath_holds content g b' \<in> {sealed_oath_holds content g b, Some data, None})"
proof -
  obtain hist where h: "blob_inv g (Suc n) hist b (content (bl_device b))" and lay: "layout dsize usable b"
    and aead: "aead_ok g (bl_sealer b)" and v: "valid (bl_device b)" using assms(1) by (auto simp: sealed_oath_inv_def)
  show ?thesis
  proof (rule blob_save_law [OF lay aead h v assms(2,3)])
    fix hist' d'
    assume a: "b' = b\<lparr>bl_device := d'\<rparr>" "valid d'" "blob_inv g n hist' b (content d')"
      "r = Ok () \<Longrightarrow> blob_data g hist' b (content d') = Some data"
      "blob_data g hist' b (content d') \<in> {blob_data g hist b (content (bl_device b)), Some data, None}"
    then have i: "sealed_oath_inv valid content dsize usable g n b'" using lay aead by (auto simp: sealed_oath_inv_def layout_def)
    have "sealed_oath_holds content g b' = blob_data g hist' b (content d')" using holds_data [OF i, of n hist'] a(1,3) by simp
    with i a(4,5) holds_data [OF assms(1) h] show ?thesis by (cases r) auto
  qed
qed

lemma sealed_oath_store:
  "oath_store (sealed_oath_ops g ops) (sealed_oath_inv valid content dsize usable g) (sealed_oath_holds content g)"
proof
  show "sealed_oath_inv valid content dsize usable g m b" if "sealed_oath_inv valid content dsize usable g n b" "m \<le> n" for n m b
    using that blob_inv_mono unfolding sealed_oath_inv_def by blast
  show "sealed_oath_inv valid content dsize usable g n b' \<and> sealed_oath_holds content g b' = sealed_oath_holds content g b \<and>
      (r = None \<or> r = sealed_oath_holds content g b)"
    if "sealed_oath_inv valid content dsize usable g n b" "ost_load (sealed_oath_ops g ops) STATE_BYTES b = (r, b')" for n b r b'
    using sealed_load_law [OF that(1)] that(2) by (auto simp: sealed_oath_ops_def)
  show "sealed_oath_inv valid content dsize usable g n b' \<and> (if k then sealed_oath_holds content g b' = Some data
      else sealed_oath_holds content g b' \<in> {sealed_oath_holds content g b, Some data, None})"
    if "sealed_oath_inv valid content dsize usable g (Suc n) b" "length data \<le> STATE_BYTES"
      "ost_save (sealed_oath_ops g ops) b data = (k, b')" for n b data k b'
    using sealed_save_law [OF that(1,2)] that(3) by (auto simp: sealed_oath_ops_def sealed_save_def split: prod.splits)
  show "sealed_oath_inv valid content dsize usable g n b' \<and> (if k then sealed_oath_holds content g b' = Some []
      else sealed_oath_holds content g b' \<in> {sealed_oath_holds content g b, Some [], None})"
    if "sealed_oath_inv valid content dsize usable g (Suc n) b" "ost_clear (sealed_oath_ops g ops) b = (k, b')" for n b k b'
    using sealed_save_law [OF that(1), of "[]"] that(2) by (auto simp: sealed_oath_ops_def sealed_clear_blob_def split: prod.splits)
qed

end

interpretation sealed_oath: oath_store "sealed_oath_ops g ram_ops"
  "sealed_oath_inv (\<lambda>d. length (ram_data d) = dsize) ram_data dsize (\<lambda>st. True \<and> True) g" "sealed_oath_holds ram_data g" for g dsize
  by (rule ram.working.sealed_oath_store)

text \<open>The contract also holds on a flash that refuses every write.\<close>

interpretation dead_flash: torn_storage dead_ops "\<lambda>d. length (ram_data d) = 8192" ram_data 8192 "\<lambda>st. True"
proof (rule torn_storage.intro [OF dead_storage], unfold_locales)
  fix d st p sq e d'
  show "slot_at st (ram_data d') (inactive_slot st (ram_data d)) = Some (next_seq st (ram_data d), p)"
    if "slot_store dead_ops st d p = (Ok sq, d')"
    using that by (auto simp: slot_store_def dead_ops_def Let_def split: prod.splits result.splits if_splits option.splits)
  show "slot_at st (ram_data d') (inactive_slot st (ram_data d)) \<in>
      {None, slot_at st (ram_data d) (inactive_slot st (ram_data d)), Some (next_seq st (ram_data d), p)}"
    if "slot_store dead_ops st d p = (Err e, d')"
    using dead_store [OF that] by simp
qed

section \<open>Properties\<close>

text \<open>On a working device a save succeeds.\<close>

context storage_device
begin

lemma torn_device:
  "torn_storage ops valid content dsize (\<lambda>st. erasable (slot_offset st 0) (ss_slot_size st) \<and> erasable (slot_offset st 1) (ss_slot_size st))"
  by (rule working.torn_storage_axioms)

lemma store_shard_works:
  assumes "valid d" and "slots_fit st dsize" and "erasable (slot_offset st 0) (ss_slot_size st)" and "erasable (slot_offset st 1) (ss_slot_size st)"
    and "aead_ok g key" and "length body \<le> SHARD_BODY_MAX"
  shows "\<exists>d'. store_shard g ops key app shard gen st body d = (Ok (), d') \<and> valid d'"
proof -
  obtain blob where blob: "seal_shard g key app shard gen body = Ok blob" "length blob \<le> MAX_PAYLOAD_BYTES"
    using seal_open_shard [OF assms(5,6)] by blast
  with slot_store_ok [OF assms(1,2) blob(2) assms(3,4)] show ?thesis by (auto simp: store_shard_def)
qed

lemma save_loop_works:
  assumes "aead_ok g key"
    and "\<forall>st \<in> set sts. slots_fit st dsize \<and> erasable (slot_offset st 0) (ss_slot_size st) \<and> erasable (slot_offset st 1) (ss_slot_size st)"
    and "valid d"
  shows "\<exists>d'. save_loop g ops key app gen data sts i d = (Ok (), d') \<and> valid d'"
  using assms(2,3)
proof (induction sts arbitrary: i d)
  case (Cons st sts)
  obtain d1 where "store_shard g ops key app (of_nat i) gen st (chunk i data) d = (Ok (), d1)" "valid d1"
    using store_shard_works [OF Cons.prems(2) _ _ _ assms(1) length_chunk] Cons.prems(1) by fastforce
  with Cons.IH [of d1 "Suc i"] Cons.prems(1) show ?case by auto
qed simp

lemma sealed_save_works:
  assumes inv: "sealed_oath_inv valid content dsize
      (\<lambda>st. erasable (slot_offset st 0) (ss_slot_size st) \<and> erasable (slot_offset st 1) (ss_slot_size st)) g (Suc n) b"
    and len: "length data \<le> bl_shards b * SHARD_BODY_MAX"
  shows "\<exists>b'. sealed_save g ops b data = (True, b')"
proof -
  obtain hist where h: "blob_inv g (Suc n) hist b (content (bl_device b))" and aead: "aead_ok g (bl_sealer b)"
    and v: "valid (bl_device b)" and lay: "\<forall>i \<le> bl_shards b. slots_fit (shards_of b ! i) dsize \<and>
      erasable (slot_offset (shards_of b ! i) 0) (ss_slot_size (shards_of b ! i)) \<and>
      erasable (slot_offset (shards_of b ! i) 1) (ss_slot_size (shards_of b ! i))"
    using inv by (auto simp: sealed_oath_inv_def layout_def)
  obtain q b1 where q: "blob_fresh_gen g ops b = (q, b1)" by (rule prod.exhaust)
  then obtain gen d1 where b1: "q = Ok gen" "b1 = b\<lparr>bl_device := d1\<rparr>" "valid d1"
    using blob_fresh_gen_truth [OF _ h v q] lay device_reads by (auto simp: quiet_def)
  have "set (shards_of b) = {shards_of b ! i |i. i \<le> bl_shards b}" by (auto simp: set_conv_nth shards_of_def less_Suc_eq_le)
  then have all: "\<forall>st \<in> set (shards_of b). slots_fit st dsize \<and> erasable (slot_offset st 0) (ss_slot_size st) \<and>
    erasable (slot_offset st 1) (ss_slot_size st)" using lay by auto
  obtain d2 where d2: "save_loop g ops (bl_sealer b) (bl_applet b) gen data (bl_data b) 0 d1 = (Ok (), d2)" "valid d2"
    using save_loop_works [OF aead _ b1(3)] all by (fastforce simp: shards_of_def)
  have "\<exists>d3. store_shard g ops (bl_sealer b) (bl_applet b) (of_nat (bl_shards b)) gen (bl_commit b)
      (le_bytes 4 (of_nat (length data) :: u32)) d2 = (Ok (), d3) \<and> valid d3"
    using all by (intro store_shard_works [OF d2(2) _ _ _ aead]) (auto simp: shards_of_def)
  with q b1 d2 len show ?thesis by (auto simp: sealed_save_def blob_save_def)
qed

end

text \<open>C36: the sealed blob is atomic and durable over a failing flash: whatever the device did to a save, the next load gives the new
  data, or, when the save reported failure, the old data, or refuses. It never gives a mix of the two or anything older, and a save that
  reported success is never followed by the old data.\<close>

theorem sealed_blob_atomic:
  assumes "torn_storage ops valid content dsize usable" and "sealed_oath_inv valid content dsize usable g (Suc n) b"
    and "sealed_oath_load g ops STATE_BYTES b = (Some old, b0)" and "length data \<le> STATE_BYTES"
    and "sealed_save g ops b0 data = (ok, b1)" and "sealed_oath_load g ops STATE_BYTES b1 = (r, b2)"
  shows "sealed_oath_inv valid content dsize usable g n b2 \<and> (r = Some data \<or> \<not> ok \<and> r = Some old \<or> r = None)"
proof -
  note l0 = torn_storage.sealed_load_law [OF assms(1-3)]
  obtain q where q: "blob_save g ops b0 data = (q, b1)" "ok = is_ok q" using assms(5) by (auto simp: sealed_save_def split: prod.splits)
  note s = torn_storage.sealed_save_law [OF assms(1) conjunct1 [OF l0] assms(4) q(1)]
  from torn_storage.sealed_load_law [OF assms(1) conjunct1 [OF s] assms(6)] s l0 q(2) show ?thesis by (auto split: if_splits)
qed

text \<open>On a working flash the OATH applet's blob round trips: a save of up to a full state succeeds and the next load gives it
  back.\<close>

lemma sealed_blob_roundtrip:
  assumes "storage_device ops valid content dsize erasable"
    and "sealed_oath_inv valid content dsize
      (\<lambda>st. erasable (slot_offset st 0) (ss_slot_size st) \<and> erasable (slot_offset st 1) (ss_slot_size st)) g (Suc n) b"
    and "length data \<le> min STATE_BYTES (bl_shards b * SHARD_BODY_MAX)"
  shows "\<exists>b1 b2. sealed_save g ops b data = (True, b1) \<and> sealed_oath_load g ops STATE_BYTES b1 = (Some data, b2)"
proof -
  obtain b1 where b1: "sealed_save g ops b data = (True, b1)" using storage_device.sealed_save_works [OF assms(1,2)] assms(3) by auto
  then obtain q where q: "blob_save g ops b data = (q, b1)" "is_ok q" by (auto simp: sealed_save_def split: prod.splits)
  note t = storage_device.torn_device [OF assms(1)]
  obtain r b2 where r: "sealed_oath_load g ops STATE_BYTES b1 = (r, b2)" by (rule prod.exhaust)
  from torn_storage.sealed_save_law [OF t assms(2) _ q(1)] torn_storage.sealed_load_law [OF t _ r] storage_device.device_reads [OF assms(1)]
    q(2) assms(3) b1 r show ?thesis by auto
qed

definition blank_blob :: "RamStorage SealedBlob" where
  "blank_blob = \<lparr>bl_sealer = replicate 32 1, bl_applet = OATH_APPLET_TAG,
     bl_data = [\<lparr>ss_base = 0, ss_slot_size = 4096\<rparr>, \<lparr>ss_base = 8192, ss_slot_size = 4096\<rparr>],
     bl_commit = \<lparr>ss_base = 16384, ss_slot_size = 4096\<rparr>, bl_device = on_ram (replicate 24576 0xFF)\<rparr>"

lemma upto_two: "(\<forall>i \<le> Suc (Suc 0). P i) \<longleftrightarrow> P 0 \<and> P 1 \<and> P 2"
  by (auto simp: le_Suc_eq numeral_2_eq_2)

lemma blank_shards:
  assumes "i \<le> 2" and "k = 0 \<or> k = 1"
  shows "slot_at (shards_of blank_blob ! i) (replicate 24576 0xFF) k = None"
proof -
  have "slot_bytes st (replicate 24576 0xFF) k = replicate (min (unat (ss_slot_size st)) (24576 - slot_start st k)) 0xFF" for st
    by (simp add: slot_bytes_def min.commute)
  moreover have "replicate m 0xFF \<noteq> SLOT_MAGIC" for m
  proof
    assume "replicate m 0xFF = SLOT_MAGIC"
    moreover from arg_cong [OF this, of length] have "m = 4" by (simp add: SLOT_MAGIC_def)
    ultimately show False using blank_magic by simp
  qed
  ultimately show ?thesis by (simp add: slot_record_def Let_def)
qed

lemma blank_layout: "layout 24576 (\<lambda>st. True \<and> True) blank_blob"
  by (simp add: layout_def blank_blob_def shards_of_def slots_fit_def apart_def upto_two)

lemma blank_blob_inv: "sealed_oath_inv (\<lambda>d. length (ram_data d) = 24576) ram_data 24576 (\<lambda>st. True \<and> True) demo_aead (Suc 100) blank_blob"
proof -
  have "shard_at demo_aead key app sh (shards_of blank_blob ! i) (replicate 24576 0xFF) k = None" if "i \<le> 2" "k = 0 \<or> k = 1" for key app sh i k
    using blank_shards [OF that] by (simp add: shard_at_def)
  then have "blob_inv demo_aead (Suc 100) (\<lambda>_. []) blank_blob (replicate 24576 0xFF)"
    using blank_shards by (auto simp: blob_inv_def shard_inv_def blob_gens_def gens_def seqs_def room_def blank_blob_def)
  moreover have "aead_ok demo_aead (replicate 32 1)" by (simp add: aead_ok_def demo_aead_def)
  ultimately show ?thesis using blank_layout by (auto simp: sealed_oath_inv_def blank_blob_def)
qed

lemma blank_load: "sealed_oath_load demo_aead ram_ops STATE_BYTES blank_blob = (Some [], blank_blob)"
proof -
  have "shards_of blank_blob ! 2 = bl_commit blank_blob" "slots_fit (shards_of blank_blob ! 2) 24576"
    using blank_layout by (auto simp: layout_def shards_of_def blank_blob_def)
  then have "slot_blob ram_ops (bl_commit blank_blob) (on_ram (replicate 24576 0xFF)) i = (Ok None, on_ram (replicate 24576 0xFF))"
    if "i = 0 \<or> i = 1" for i
    using that blank_shards [of 2 "unat i"] ram_slot_blob [of "bl_commit blank_blob" "replicate 24576 0xFF" i] by auto
  moreover have "bl_device blank_blob = on_ram (replicate 24576 0xFF)" "blank_blob\<lparr>bl_device := on_ram (replicate 24576 0xFF)\<rparr> = blank_blob"
    by (simp_all add: blank_blob_def)
  ultimately show ?thesis by (simp add: sealed_oath_load_def blob_load_def)
qed

theorem sealed_blob_atomic_witness:
  "\<exists>ok b1 r b2. sealed_oath_load demo_aead ram_ops STATE_BYTES blank_blob = (Some [], blank_blob) \<and>
     sealed_save demo_aead ram_ops blank_blob [1, 2, 3] = (ok, b1) \<and> sealed_oath_load demo_aead ram_ops STATE_BYTES b1 = (r, b2) \<and>
     (r = Some [1, 2, 3] \<or> \<not> ok \<and> r = Some [] \<or> r = None)"
proof -
  obtain ok b1 where s: "sealed_save demo_aead ram_ops blank_blob [1, 2, 3] = (ok, b1)" by (rule prod.exhaust)
  obtain r b2 where r: "sealed_oath_load demo_aead ram_ops STATE_BYTES b1 = (r, b2)" by (rule prod.exhaust)
  from sealed_blob_atomic [OF ram.torn_device blank_blob_inv blank_load _ s r] blank_load s r show ?thesis by simp
qed

lemma blank_blob_roundtrip:
  "\<exists>b1 b2. sealed_save demo_aead ram_ops blank_blob [1, 2, 3] = (True, b1) \<and> sealed_oath_load demo_aead ram_ops STATE_BYTES b1 = (Some [1, 2, 3], b2)"
  by (rule sealed_blob_roundtrip [OF ram.storage_device_axioms blank_blob_inv]) (simp add: blank_blob_def)

end
