(* ===== verification/Spec2Isabelle.thy ===== *)
theory Spec2Isabelle
  imports Exec_State Lifecycle Recovery Apdu Pin_Slot Tlv Ccid Router Card Ctap_Hid Management_Hid
    Presence Slot_Storage Firmware_Update Cbor Ctap2 Credential_Store Client_Pin Authenticator U2f
    Sealed_Store Fido_Session Oath Sealed_Applets Sealed_Blob
begin

text \<open>
  AegisToken is the firmware of a USB security token: a FIDO authenticator (CTAP2 and U2F over
  HID), a smart card (CCID) with PIV, OpenPGP and OATH applets, a management and update channel,
  and flash storage under all of them. The crates are \<open>aegis-core\<close> (the authenticator, storage,
  update, state machines), \<open>aegis-applets\<close> (the card and its applets), \<open>board-generic-rp2350\<close> and
  \<open>firmware-universal-rp2350\<close> (drivers and tasks), and \<open>aegistoken-host\<close> (the host tool).

  \<^bold>\<open>Conventions.\<close> \<open>u8\<close> to \<open>u64\<close> are words and wrap as in the source; \<open>usize\<close> is \<open>nat\<close>; a byte
  slice is a list. \<open>Result\<close> is the type \<open>result\<close> of \<open>Prelude\<close>, \<open>Option\<close> is \<open>option\<close>, and a panic
  that the code could reach is a further \<open>None\<close>. A method takes and returns the state of its
  object; a trait is a record of functions; an output buffer is a length and a returned list; a
  loop is a recursive function over what it iterates. Third-party code (ciphers, hashes, curves,
  the CBOR library, the flash driver, the random generator) is a parameter, with what the code
  relies on stated as hypotheses or as the assumptions of a locale, and a concrete instance in
  the witnesses.

  \<^bold>\<open>State machines.\<close> \<open>Core_Error\<close> (\<open>error.rs\<close>), \<open>Exec_State\<close> (\<open>state.rs\<close>), \<open>Lifecycle\<close>
  (\<open>lifecycle.rs\<close>) and \<open>Recovery\<close> (\<open>recovery.rs\<close>) model the transition tables and guarded operations.
  The theorems are about runs: leaving the locked state needs recovery, a sealed device stays
  sealed until a factory reset, and a recovery session reaches no credential. \<open>Presence\<close>
  (\<open>presence.rs\<close>) models the debounced button; a confirmation belongs to the armed operation and to a press
  that began after arming, and the waiting loop ends.

  \<^bold>\<open>Retry counters.\<close> \<open>Retry_Guard\<close> states once, as a locale, how a counter that is spent before a comparison
  bounds guessing. It is interpreted for the card PIN (\<open>Pin_Slot\<close>, \<open>aegis-applets/src/pin.rs\<close>) and
  for the FIDO PIN (\<open>Client_Pin\<close>, \<open>aegis-core/src/pin.rs\<close>).

  \<^bold>\<open>The card.\<close> \<open>Apdu\<close> (\<open>apdu.rs\<close>), \<open>Tlv\<close> (\<open>tlv.rs\<close>) and \<open>Ccid\<close> (\<open>ccid.rs\<close>) are the codecs: the APDU
  parser accepts the ISO cases and one form more, GET RESPONSE delivers the whole response, and the stream
  assembler gives the same messages for any chunking. \<open>Router\<close> (\<open>router.rs\<close>) dispatches to applets
  under the locale \<open>applet\<close>; \<open>Card\<close> (\<open>card.rs\<close>) adds power, sequence numbers and the single pending
  presence request. \<open>Oath\<close> (\<open>oath.rs\<close>) is the OATH applet over any store that keeps the contract
  \<open>oath_store\<close>: the access code guards it, no HOTP counter is used twice, touch is needed where it
  is required, and credentials survive a power cycle.

  \<^bold>\<open>FIDO.\<close> \<open>Hid_Framing\<close> is the contract of a HID framing, interpreted by \<open>Ctap_Hid\<close> (\<open>ctaphid.rs\<close>)
  and \<open>Management_Hid\<close> (\<open>management.rs\<close> and the host's \<open>framing.rs\<close>). \<open>Cbor\<close> states what is used of the CBOR library
  and gives an encoder and decoder after RFC 8949 that satisfies it. \<open>Ctap2\<close> (\<open>ctap2.rs\<close>) parses
  requests, to exactly what the platform encoded, and encodes responses, \<open>Credential_Store\<close> is the interface of the store and the store in
  memory, \<open>Client_Pin\<close> the PIN protocol with its tokens, \<open>Authenticator\<close> (\<open>authenticator.rs\<close>,
  \<open>assertion.rs\<close>) registration, assertion and credential management, and \<open>U2f\<close> (\<open>u2f.rs\<close>) the
  older protocol. \<open>Fido_Session\<close> models the handlers and the report loop of the firmware task; the point
  where a handler waits for the button is an explicit value, so that its theorems speak
  of every order of messages and confirmations: credentials change only with
  presence or a token that allows exactly that request, and one confirmation authorises one operation.

  \<^bold>\<open>Storage.\<close> \<open>Slot_Storage\<close> (\<open>storage.rs\<close>, \<open>flash.rs\<close>) is the two-slot record store over a device that
  may fail at any write (locale \<open>faulty_storage\<close>) or works (\<open>storage_device\<close>). \<open>Sealed_Store\<close>
  (\<open>secret.rs\<close>, \<open>credential_store.rs\<close>) seals the credential database into it: a commit is durable,
  atomic, and only authenticated data is ever opened. \<open>Sealed_Applets\<close> (\<open>sealed.rs\<close>) models the cells
  and the sharded blobs of the applets; \<open>Sealed_Blob\<close> shows that such a blob is atomic over a flash that may tear a write
  (locale \<open>torn_storage\<close>) and so keeps the contract \<open>oath_store\<close>, on which the properties of the OATH applet rest. \<open>Firmware_Update\<close> (\<open>update.rs\<close>) stages and verifies
  an image and writes nowhere else.

  \<^bold>\<open>Bounds and fuel.\<close> The model has no fuel that a theorem depends on: loops over buffers are structural, and
  the two loops that wait for the outside (the presence wait and key generation) carry the bound of the source.
  Theorems about counters state the bound at which the counter of the source saturates or wraps.

  \<^bold>\<open>Not modelled.\<close> The PIV and OpenPGP applets with their RSA, ECDH and key derivation helpers, the device
  configuration and the management protocol above the framing, the OTP laboratory, and the identity and capability
  tables are not modelled. Peripheral set-up, drivers, task spawning, locks and timers are input and output
  without a result to state, and so are the host's command line and the build scripts. Timing and side channels,
  erasure of memory (\<open>zeroize\<close>) and logging have no counterpart in the model.
\<close>

end
